(* ===== verification/Prelude.thy ===== *)
theory Prelude
  imports Complex_Main "HOL-Library.State_Monad"
begin

text \<open>
  Shared ground of the development: the state monad in which the effectful code of the
  platform is written (every Go function that reads the clock, talks to a service or
  writes a response is a value of the library's \<open>state\<close> type), the two projections
  \<open>result\<close> and \<open>after\<close> with their rewrite rules, a Hoare-style preservation predicate with
  its rules, and generic lemmas on folds and lists.  The collection \<open>run_simps\<close> holds the
  rewrite rules that execute monadic code symbolically; \<open>keeps_intros\<close> the rules
  that push an invariant through it.
\<close>

named_theorems run_simps \<open>symbolic execution of monadic code\<close>
named_theorems keeps_intros \<open>invariants pushed through monadic code\<close>

abbreviation ret :: "'a \<Rightarrow> ('s, 'a) state" where
  "ret \<equiv> State_Monad.return"

section \<open>Running monadic code\<close>

definition result :: "('s, 'a) state \<Rightarrow> 's \<Rightarrow> 'a" where
  "result m s = fst (run_state m s)"

definition after :: "('s, 'a) state \<Rightarrow> 's \<Rightarrow> 's" where
  "after m s = snd (run_state m s)"

definition gets :: "('s \<Rightarrow> 'a) \<Rightarrow> ('s, 'a) state" where
  "gets f = State (\<lambda>s. (f s, s))"

definition modify :: "('s \<Rightarrow> 's) \<Rightarrow> ('s, unit) state" where
  "modify f = State (\<lambda>s. ((), f s))"

text \<open>Lift a state transformer with a result (a service call) into the monad.\<close>

definition act :: "('s \<Rightarrow> 'a \<times> 's) \<Rightarrow> ('s, 'a) state" where
  "act f = State f"

lemma run_state_eq: "run_state m s = (result m s, after m s)"
  by (simp add: result_def after_def)

lemma result_return [run_simps, simp]: "result (ret x) s = x"
  by (simp add: result_def)

lemma after_return [run_simps, simp]: "after (ret x) s = s"
  by (simp add: after_def)

lemma result_bind [run_simps, simp]:
  "result (State_Monad.bind m f) s = result (f (result m s)) (after m s)"
  by (simp add: result_def after_def split: prod.splits)

lemma after_bind [run_simps, simp]:
  "after (State_Monad.bind m f) s = after (f (result m s)) (after m s)"
  by (simp add: result_def after_def split: prod.splits)

lemma result_gets [run_simps, simp]: "result (gets f) s = f s"
  by (simp add: result_def gets_def)

lemma after_gets [run_simps, simp]: "after (gets f) s = s"
  by (simp add: after_def gets_def)

lemma result_modify [run_simps, simp]: "result (modify f) s = ()"
  by (simp add: result_def)

lemma after_modify [run_simps, simp]: "after (modify f) s = f s"
  by (simp add: after_def modify_def)

lemma result_act [run_simps, simp]: "result (act f) s = fst (f s)"
  by (simp add: result_def act_def)

lemma after_act [run_simps, simp]: "after (act f) s = snd (f s)"
  by (simp add: after_def act_def)

lemma result_if [run_simps, simp]:
  "result (if c then m else n) s = (if c then result m s else result n s)"
  by simp

lemma after_if [run_simps, simp]:
  "after (if c then m else n) s = (if c then after m s else after n s)"
  by simp

lemma result_let [run_simps]: "result (Let x f) s = result (f x) s"
  by (simp add: Let_def)

lemma after_let [run_simps]: "after (Let x f) s = after (f x) s"
  by (simp add: Let_def)

lemma result_case_option [run_simps, simp]:
  "result (case x of None \<Rightarrow> m | Some y \<Rightarrow> f y) s =
     (case x of None \<Rightarrow> result m s | Some y \<Rightarrow> result (f y) s)"
  by (cases x) simp_all

lemma after_case_option [run_simps, simp]:
  "after (case x of None \<Rightarrow> m | Some y \<Rightarrow> f y) s =
     (case x of None \<Rightarrow> after m s | Some y \<Rightarrow> after (f y) s)"
  by (cases x) simp_all

lemma result_case_sum [run_simps, simp]:
  "result (case x of Inl e \<Rightarrow> f e | Inr y \<Rightarrow> g y) s =
     (case x of Inl e \<Rightarrow> result (f e) s | Inr y \<Rightarrow> result (g y) s)"
  by (cases x) simp_all

lemma after_case_sum [run_simps, simp]:
  "after (case x of Inl e \<Rightarrow> f e | Inr y \<Rightarrow> g y) s =
     (case x of Inl e \<Rightarrow> after (f e) s | Inr y \<Rightarrow> after (g y) s)"
  by (cases x) simp_all

lemma result_case_prod [run_simps, simp]:
  "result (case x of (a, b) \<Rightarrow> f a b) s = (case x of (a, b) \<Rightarrow> result (f a b) s)"
  by (cases x) simp

lemma after_case_prod [run_simps, simp]:
  "after (case x of (a, b) \<Rightarrow> f a b) s = (case x of (a, b) \<Rightarrow> after (f a b) s)"
  by (cases x) simp

text \<open>The same computation \<open>n\<close> times, with the results in order.\<close>

primrec repeat_io :: "nat \<Rightarrow> ('s, 'a) state \<Rightarrow> ('s, 'a list) state" where
  "repeat_io 0 m = ret []"
| "repeat_io (Suc n) m = do { x \<leftarrow> m; xs \<leftarrow> repeat_io n m; ret (x # xs) }"

section \<open>Preserved predicates\<close>

text \<open>
  \<open>keeps P m\<close>: running \<open>m\<close> from a state with \<open>P\<close> ends in one with \<open>P\<close>, whatever the
  result.  \<open>triple P m Q\<close> is the general form with a result-dependent postcondition.
\<close>

definition keeps :: "('s \<Rightarrow> bool) \<Rightarrow> ('s, 'a) state \<Rightarrow> bool" where
  "keeps P m \<longleftrightarrow> (\<forall>s. P s \<longrightarrow> P (after m s))"

definition triple :: "('s \<Rightarrow> bool) \<Rightarrow> ('s, 'a) state \<Rightarrow> ('a \<Rightarrow> 's \<Rightarrow> bool) \<Rightarrow> bool" where
  "triple P m Q \<longleftrightarrow> (\<forall>s. P s \<longrightarrow> Q (result m s) (after m s))"

lemma keepsI: "(\<And>s. P s \<Longrightarrow> P (after m s)) \<Longrightarrow> keeps P m"
  by (simp add: keeps_def)

lemma keepsD: "keeps P m \<Longrightarrow> P s \<Longrightarrow> P (after m s)"
  by (simp add: keeps_def)

lemma keeps_return [keeps_intros, simp]: "keeps P (ret x)"
  by (simp add: keeps_def)

lemma keeps_gets [keeps_intros, simp]: "keeps P (gets f)"
  by (simp add: keeps_def)

lemma keeps_bind [keeps_intros]:
  "keeps P m \<Longrightarrow> (\<And>x. keeps P (f x)) \<Longrightarrow> keeps P (State_Monad.bind m f)"
  by (simp add: keeps_def)

lemma keeps_if [keeps_intros]:
  "(c \<Longrightarrow> keeps P m) \<Longrightarrow> (\<not> c \<Longrightarrow> keeps P n) \<Longrightarrow> keeps P (if c then m else n)"
  by simp

lemma keeps_let [keeps_intros]: "keeps P (f x) \<Longrightarrow> keeps P (Let x f)"
  by (simp add: Let_def)

lemma keeps_case_option [keeps_intros]:
  "keeps P m \<Longrightarrow> (\<And>y. keeps P (f y)) \<Longrightarrow> keeps P (case x of None \<Rightarrow> m | Some y \<Rightarrow> f y)"
  by (cases x) simp_all

lemma keeps_case_sum [keeps_intros]:
  "(\<And>e. keeps P (f e)) \<Longrightarrow> (\<And>y. keeps P (g y)) \<Longrightarrow> keeps P (case x of Inl e \<Rightarrow> f e | Inr y \<Rightarrow> g y)"
  by (cases x) simp_all

lemma keeps_case_prod [keeps_intros]:
  "(\<And>a b. keeps P (f a b)) \<Longrightarrow> keeps P (case x of (a, b) \<Rightarrow> f a b)"
  by (cases x) simp

lemma keeps_modify [keeps_intros]: "(\<And>s. P s \<Longrightarrow> P (f s)) \<Longrightarrow> keeps P (modify f)"
  by (simp add: keeps_def)

lemma keeps_act [keeps_intros]: "(\<And>s. P s \<Longrightarrow> P (snd (f s))) \<Longrightarrow> keeps P (act f)"
  by (simp add: keeps_def)

lemma tripleI: "(\<And>s. P s \<Longrightarrow> Q (result m s) (after m s)) \<Longrightarrow> triple P m Q"
  by (simp add: triple_def)

lemma triple_bind:
  "triple P m R \<Longrightarrow> (\<And>x. triple (R x) (f x) Q) \<Longrightarrow> triple P (State_Monad.bind m f) Q"
  by (simp add: triple_def)

lemma triple_conseq:
  "triple P' m Q' \<Longrightarrow> (\<And>s. P s \<Longrightarrow> P' s) \<Longrightarrow> (\<And>x s. Q' x s \<Longrightarrow> Q x s) \<Longrightarrow> triple P m Q"
  by (simp add: triple_def)

section \<open>Lists\<close>

lemma sum_list_concat: "sum_list (concat xss) = sum_list (map sum_list xss)"
  for xss :: "'a::monoid_add list list"
  by (induction xss) simp_all

lemma takeWhile_append_stop: "\<not> P c \<Longrightarrow> (\<And>x. x \<in> set xs \<Longrightarrow> P x) \<Longrightarrow> takeWhile P (xs @ c # ys) = xs"
  by (induction xs) auto

lemma dropWhile_append_stop: "\<not> P c \<Longrightarrow> (\<And>x. x \<in> set xs \<Longrightarrow> P x) \<Longrightarrow> dropWhile P (xs @ c # ys) = c # ys"
  by (induction xs) auto

end
