(* ===== verification/Float64.thy ===== *)
theory Float64
  imports Prelude "HOL-Library.Log_Nat"
begin

text \<open>
  Go's \<open>float64\<close> and \<open>float32\<close>: the language fixes both to IEEE 754.  A value is NaN, an
  infinity, or a finite number held as the rational it denotes; every operation computes the
  exact rational result and rounds it to nearest, ties to even, to the precision and the least
  exponent of the format.  The sign of zero is not kept: no code of the platform divides by a
  zero or prints one whose sign could matter.  The lemmas give what the money and audio
  arithmetic rests on: rounding is monotone, fixes what the format represents, keeps signs, and
  errs by at most half a unit in the last place.
\<close>

section \<open>Binary exponents\<close>

definition pow2 :: "int \<Rightarrow> rat" where
  "pow2 e = (if 0 \<le> e then 2 ^ nat e else 1 / 2 ^ nat (- e))"

lemma pow2_pos [simp]: "0 < pow2 e"
  by (simp add: pow2_def)

lemma pow2_nonneg [simp]: "0 \<le> pow2 e"
  using pow2_pos [of e] by linarith

lemma pow2_neq [simp]: "pow2 e \<noteq> 0"
  using pow2_pos [of e] by linarith

lemma pow2_not_le_zero [simp]: "\<not> pow2 e \<le> 0"
  by (simp add: not_le)

lemma pow2_powi: "pow2 e = 2 powi e"
  by (simp add: pow2_def power_int_def field_simps power_inverse)

lemma pow2_add: "pow2 (a + b) = pow2 a * pow2 b"
  by (simp add: pow2_powi power_int_add)

lemma pow2_1 [simp]: "pow2 1 = 2"
  by (simp add: pow2_def)

lemma pow2_0 [simp]: "pow2 0 = 1"
  by (simp add: pow2_def)

lemma pow2_diff: "pow2 (a - b) = pow2 a / pow2 b"
  by (simp add: pow2_powi power_int_diff)

lemma pow2_mono: "a \<le> b \<Longrightarrow> pow2 a \<le> pow2 b"
  by (simp add: pow2_powi power_int_increasing)

lemma pow2_strict_mono: "a < b \<Longrightarrow> pow2 a < pow2 b"
  by (simp add: pow2_powi power_int_strict_increasing)

lemma pow2_less_iff [simp]: "pow2 a < pow2 b \<longleftrightarrow> a < b"
  by (meson pow2_mono pow2_strict_mono linorder_not_le)

lemma pow2_nat: "0 \<le> e \<Longrightarrow> pow2 e = of_int (2 ^ nat e)"
  by (simp add: pow2_def)

text \<open>\<open>ilog2 x\<close> is the exponent of the leading bit of a positive \<open>x\<close>.\<close>

definition ilog2 :: "rat \<Rightarrow> int" where
  "ilog2 x =
     (let (p, q) = quotient_of x; e = bitlen p - bitlen q
      in if pow2 e \<le> x then e else e - 1)"

lemma ilog2_bounds:
  assumes "0 < x"
  shows "pow2 (ilog2 x) \<le> x" and "x < pow2 (ilog2 x + 1)"
proof -
  obtain p q where pq: "quotient_of x = (p, q)" by (cases "quotient_of x")
  have q: "0 < q" using pq by (rule quotient_of_denom_pos)
  have x: "x = of_int p / of_int q" using pq by (rule quotient_of_div)
  have p: "0 < p" using assms q x by (simp add: zero_less_divide_iff)
  define e where "e = bitlen p - bitlen q"
  have bl: "1 \<le> bitlen p" "1 \<le> bitlen q"
    using p q by (simp_all add: bitlen_ge_iff_power)
  have plo: "pow2 (bitlen p - 1) \<le> of_int p" and phi: "of_int p < pow2 (bitlen p)"
    using bitlen_bounds [OF p] bl of_int_le_iff [of "2 ^ nat (bitlen p - 1)" p, where 'a = rat]
      of_int_less_iff [of p "2 ^ nat (bitlen p)", where 'a = rat]
    by (simp_all add: pow2_nat)
  have qlo: "pow2 (bitlen q - 1) \<le> of_int q" and qhi: "of_int q < pow2 (bitlen q)"
    using bitlen_bounds [OF q] bl of_int_le_iff [of "2 ^ nat (bitlen q - 1)" q, where 'a = rat]
      of_int_less_iff [of q "2 ^ nat (bitlen q)", where 'a = rat]
    by (simp_all add: pow2_nat)
  have hi: "x < pow2 (e + 1)"
  proof -
    have "x < pow2 (bitlen p) / of_int q"
      unfolding x using phi q by (simp add: divide_strict_right_mono)
    also have "\<dots> \<le> pow2 (bitlen p) / pow2 (bitlen q - 1)"
      using qlo q by (intro divide_left_mono) auto
    also have "\<dots> = pow2 (e + 1)"
      by (simp add: e_def pow2_diff pow2_add)
    finally show ?thesis .
  qed
  have lo: "pow2 (e - 1) \<le> x"
  proof -
    have "pow2 (e - 1) = pow2 (bitlen p - 1) / pow2 (bitlen q)"
      by (simp add: e_def pow2_diff)
    also have "\<dots> \<le> pow2 (bitlen p - 1) / of_int q"
      using qhi q by (intro divide_left_mono) auto
    also have "\<dots> \<le> x"
      unfolding x using plo q by (simp add: divide_right_mono)
    finally show ?thesis .
  qed
  have il: "ilog2 x = (if pow2 e \<le> x then e else e - 1)"
    by (simp add: ilog2_def pq e_def)
  show "pow2 (ilog2 x) \<le> x" using lo il by auto
  show "x < pow2 (ilog2 x + 1)" using hi il by auto
qed

lemma ilog2_unique:
  assumes "pow2 e \<le> x" and "x < pow2 (e + 1)"
  shows "ilog2 x = e"
proof -
  have x: "0 < x" using assms(1) pow2_pos [of e] by linarith
  note b = ilog2_bounds [OF x]
  have "pow2 (ilog2 x) < pow2 (e + 1)" "pow2 e < pow2 (ilog2 x + 1)"
    using b assms by linarith+
  then show ?thesis by simp
qed

lemma ilog2_mono: "0 < x \<Longrightarrow> x \<le> y \<Longrightarrow> ilog2 x \<le> ilog2 y"
proof -
  assume "0 < x" "x \<le> y"
  then have "pow2 (ilog2 x) < pow2 (ilog2 y + 1)"
    using ilog2_bounds(1) [of x] ilog2_bounds(2) [of y] by linarith
  then show ?thesis by simp
qed

section \<open>Round half to even\<close>

definition rne :: "rat \<Rightarrow> int" where
  "rne x =
     (let f = \<lfloor>x\<rfloor>; d = x - of_int f
      in if d < 1 / 2 then f else if 1 / 2 < d then f + 1 else if even f then f else f + 1)"

lemma rne_bounds: "\<lfloor>x\<rfloor> \<le> rne x" "rne x \<le> \<lfloor>x\<rfloor> + 1"
  by (simp_all add: rne_def Let_def)

lemma rne_of_int [simp]: "rne (of_int k) = k"
  by (simp add: rne_def)

lemma rne_ints [simp]: "rne 0 = 0" "rne 1 = 1" "rne (numeral n) = numeral n"
  using rne_of_int [of 0] rne_of_int [of 1] rne_of_int [of "numeral n"] by simp_all

lemma rne_err: "\<bar>of_int (rne x) - x\<bar> \<le> 1 / 2"
proof -
  have "of_int \<lfloor>x\<rfloor> \<le> x" "x < of_int \<lfloor>x\<rfloor> + 1" by linarith+
  then show ?thesis by (auto simp: rne_def Let_def abs_le_iff)
qed

lemma rne_mono: "x \<le> y \<Longrightarrow> rne x \<le> rne y"
proof -
  assume xy: "x \<le> y"
  then have "\<lfloor>x\<rfloor> \<le> \<lfloor>y\<rfloor>" by (rule floor_mono)
  then consider "\<lfloor>x\<rfloor> = \<lfloor>y\<rfloor>" | "\<lfloor>x\<rfloor> + 1 \<le> \<lfloor>y\<rfloor>" by linarith
  then show ?thesis
  proof cases
    case 1
    then show ?thesis using xy by (auto simp: rne_def Let_def)
  next
    case 2
    then show ?thesis using rne_bounds(2) [of x] rne_bounds(1) [of y] by linarith
  qed
qed

lemma rne_uminus [simp]: "rne (- x) = - rne x"
proof (cases "x = of_int \<lfloor>x\<rfloor>")
  case True
  then show ?thesis by (metis of_int_minus rne_of_int)
next
  case False
  define f where "f = \<lfloor>x\<rfloor>"
  define d where "d = x - of_int f"
  have d: "0 < d" "d < 1" using False by (simp_all add: d_def f_def) linarith+
  have x: "x = of_int f + d" by (simp add: d_def)
  have fm: "\<lfloor>- x\<rfloor> = - f - 1"
    by (rule floor_unique) (use d in \<open>simp_all add: x\<close>)
  have f: "\<lfloor>x\<rfloor> = f" by (simp add: f_def)
  show ?thesis
    unfolding rne_def Let_def f fm using d by (auto simp: x)
qed

lemma rne_le_int: "x \<le> of_int k \<Longrightarrow> rne x \<le> k"
  using rne_mono [of x "of_int k"] by simp

lemma rne_ge_int: "of_int k \<le> x \<Longrightarrow> k \<le> rne x"
  using rne_mono [of "of_int k" x] by simp

section \<open>Rounding to a format\<close>

text \<open>
  \<open>qexp p emin x\<close> is the exponent of the last place of \<open>x\<close> in a format of precision \<open>p\<close>
  whose least exponent is \<open>emin\<close> (gradual underflow); \<open>rnd\<close> rounds to a multiple of it.
\<close>

definition qexp :: "int \<Rightarrow> int \<Rightarrow> rat \<Rightarrow> int" where
  "qexp p emin x = max (ilog2 \<bar>x\<bar> - (p - 1)) emin"

definition rnd :: "int \<Rightarrow> int \<Rightarrow> rat \<Rightarrow> rat" where
  "rnd p emin x =
     (if x = 0 then 0
      else let u = pow2 (qexp p emin x) in of_int (rne (x / u)) * u)"

lemma rnd_zero [simp]: "rnd p emin 0 = 0"
  by (simp add: rnd_def)

lemma rnd_uminus [simp]: "rnd p emin (- x) = - rnd p emin x"
  by (simp add: rnd_def qexp_def Let_def)

lemma rnd_nonneg: "0 \<le> x \<Longrightarrow> 0 \<le> rnd p emin x"
  using rne_ge_int [of 0] by (simp add: rnd_def Let_def)

lemma pow2_split: "e \<le> k \<Longrightarrow> pow2 k = of_int (2 ^ nat (k - e)) * pow2 e"
  using pow2_add [of "k - e" e] by (simp add: pow2_nat)

lemma rnd_le_pow2: "0 < x \<Longrightarrow> qexp p emin x \<le> k \<Longrightarrow> x \<le> pow2 k \<Longrightarrow> rnd p emin x \<le> pow2 k"
proof -
  assume x: "0 < x" and k: "qexp p emin x \<le> k" "x \<le> pow2 k"
  let ?e = "qexp p emin x"
  have "x / pow2 ?e \<le> of_int (2 ^ nat (k - ?e))"
    using k(2) by (simp add: pow2_split [OF k(1)] pos_divide_le_eq)
  then have "rne (x / pow2 ?e) \<le> 2 ^ nat (k - ?e)" by (rule rne_le_int)
  then have "(of_int (rne (x / pow2 ?e)) :: rat) \<le> of_int (2 ^ nat (k - ?e))"
    by (simp only: of_int_le_iff)
  then show ?thesis
    using x by (simp add: rnd_def Let_def pow2_split [OF k(1)])
qed

lemma rnd_ge_pow2: "0 < x \<Longrightarrow> qexp p emin x \<le> k \<Longrightarrow> pow2 k \<le> x \<Longrightarrow> pow2 k \<le> rnd p emin x"
proof -
  assume x: "0 < x" and k: "qexp p emin x \<le> k" "pow2 k \<le> x"
  let ?e = "qexp p emin x"
  have "of_int (2 ^ nat (k - ?e)) \<le> x / pow2 ?e"
    using k(2) by (simp add: pow2_split [OF k(1)] pos_le_divide_eq)
  then have "2 ^ nat (k - ?e) \<le> rne (x / pow2 ?e)" by (rule rne_ge_int)
  then have "(of_int (2 ^ nat (k - ?e)) :: rat) \<le> of_int (rne (x / pow2 ?e))"
    by (simp only: of_int_le_iff)
  then show ?thesis
    using x by (simp add: rnd_def Let_def pow2_split [OF k(1)])
qed

lemma rnd_mono_pos:
  assumes p: "1 \<le> p" and xy: "0 < x" "x \<le> y"
  shows "rnd p emin x \<le> rnd p emin y"
proof -
  have y: "0 < y" using xy by simp
  let ?ex = "qexp p emin x" and ?ey = "qexp p emin y"
  have il: "ilog2 x \<le> ilog2 y" using xy by (rule ilog2_mono)
  then have ee: "?ex \<le> ?ey" using xy y by (simp add: qexp_def)
  show ?thesis
  proof (cases "?ex = ?ey")
    case True
    have "rne (x / pow2 ?ey) \<le> rne (y / pow2 ?ey)"
      by (rule rne_mono) (use xy in \<open>simp add: divide_right_mono\<close>)
    then show ?thesis using xy y True by (simp add: rnd_def Let_def)
  next
    case False
    with ee have lt: "?ex < ?ey" by simp
    then have ey: "?ey = ilog2 y - (p - 1)" and ixy: "ilog2 x < ilog2 y"
      using xy y by (auto simp: qexp_def max_def split: if_splits)
    have "x \<le> pow2 (ilog2 y)"
      using ilog2_bounds(2) [OF xy(1)] pow2_mono [of "ilog2 x + 1" "ilog2 y"] ixy by simp
    then have "rnd p emin x \<le> pow2 (ilog2 y)"
      using xy(1) lt ey p by (intro rnd_le_pow2) auto
    also have "\<dots> \<le> rnd p emin y"
      using y ey p ilog2_bounds(1) [OF y] by (intro rnd_ge_pow2) auto
    finally show ?thesis .
  qed
qed

lemma rnd_mono:
  assumes "1 \<le> p" and "x \<le> y"
  shows "rnd p emin x \<le> rnd p emin y"
proof -
  consider "0 < x" | "y < 0" | "x \<le> 0" "0 \<le> y" by linarith
  then show ?thesis
  proof cases
    case 1
    then show ?thesis using assms by (intro rnd_mono_pos) auto
  next
    case 2
    then have "rnd p emin (- y) \<le> rnd p emin (- x)"
      using assms by (intro rnd_mono_pos) auto
    then show ?thesis by simp
  next
    case 3
    then have "0 \<le> rnd p emin (- x)" "0 \<le> rnd p emin y" by (simp_all add: rnd_nonneg del: rnd_uminus)
    then show ?thesis by simp
  qed
qed

text \<open>What the format holds is a fixed point of rounding, and rounding lands in the format.\<close>

lemma rnd_fixed:
  assumes m: "\<bar>m\<bar> < 2 ^ nat p" and p: "1 \<le> p" and e: "emin \<le> e"
  shows "rnd p emin (of_int m * pow2 e) = of_int m * pow2 e"
proof (cases "m = 0")
  case True
  then show ?thesis by simp
next
  case False
  let ?x = "of_int m * pow2 e"
  have x: "0 < \<bar>?x\<bar>" using False by (simp add: abs_mult)
  have "\<bar>?x\<bar> < pow2 (p + e)"
  proof -
    have "(of_int \<bar>m\<bar> :: rat) < of_int (2 ^ nat p)" using m by (simp only: of_int_less_iff)
    then show ?thesis using p by (simp add: abs_mult pow2_add pow2_nat)
  qed
  with ilog2_bounds(1) [OF x] have "pow2 (ilog2 \<bar>?x\<bar>) < pow2 (p + e)" by linarith
  then have il: "ilog2 \<bar>?x\<bar> \<le> p - 1 + e" by simp
  define q where "q = qexp p emin ?x"
  have q: "q \<le> e" using il e by (simp add: q_def qexp_def)
  have "?x / pow2 q = of_int (m * 2 ^ nat (e - q))"
    by (simp add: pow2_split [OF q])
  then have "rne (?x / pow2 q) = m * 2 ^ nat (e - q)" by (simp only: rne_of_int)
  then have "of_int (rne (?x / pow2 q)) * pow2 q = ?x"
    by (simp add: pow2_split [OF q])
  then show ?thesis
    using False by (simp only: rnd_def Let_def q_def [symmetric]) simp
qed

lemma rnd_pow2 [simp]: "1 \<le> p \<Longrightarrow> emin \<le> e \<Longrightarrow> rnd p emin (pow2 e) = pow2 e"
proof -
  assume p: "1 \<le> p" and e: "emin \<le> e"
  have "(2::int) ^ 1 \<le> 2 ^ nat p" using p by (intro power_increasing) auto
  then have "\<bar>1::int\<bar> < 2 ^ nat p" by simp
  then show ?thesis using rnd_fixed [of 1 p emin e] p e by simp
qed

lemma rnd_of_int:
  "\<bar>m\<bar> < 2 ^ nat p \<Longrightarrow> 1 \<le> p \<Longrightarrow> emin \<le> 0 \<Longrightarrow> rnd p emin (of_int m) = of_int m"
  using rnd_fixed [of m p emin 0] by simp

lemma qexp_bound: "x \<noteq> 0 \<Longrightarrow> \<bar>x / pow2 (qexp p emin x)\<bar> < pow2 p"
proof -
  assume "x \<noteq> 0"
  then have "\<bar>x\<bar> < pow2 (ilog2 \<bar>x\<bar> + 1)" by (intro ilog2_bounds(2)) simp
  also have "\<dots> \<le> pow2 (p + qexp p emin x)" by (intro pow2_mono) (simp add: qexp_def)
  finally show ?thesis by (simp add: abs_divide pos_divide_less_eq pow2_add)
qed

lemma rnd_idem [simp]:
  assumes p: "1 \<le> p"
  shows "rnd p emin (rnd p emin x) = rnd p emin x"
proof (cases "x = 0")
  case True
  then show ?thesis by simp
next
  case False
  let ?q = "qexp p emin x"
  let ?m = "rne (x / pow2 ?q)"
  have q: "emin \<le> ?q" by (simp add: qexp_def)
  have r: "rnd p emin x = of_int ?m * pow2 ?q" using False by (simp add: rnd_def Let_def)
  have b: "\<bar>x / pow2 ?q\<bar> \<le> of_int (2 ^ nat p)"
    using qexp_bound [OF False, of p emin] p by (simp only: pow2_nat)
  have "?m \<le> 2 ^ nat p" by (rule rne_le_int) (rule abs_le_D1 [OF b])
  moreover have "- ?m \<le> 2 ^ nat p"
    unfolding rne_uminus [symmetric] by (rule rne_le_int) (rule abs_le_D2 [OF b])
  ultimately consider "\<bar>?m\<bar> < 2 ^ nat p" | "?m = 2 ^ nat p" | "?m = - (2 ^ nat p)" by linarith
  then show ?thesis
  proof cases
    case 1
    then show ?thesis unfolding r using p q by (rule rnd_fixed)
  next
    case 2
    have "rnd p emin x = pow2 (p + ?q)" unfolding r 2 using p by (simp add: pow2_add pow2_nat)
    then show ?thesis using p q by simp
  next
    case 3
    have "rnd p emin x = - pow2 (p + ?q)" unfolding r 3 using p by (simp add: pow2_add pow2_nat)
    then show ?thesis using p q by simp
  qed
qed

text \<open>The error is at most half a unit in the last place.\<close>

lemma rnd_err:
  assumes "1 \<le> p"
  shows "\<bar>rnd p emin x - x\<bar> \<le> pow2 (- p) * \<bar>x\<bar> + pow2 (emin - 1)"
proof (cases "x = 0")
  case True
  then show ?thesis by simp
next
  case False
  let ?q = "qexp p emin x"
  let ?d = "of_int (rne (x / pow2 ?q)) - x / pow2 ?q"
  have "rnd p emin x - x = ?d * pow2 ?q" using False by (simp add: rnd_def Let_def algebra_simps)
  then have "\<bar>rnd p emin x - x\<bar> = \<bar>?d\<bar> * pow2 ?q" by (simp add: abs_mult)
  also have "\<dots> \<le> 1 / 2 * pow2 ?q" by (intro mult_right_mono rne_err) simp
  also have "\<dots> = pow2 (?q - 1)" by (simp add: pow2_diff)
  also have "\<dots> \<le> pow2 (- p) * \<bar>x\<bar> + pow2 (emin - 1)"
  proof (cases "?q = emin")
    case True
    then show ?thesis by simp
  next
    case False
    then have "?q - 1 = - p + ilog2 \<bar>x\<bar>" by (simp add: qexp_def max_def split: if_splits)
    then have "pow2 (?q - 1) = pow2 (- p) * pow2 (ilog2 \<bar>x\<bar>)" by (simp add: pow2_add [symmetric])
    also have "\<dots> \<le> pow2 (- p) * \<bar>x\<bar>"
      using \<open>x \<noteq> 0\<close> by (intro mult_left_mono ilog2_bounds(1)) auto
    finally show ?thesis using pow2_nonneg [of "emin - 1"] by linarith
  qed
  finally show ?thesis .
qed

lemma rnd_underflow:
  assumes p: "1 \<le> p" and z: "rnd p emin x = 0"
  shows "\<bar>x\<bar> \<le> pow2 (emin - 1)"
proof (cases "x = 0")
  case True
  then show ?thesis by simp
next
  case False
  have "\<bar>x\<bar> < pow2 emin"
  proof (rule ccontr)
    assume "\<not> \<bar>x\<bar> < pow2 emin"
    then have "pow2 emin \<le> rnd p emin \<bar>x\<bar>"
      using rnd_mono [OF p, of "pow2 emin" "\<bar>x\<bar>" emin] p by simp
    moreover have "rnd p emin \<bar>x\<bar> = 0" using z by (cases "0 \<le> x") simp_all
    ultimately show False using pow2_pos [of emin] by linarith
  qed
  moreover have "pow2 (ilog2 \<bar>x\<bar>) \<le> \<bar>x\<bar>" using False by (intro ilog2_bounds(1)) simp
  ultimately have "pow2 (ilog2 \<bar>x\<bar>) < pow2 emin" by linarith
  then have q: "qexp p emin x = emin" using p by (simp add: qexp_def)
  have "rne (x / pow2 emin) = 0" using z False by (simp add: rnd_def Let_def q)
  then have "\<bar>x / pow2 emin\<bar> \<le> 1 / 2" using rne_err [of "x / pow2 emin"] by simp
  then show ?thesis by (simp add: abs_divide pos_divide_le_eq pow2_diff)
qed

section \<open>The interface the arithmetic of the platform relies on\<close>

text \<open>
  What the budget and the accumulators need from a rounding function \<open>r\<close> with relative
  error \<open>u\<close> and absolute error \<open>eta\<close>: the client lemmas below hold for any such function
  and are interpreted for both formats.
\<close>

locale rounding =
  fixes r :: "rat \<Rightarrow> rat" and u :: rat and eta :: rat
  assumes mono: "x \<le> y \<Longrightarrow> r x \<le> r y"
    and zero: "r 0 = 0"
    and idem: "r (r x) = r x"
    and err: "\<bar>r x - x\<bar> \<le> u * \<bar>x\<bar> + eta"
    and underflow: "r x = 0 \<Longrightarrow> \<bar>x\<bar> \<le> eta"
    and u_nonneg: "0 \<le> u"
    and eta_nonneg: "0 \<le> eta"
begin

lemma nonneg: "0 \<le> x \<Longrightarrow> 0 \<le> r x"
  using mono [of 0 x] by (simp add: zero)

lemma spend_decreases:
  "r b = b \<Longrightarrow> 0 \<le> c \<Longrightarrow> r (b - c) \<le> b"
  using mono [of "b - c" b] by simp

lemma spend_all_le:
  "r b = b \<Longrightarrow> \<forall>c \<in> set cs. 0 \<le> c \<Longrightarrow> foldl (\<lambda>b c. r (b - c)) b cs \<le> b"
proof (induction cs arbitrary: b)
  case Nil
  then show ?case by simp
next
  case (Cons c cs)
  then have "foldl (\<lambda>b c. r (b - c)) (r (b - c)) cs \<le> r (b - c)"
    by (intro Cons.IH) (simp_all add: idem)
  also have "\<dots> \<le> b" using Cons.prems by (intro spend_decreases) simp_all
  finally show ?case by simp
qed

lemma spend_step:
  assumes b: "r b = b" "0 \<le> b" and c: "0 \<le> c" and left: "0 \<le> r (b - c)"
  shows "c \<le> b - r (b - c) + (u * b + eta)"
proof (cases "0 \<le> b - c")
  case True
  have "u * \<bar>b - c\<bar> \<le> u * b" using True c u_nonneg by (intro mult_left_mono) simp_all
  then show ?thesis using err [of "b - c"] by linarith
next
  case False
  then have "r (b - c) \<le> 0" using mono [of "b - c" 0] by (simp add: zero)
  then have z: "r (b - c) = 0" using left by simp
  have "0 \<le> u * b" using u_nonneg b(2) by simp
  then show ?thesis using underflow [OF z] z by linarith
qed

text \<open>
  A balance \<open>b\<close> that is debited step by step with rounding and has not gone negative has paid
  for all the debits, but for one rounding error per step.
\<close>

lemma spend_bound:
  assumes "r b = b" and "0 \<le> b" and "\<forall>c \<in> set cs. 0 \<le> c"
    and "0 \<le> foldl (\<lambda>b c. r (b - c)) b cs"
  shows "sum_list cs \<le> b - foldl (\<lambda>b c. r (b - c)) b cs + of_nat (length cs) * (u * b + eta)"
  using assms
proof (induction cs arbitrary: b)
  case Nil
  then show ?case by simp
next
  case (Cons c cs)
  let ?b = "r (b - c)"
  let ?fin = "foldl (\<lambda>b c. r (b - c)) ?b cs"
  have c: "0 \<le> c" and cs: "\<forall>c \<in> set cs. 0 \<le> c" using Cons.prems(3) by simp_all
  have e: "0 \<le> ?fin" using Cons.prems(4) by simp
  have le: "?b \<le> b" using Cons.prems(1) c by (rule spend_decreases)
  have "?fin \<le> ?b" using cs by (intro spend_all_le) (simp_all add: idem)
  then have b0: "0 \<le> ?b" using e by linarith
  have "sum_list cs \<le> ?b - ?fin + of_nat (length cs) * (u * ?b + eta)"
    using cs e b0 by (intro Cons.IH) (simp_all add: idem)
  also have "\<dots> \<le> ?b - ?fin + of_nat (length cs) * (u * b + eta)"
    using le u_nonneg by (intro add_left_mono mult_left_mono add_right_mono) simp_all
  finally have "sum_list cs \<le> ?b - ?fin + of_nat (length cs) * (u * b + eta)" .
  moreover have "c \<le> b - ?b + (u * b + eta)"
    using Cons.prems(1,2) c b0 by (rule spend_step)
  ultimately show ?case by (simp add: algebra_simps)
qed

lemma acc_ge:
  "r a = a \<Longrightarrow> \<forall>x \<in> set xs. 0 \<le> x \<Longrightarrow> a \<le> foldl (\<lambda>a x. r (a + x)) a xs"
proof (induction xs arbitrary: a)
  case Nil
  then show ?case by simp
next
  case (Cons x xs)
  then have "a \<le> r (a + x)" using mono [of a "a + x"] by simp
  also have "\<dots> \<le> foldl (\<lambda>a x. r (a + x)) (r (a + x)) xs"
    using Cons by (simp add: idem)
  finally show ?case by simp
qed

end

interpretation r64: rounding "rnd 53 (- 1074)" "pow2 (- 53)" "pow2 (- 1075)"
  using rnd_err [of 53 "- 1074"] rnd_underflow [of 53 "- 1074"]
  by unfold_locales (auto intro: rnd_mono)

interpretation r32: rounding "rnd 24 (- 149)" "pow2 (- 24)" "pow2 (- 150)"
  using rnd_err [of 24 "- 149"] rnd_underflow [of 24 "- 149"]
  by unfold_locales (auto intro: rnd_mono)

section \<open>Values and operations\<close>

datatype flt = Fin rat | PosInf | NegInf | NaN

text \<open>Both Go types share the value type; they differ in the rounding applied.\<close>

type_synonym float64 = flt
type_synonym float32 = flt

definition to_format :: "int \<Rightarrow> int \<Rightarrow> int \<Rightarrow> rat \<Rightarrow> flt" where
  "to_format p emin emax x =
     (let y = rnd p emin x
      in if pow2 emax \<le> y then PosInf else if y \<le> - pow2 emax then NegInf else Fin y)"

definition f64 :: "rat \<Rightarrow> float64" where
  "f64 = to_format 53 (- 1074) 1024"

definition f32 :: "rat \<Rightarrow> float32" where
  "f32 = to_format 24 (- 149) 128"

text \<open>\<open>is64 v\<close>: \<open>v\<close> is a value a \<open>float64\<close> variable can hold.\<close>

fun is64 :: "flt \<Rightarrow> bool" where
  "is64 (Fin x) = (rnd 53 (- 1074) x = x \<and> \<bar>x\<bar> < pow2 1024)"
| "is64 _ = True"

fun fneg :: "flt \<Rightarrow> flt" where
  "fneg (Fin x) = Fin (- x)"
| "fneg PosInf = NegInf"
| "fneg NegInf = PosInf"
| "fneg NaN = NaN"

fun fadd :: "float64 \<Rightarrow> float64 \<Rightarrow> float64" where
  "fadd (Fin x) (Fin y) = f64 (x + y)"
| "fadd NaN _ = NaN"
| "fadd _ NaN = NaN"
| "fadd PosInf NegInf = NaN"
| "fadd NegInf PosInf = NaN"
| "fadd PosInf _ = PosInf"
| "fadd NegInf _ = NegInf"
| "fadd _ PosInf = PosInf"
| "fadd _ NegInf = NegInf"

definition fsub :: "float64 \<Rightarrow> float64 \<Rightarrow> float64" where
  "fsub a b = fadd a (fneg b)"

text \<open>The sign of a product or quotient with an infinite operand.\<close>

definition signed_inf :: "bool \<Rightarrow> flt" where
  "signed_inf neg = (if neg then NegInf else PosInf)"

fun fmul :: "float64 \<Rightarrow> float64 \<Rightarrow> float64" where
  "fmul (Fin x) (Fin y) = f64 (x * y)"
| "fmul NaN _ = NaN"
| "fmul _ NaN = NaN"
| "fmul (Fin x) PosInf = (if x = 0 then NaN else signed_inf (x < 0))"
| "fmul (Fin x) NegInf = (if x = 0 then NaN else signed_inf (0 < x))"
| "fmul PosInf (Fin y) = (if y = 0 then NaN else signed_inf (y < 0))"
| "fmul NegInf (Fin y) = (if y = 0 then NaN else signed_inf (0 < y))"
| "fmul PosInf PosInf = PosInf"
| "fmul NegInf NegInf = PosInf"
| "fmul _ _ = NegInf"

text \<open>Division; a zero divisor is taken as positive (the platform never has one).\<close>

fun fdiv :: "float64 \<Rightarrow> float64 \<Rightarrow> float64" where
  "fdiv (Fin x) (Fin y) =
     (if y = 0 then (if x = 0 then NaN else signed_inf (x < 0)) else f64 (x / y))"
| "fdiv NaN _ = NaN"
| "fdiv _ NaN = NaN"
| "fdiv (Fin x) _ = Fin 0"
| "fdiv PosInf (Fin y) = signed_inf (y < 0)"
| "fdiv NegInf (Fin y) = signed_inf (0 \<le> y)"
| "fdiv _ _ = NaN"

fun flt_less :: "flt \<Rightarrow> flt \<Rightarrow> bool" where
  "flt_less (Fin x) (Fin y) = (x < y)"
| "flt_less NegInf (Fin y) = True"
| "flt_less NegInf PosInf = True"
| "flt_less (Fin x) PosInf = True"
| "flt_less _ _ = False"

fun flt_le :: "flt \<Rightarrow> flt \<Rightarrow> bool" where
  "flt_le (Fin x) (Fin y) = (x \<le> y)"
| "flt_le NaN _ = False"
| "flt_le _ NaN = False"
| "flt_le NegInf _ = True"
| "flt_le _ PosInf = True"
| "flt_le _ _ = False"

text \<open>Conversions: \<open>float64(n)\<close> of an integer, \<open>float32(x)\<close> of a \<open>float64\<close>.\<close>

definition f_of_int :: "int \<Rightarrow> float64" where
  "f_of_int n = f64 (of_int n)"

fun to_f32 :: "float64 \<Rightarrow> float32" where
  "to_f32 (Fin x) = f32 x"
| "to_f32 v = v"

abbreviation f0 :: float64 where
  "f0 \<equiv> Fin 0"

section \<open>Laws of the operations\<close>

lemma f64_cases:
  obtains "f64 x = PosInf" "pow2 1024 \<le> rnd 53 (- 1074) x"
  | "f64 x = NegInf" "rnd 53 (- 1074) x \<le> - pow2 1024"
  | "f64 x = Fin (rnd 53 (- 1074) x)" "\<bar>rnd 53 (- 1074) x\<bar> < pow2 1024"
  by (cases "pow2 1024 \<le> rnd 53 (- 1074) x"; cases "rnd 53 (- 1074) x \<le> - pow2 1024")
    (auto simp: f64_def to_format_def)

lemma is64_f64 [simp]: "is64 (f64 x)"
  by (cases x rule: f64_cases) simp_all

lemma is64_fadd [simp]: "is64 (fadd a b)"
  by (cases a; cases b) simp_all

lemma is64_fsub [simp]: "is64 (fsub a b)"
  by (simp add: fsub_def)

lemma is64_signed_inf [simp]: "is64 (signed_inf n)"
  by (simp add: signed_inf_def)

lemma is64_fmul [simp]: "is64 (fmul a b)"
  by (cases a; cases b) simp_all

lemma is64_zero [simp]: "is64 (Fin 0)"
  by simp

lemma is64_fdiv [simp]: "is64 (fdiv a b)"
  by (cases a; cases b) simp_all

lemma is64_f_of_int [simp]: "is64 (f_of_int n)"
  by (simp add: f_of_int_def)

lemma f64_zero [simp]: "f64 0 = Fin 0"
  by (simp add: f64_def to_format_def)

lemma f64_id: "is64 (Fin x) \<Longrightarrow> f64 x = Fin x"
  by (auto simp: f64_def to_format_def abs_less_iff)

lemma f64_mono: "x \<le> y \<Longrightarrow> flt_le (f64 x) (f64 y)"
  by (cases x rule: f64_cases; cases y rule: f64_cases)
    (use r64.mono [of x y] pow2_pos [of 1024] in auto)

lemma f64_nonneg: "0 \<le> x \<Longrightarrow> flt_le f0 (f64 x)"
  using f64_mono [of 0 x] by simp

lemma f64_pos_arg: "flt_less f0 (f64 x) \<Longrightarrow> 0 < x"
  using f64_mono [of x 0] by (cases "0 < x") (auto elim!: flt_less.elims)

lemma f64_neg: "f64 (- x) = fneg (f64 x)"
  by (cases x rule: f64_cases)
    (auto simp: f64_def to_format_def Let_def, (use pow2_pos [of 1024] in linarith)+)

lemma f_of_int_exact: "\<bar>n\<bar> < 2 ^ 53 \<Longrightarrow> f_of_int n = Fin (of_int n)"
proof -
  assume n: "\<bar>n\<bar> < 2 ^ 53"
  have r: "rnd 53 (- 1074) (of_int n) = of_int n" using n by (intro rnd_of_int) simp_all
  have "\<bar>of_int n :: rat\<bar> < of_int (2 ^ 53)" using n by (simp only: of_int_abs [symmetric] of_int_less_iff)
  also have "\<dots> \<le> pow2 1024" using pow2_mono [of 53 1024] by (simp add: pow2_def)
  finally have "\<bar>of_int n :: rat\<bar> < pow2 1024" .
  then have "is64 (Fin (of_int n))" using r by (simp only: is64.simps)
  then show ?thesis by (simp only: f_of_int_def f64_id)
qed

lemma flt_le_refl: "v \<noteq> NaN \<Longrightarrow> flt_le v v"
  by (cases v) simp_all

lemma flt_le_trans: "flt_le a b \<Longrightarrow> flt_le b c \<Longrightarrow> flt_le a c"
  by (cases a; cases b; cases c) simp_all

lemma flt_less_le: "flt_less a b \<Longrightarrow> flt_le a b"
  by (cases a; cases b) simp_all

lemma flt_less_le_trans: "flt_less a b \<Longrightarrow> flt_le b c \<Longrightarrow> flt_less a c"
  by (cases a; cases b; cases c) simp_all

lemma flt_le_less_trans: "flt_le a b \<Longrightarrow> flt_less b c \<Longrightarrow> flt_less a c"
  by (cases a; cases b; cases c) simp_all

lemma not_flt_le: "a \<noteq> NaN \<Longrightarrow> b \<noteq> NaN \<Longrightarrow> \<not> flt_le a b \<longleftrightarrow> flt_less b a"
  by (cases a; cases b) auto

text \<open>Debiting a non-negative amount never raises a balance.\<close>

lemma fsub_le:
  assumes "is64 b" and "b \<noteq> NaN" and "flt_le f0 c"
  shows "flt_le (fsub b c) b \<or> fsub b c = NaN"
proof (cases "\<exists>x y. b = Fin x \<and> c = Fin y")
  case True
  then obtain x y where v: "b = Fin x" "c = Fin y" by auto
  then have "flt_le (f64 (x - y)) (f64 x)" using assms by (intro f64_mono) simp
  then show ?thesis using assms v by (simp add: fsub_def f64_id)
next
  case False
  then show ?thesis using assms by (cases b; cases c) (auto simp: fsub_def)
qed

lemma fadd_nonneg: "flt_le f0 a \<Longrightarrow> flt_le f0 b \<Longrightarrow> flt_le f0 (fadd a b)"
  by (cases a; cases b) (auto intro: f64_nonneg)

lemma fmul_nonneg: "flt_le f0 a \<Longrightarrow> flt_le f0 b \<Longrightarrow> fmul a b = NaN \<or> flt_le f0 (fmul a b)"
  by (cases a; cases b) (auto simp: signed_inf_def intro: f64_nonneg)

lemma fdiv_nonneg: "flt_le f0 a \<Longrightarrow> flt_less f0 b \<Longrightarrow> fdiv a b = NaN \<or> flt_le f0 (fdiv a b)"
  by (cases a; cases b) (auto simp: signed_inf_def intro: f64_nonneg)

text \<open>Evaluation at integers below \<open>2 ^ 53\<close>, and at any value whose leading bit is known.\<close>

lemma f64_of_int: "\<bar>n\<bar> < 2 ^ 53 \<Longrightarrow> f64 (of_int n) = Fin (of_int n)"
  using f_of_int_exact [of n] by (simp add: f_of_int_def)

lemma f64_one [simp]: "f64 1 = Fin 1"
  using f64_of_int [of 1] by simp

lemma f64_numeral [simp]: "(numeral n :: int) < 2 ^ 53 \<Longrightarrow> f64 (numeral n) = Fin (numeral n)"
  using f64_of_int [of "numeral n"] by simp

lemma f64_neg_numeral [simp]:
  "(numeral n :: int) < 2 ^ 53 \<Longrightarrow> f64 (- numeral n) = Fin (- numeral n)"
  using f64_neg [of "numeral n"] by simp

lemma f64_is64: "f64 x = Fin x \<Longrightarrow> is64 (Fin x)"
  using is64_f64 [of x] by simp

lemma is64_one [simp]: "is64 (Fin 1)"
  by (rule f64_is64) simp

lemma is64_numeral: "(numeral n :: int) < 2 ^ 53 \<Longrightarrow> is64 (Fin (numeral n))"
  by (rule f64_is64) simp

lemma rnd_eval:
  assumes "pow2 k \<le> \<bar>x\<bar>" and "\<bar>x\<bar> < pow2 (k + 1)" and "e = max (k - (p - 1)) emin"
  shows "rnd p emin x = of_int (rne (x / pow2 e)) * pow2 e"
proof -
  have "x \<noteq> 0" using assms(1) pow2_pos [of k] by auto
  moreover have "ilog2 \<bar>x\<bar> = k" using assms(1,2) by (rule ilog2_unique)
  ultimately show ?thesis using assms(3) by (simp add: rnd_def qexp_def Let_def)
qed

lemma rnd_abs: "rnd p emin \<bar>x\<bar> = \<bar>rnd p emin x\<bar>"
proof (cases "0 \<le> x")
  case True
  then show ?thesis using rnd_nonneg [of x p emin] by simp
next
  case False
  then show ?thesis using rnd_nonneg [of "- x" p emin] by simp
qed

lemma f64_finite: "\<bar>x\<bar> \<le> pow2 1023 \<Longrightarrow> f64 x = Fin (rnd 53 (- 1074) x)"
proof -
  assume x: "\<bar>x\<bar> \<le> pow2 1023"
  have "rnd 53 (- 1074) \<bar>x\<bar> \<le> rnd 53 (- 1074) (pow2 1023)" using x by (rule r64.mono)
  then have "\<bar>rnd 53 (- 1074) x\<bar> \<le> pow2 1023" by (simp add: rnd_abs)
  also have "pow2 1023 < pow2 1024" by simp
  finally have "\<bar>rnd 53 (- 1074) x\<bar> < pow2 1024" .
  then show ?thesis by (cases x rule: f64_cases) auto
qed

end
