(* ===== verification/GoStd.thy ===== *)
theory GoStd
  imports Float64 "HOL-Library.Word" "HOL-Library.Sublist"
begin

text \<open>
  The part of the Go language and of its standard library the platform uses: 64-bit integers
  with wrap-around and truncating division, byte strings with the \<open>strings\<close>, \<open>strconv\<close> and
  \<open>encoding/hex\<close> functions called under \<open>src/\<close>, and \<open>time.Duration\<close>.  A Go string is a
  list of bytes, as is Isabelle's \<open>string\<close>.
\<close>

section \<open>Integers\<close>

text \<open>Two's complement wrap-around of \<open>int\<close> and \<open>int64\<close>, and Go's division towards zero.\<close>

definition wrap64 :: "int \<Rightarrow> int" where
  "wrap64 x = (x + 2 ^ 63) mod 2 ^ 64 - 2 ^ 63"

definition tdiv :: "int \<Rightarrow> int \<Rightarrow> int" where
  "tdiv a b = sgn a * sgn b * (\<bar>a\<bar> div \<bar>b\<bar>)"

definition tmod :: "int \<Rightarrow> int \<Rightarrow> int" where
  "tmod a b = a - b * tdiv a b"

definition in_int64 :: "int \<Rightarrow> bool" where
  "in_int64 x \<longleftrightarrow> - (2 ^ 63) \<le> x \<and> x < 2 ^ 63"

lemma wrap64_id: "in_int64 x \<Longrightarrow> wrap64 x = x"
  by (simp add: in_int64_def wrap64_def)

lemma in_int64_wrap64 [simp]: "in_int64 (wrap64 x)"
proof -
  define m where "m = (x + 2 ^ 63) mod 2 ^ 64"
  have "0 \<le> m" "m < 2 ^ 64" unfolding m_def by simp_all
  then show ?thesis by (simp add: in_int64_def wrap64_def m_def [symmetric])
qed

lemma tdiv_nonneg: "0 \<le> a \<Longrightarrow> 0 < b \<Longrightarrow> tdiv a b = a div b"
  by (cases "a = 0") (simp_all add: tdiv_def)

lemma tmod_nonneg: "0 \<le> a \<Longrightarrow> 0 < b \<Longrightarrow> tmod a b = a mod b"
  by (simp add: tmod_def tdiv_nonneg minus_mult_div_eq_mod)

section \<open>Prefixes, cuts and byte search\<close>

definition has_prefix :: "string \<Rightarrow> string \<Rightarrow> bool" where
  "has_prefix s p \<longleftrightarrow> take (length p) s = p"

definition trim_prefix :: "string \<Rightarrow> string \<Rightarrow> string" where
  "trim_prefix s p = (if has_prefix s p then drop (length p) s else s)"

fun index_byte :: "string \<Rightarrow> char \<Rightarrow> nat option" where
  "index_byte [] c = None"
| "index_byte (x # xs) c = (if x = c then Some 0 else map_option Suc (index_byte xs c))"

definition contains :: "string \<Rightarrow> string \<Rightarrow> bool" where
  "contains s p \<longleftrightarrow> (\<exists>k \<in> set [0 ..< Suc (length s)]. has_prefix (drop k s) p)"

lemma has_prefix_append [simp]: "has_prefix (p @ s) p"
  by (simp add: has_prefix_def)

lemma has_prefixE: "has_prefix s p \<Longrightarrow> (\<And>t. s = p @ t \<Longrightarrow> Q) \<Longrightarrow> Q"
  by (metis append_take_drop_id has_prefix_def)

lemma has_prefix_iff: "has_prefix s p \<longleftrightarrow> (\<exists>t. s = p @ t)"
  by (auto elim: has_prefixE)

lemma trim_prefix_append [simp]: "trim_prefix (p @ s) p = s"
  by (simp add: trim_prefix_def)

lemma index_byte_None [simp]: "index_byte xs c = None \<longleftrightarrow> c \<notin> set xs"
  by (induction xs) auto

lemma index_byte_Some:
  "index_byte xs c = Some i \<Longrightarrow> i < length xs \<and> xs ! i = c \<and> c \<notin> set (take i xs)"
  by (induction xs arbitrary: i) (auto split: if_splits)

lemma take_index_byte: "index_byte xs c = Some i \<Longrightarrow> take i xs = takeWhile (\<lambda>x. x \<noteq> c) xs"
  by (induction xs arbitrary: i) (auto split: if_splits)

section \<open>Trimming white space\<close>

text \<open>
  The UTF-8 encodings of the code points \<open>unicode.IsSpace\<close> accepts; \<open>strip\<close> removes them
  from the front as long as one matches, \<open>trim_space\<close> (\<open>strings.TrimSpace\<close>) from both ends.
\<close>

definition space_seqs :: "string list" where
  "space_seqs =
     [[CHR 0x09], [CHR 0x0A], [CHR 0x0B], [CHR 0x0C], [CHR 0x0D], [CHR 0x20],
      [CHR 0xC2, CHR 0x85], [CHR 0xC2, CHR 0xA0], [CHR 0xE1, CHR 0x9A, CHR 0x80],
      [CHR 0xE2, CHR 0x80, CHR 0x80], [CHR 0xE2, CHR 0x80, CHR 0x81],
      [CHR 0xE2, CHR 0x80, CHR 0x82], [CHR 0xE2, CHR 0x80, CHR 0x83],
      [CHR 0xE2, CHR 0x80, CHR 0x84], [CHR 0xE2, CHR 0x80, CHR 0x85],
      [CHR 0xE2, CHR 0x80, CHR 0x86], [CHR 0xE2, CHR 0x80, CHR 0x87],
      [CHR 0xE2, CHR 0x80, CHR 0x88], [CHR 0xE2, CHR 0x80, CHR 0x89],
      [CHR 0xE2, CHR 0x80, CHR 0x8A], [CHR 0xE2, CHR 0x80, CHR 0xA8],
      [CHR 0xE2, CHR 0x80, CHR 0xA9], [CHR 0xE2, CHR 0x80, CHR 0xAF],
      [CHR 0xE2, CHR 0x81, CHR 0x9F], [CHR 0xE3, CHR 0x80, CHR 0x80]]"

function strip :: "string list \<Rightarrow> string \<Rightarrow> string" where
  "strip ps s =
     (case find (\<lambda>p. p \<noteq> [] \<and> has_prefix s p) ps of
        None \<Rightarrow> s
      | Some p \<Rightarrow> strip ps (drop (length p) s))"
  by pat_completeness auto
termination
  by (relation "measure (\<lambda>(ps, s). length s)") (auto simp: find_Some_iff has_prefix_iff)

declare strip.simps [simp del]

definition trim_space :: "string \<Rightarrow> string" where
  "trim_space s = rev (strip (map rev space_seqs) (rev (strip space_seqs s)))"

lemma strip_suffix: "suffix (strip ps s) s"
proof (induction ps s rule: strip.induct)
  case (1 ps s)
  show ?case
  proof (cases "find (\<lambda>p. p \<noteq> [] \<and> has_prefix s p) ps")
    case None
    then show ?thesis by (simp add: strip.simps)
  next
    case (Some p)
    then have "suffix (strip ps (drop (length p) s)) (drop (length p) s)" by (rule 1)
    then show ?thesis
      using Some by (simp add: strip.simps [of ps s]) (metis suffix_drop suffix_order.trans)
  qed
qed

lemma strip_done: "p \<in> set ps \<Longrightarrow> p \<noteq> [] \<Longrightarrow> \<not> has_prefix (strip ps s) p"
proof (induction ps s rule: strip.induct)
  case (1 ps s)
  show ?case
  proof (cases "find (\<lambda>p. p \<noteq> [] \<and> has_prefix s p) ps")
    case None
    then have "strip ps s = s" by (simp add: strip.simps [of ps s])
    then show ?thesis using None "1.prems" by (auto simp: find_None_iff)
  next
    case (Some q)
    then show ?thesis using 1 by (simp add: strip.simps [of ps s])
  qed
qed

lemma strip_id: "(\<And>p. p \<in> set ps \<Longrightarrow> p \<noteq> [] \<Longrightarrow> \<not> has_prefix s p) \<Longrightarrow> strip ps s = s"
proof -
  assume "\<And>p. p \<in> set ps \<Longrightarrow> p \<noteq> [] \<Longrightarrow> \<not> has_prefix s p"
  then have "find (\<lambda>p. p \<noteq> [] \<and> has_prefix s p) ps = None" by (auto simp: find_None_iff)
  then show ?thesis by (simp add: strip.simps)
qed

lemma trim_space_infix: "\<exists>a b. s = a @ trim_space s @ b"
proof -
  let ?l = "strip space_seqs s"
  obtain a where a: "s = a @ ?l" using strip_suffix [of space_seqs s] by (auto simp: suffix_def)
  obtain b where "rev ?l = b @ strip (map rev space_seqs) (rev ?l)"
    using strip_suffix [of "map rev space_seqs" "rev ?l"] by (auto simp: suffix_def)
  then have "?l = trim_space s @ rev b"
    unfolding trim_space_def by (metis rev_append rev_rev_ident)
  then show ?thesis using a by metis
qed

lemma has_prefix_take: "has_prefix (take n s) p \<Longrightarrow> has_prefix s p"
  unfolding has_prefix_iff by (metis append.assoc append_take_drop_id)

text \<open>No white space is left at either end, so trimming twice is trimming once.\<close>

lemma trim_space_left:
  assumes "p \<in> set space_seqs" and "p \<noteq> []"
  shows "\<not> has_prefix (trim_space s) p"
proof
  let ?l = "strip space_seqs s"
  assume h: "has_prefix (trim_space s) p"
  obtain b where "rev ?l = b @ strip (map rev space_seqs) (rev ?l)"
    using strip_suffix [of "map rev space_seqs" "rev ?l"] by (auto simp: suffix_def)
  then have "?l = trim_space s @ rev b"
    unfolding trim_space_def by (metis rev_append rev_rev_ident)
  with h have "has_prefix ?l p" by (metis append.assoc has_prefix_iff)
  then show False using strip_done assms by blast
qed

lemma trim_space_right:
  assumes "p \<in> set space_seqs" and "p \<noteq> []"
  shows "\<not> has_prefix (rev (trim_space s)) (rev p)"
  using strip_done [of "rev p" "map rev space_seqs"] assms by (simp add: trim_space_def)

lemma trim_space_idem [simp]: "trim_space (trim_space s) = trim_space s"
proof -
  have "strip space_seqs (trim_space s) = trim_space s"
    by (rule strip_id) (rule trim_space_left)
  moreover have "strip (map rev space_seqs) (rev (trim_space s)) = rev (trim_space s)"
    by (rule strip_id) (use trim_space_right in auto)
  ultimately show ?thesis by (simp add: trim_space_def)
qed

text \<open>Text of visible ASCII characters has nothing to trim.\<close>

definition graphic :: "char \<Rightarrow> bool" where
  "graphic c \<longleftrightarrow> 33 \<le> (of_char c :: nat) \<and> (of_char c :: nat) \<le> 126"

lemma space_not_graphic: "p \<in> set space_seqs \<Longrightarrow> c \<in> set p \<Longrightarrow> \<not> graphic c"
  by (auto simp: space_seqs_def graphic_def)

lemma trim_space_graphic:
  assumes "list_all graphic s"
  shows "trim_space s = s"
proof -
  have n: "\<not> has_prefix t p" if "list_all graphic t" "p \<noteq> []" "\<forall>c \<in> set p. \<not> graphic c" for t p
    using that by (cases p) (auto simp: has_prefix_iff)
  have "strip space_seqs s = s"
    by (rule strip_id) (use n [OF assms] space_not_graphic in blast)
  moreover have "strip (map rev space_seqs) (rev s) = rev s"
  proof (rule strip_id)
    fix p
    assume "p \<in> set (map rev space_seqs)" and "p \<noteq> []"
    then show "\<not> has_prefix (rev s) p"
      using n [of "rev s" p] assms space_not_graphic by auto
  qed
  ultimately show ?thesis by (simp add: trim_space_def)
qed

section \<open>Decimal and hexadecimal text\<close>

definition digit_char :: "int \<Rightarrow> char" where
  "digit_char d = char_of (48 + d)"

function nat_str :: "int \<Rightarrow> string" where
  "nat_str n = (if n < 10 then [digit_char n] else nat_str (n div 10) @ [digit_char (n mod 10)])"
  by pat_completeness auto
termination
  by (relation "measure nat") auto

declare nat_str.simps [simp del]

text \<open>\<open>strconv.Itoa\<close>, also \<open>%d\<close> and \<open>%s\<close> of a number in \<open>fmt.Sprintf\<close>.\<close>

definition itoa :: "int \<Rightarrow> string" where
  "itoa n = (if n < 0 then CHR ''-'' # nat_str (- n) else nat_str n)"

definition is_digit :: "char \<Rightarrow> bool" where
  "is_digit c \<longleftrightarrow> 48 \<le> (of_char c :: int) \<and> (of_char c :: int) \<le> 57"

definition digit_val :: "char \<Rightarrow> int" where
  "digit_val c = of_char c - 48"

definition digits_val :: "string \<Rightarrow> int" where
  "digits_val s = foldl (\<lambda>a c. 10 * a + digit_val c) 0 s"

text \<open>
  \<open>strconv.Atoi\<close>: an optional sign, at least one decimal digit and nothing else; \<open>None\<close> for
  a syntax error and for a value out of the 64-bit range.
\<close>

definition atoi :: "string \<Rightarrow> int option" where
  "atoi s =
     (let (neg, ds) =
        (case s of
           [] \<Rightarrow> (False, [])
         | c # cs \<Rightarrow> if c = CHR ''-'' then (True, cs) else if c = CHR ''+'' then (False, cs) else (False, s));
        v = (if neg then - digits_val ds else digits_val ds)
      in if ds \<noteq> [] \<and> list_all is_digit ds \<and> in_int64 v then Some v else None)"

lemma digit_char_props:
  "0 \<le> d \<Longrightarrow> d < 10 \<Longrightarrow> is_digit (digit_char d) \<and> digit_val (digit_char d) = d"
  by (simp add: is_digit_def digit_val_def digit_char_def)

lemma nat_str_not_Nil [simp]: "nat_str n \<noteq> []"
  by (subst nat_str.simps) simp

lemma nat_str_digits: "0 \<le> n \<Longrightarrow> list_all is_digit (nat_str n)"
proof (induction n rule: nat_str.induct)
  case (1 n)
  then show ?case by (subst nat_str.simps) (auto simp: digit_char_props)
qed

lemma digits_val_snoc [simp]: "digits_val (s @ [c]) = 10 * digits_val s + digit_val c"
  by (simp add: digits_val_def)

lemma digits_val_nat_str [simp]: "0 \<le> n \<Longrightarrow> digits_val (nat_str n) = n"
proof (induction n rule: nat_str.induct)
  case (1 n)
  show ?case
  proof (cases "n < 10")
    case True
    then show ?thesis
      using 1 digit_char_props [of n] by (subst nat_str.simps) (simp add: digits_val_def)
  next
    case False
    then show ?thesis
      using 1 digit_char_props [of "n mod 10"] by (subst nat_str.simps) simp
  qed
qed

lemma nat_str_inject: "0 \<le> m \<Longrightarrow> 0 \<le> n \<Longrightarrow> nat_str m = nat_str n \<longleftrightarrow> m = n"
  by (metis digits_val_nat_str)

lemma digit_not_sign: "is_digit c \<Longrightarrow> c \<noteq> CHR ''-'' \<and> c \<noteq> CHR ''+'' \<and> c \<noteq> CHR '':''"
  by (auto simp: is_digit_def)

lemma nat_str_hd: "0 \<le> n \<Longrightarrow> is_digit (hd (nat_str n))"
  using nat_str_digits [of n] nat_str_not_Nil [of n] by (cases "nat_str n") auto

lemma colon_notin_nat_str [simp]: "0 \<le> n \<Longrightarrow> CHR '':'' \<notin> set (nat_str n)"
  using nat_str_digits [of n] digit_not_sign by (auto simp: list_all_iff)

lemma colon_notin_itoa [simp]: "CHR '':'' \<notin> set (itoa n)"
  by (simp add: itoa_def)

lemma minus_notin_nat_str [simp]: "0 \<le> n \<Longrightarrow> CHR ''-'' \<notin> set (nat_str n)"
  using nat_str_digits [of n] digit_not_sign by (auto simp: list_all_iff)

lemma itoa_inject [simp]: "itoa m = itoa n \<longleftrightarrow> m = n"
proof
  assume e: "itoa m = itoa n"
  have neq: "0 \<le> k \<Longrightarrow> CHR ''-'' # xs \<noteq> nat_str k" for xs k
    using minus_notin_nat_str [of k] by (metis list.set_intros(1))
  have neq': "0 \<le> k \<Longrightarrow> nat_str k \<noteq> CHR ''-'' # xs" for xs k
    using neq by metis
  show "m = n"
    using e neq neq' by (auto simp: itoa_def nat_str_inject split: if_splits)
qed simp

lemma atoi_itoa:
  assumes "in_int64 n"
  shows "atoi (itoa n) = Some n"
proof (cases "n < 0")
  case True
  then show ?thesis using assms by (simp add: atoi_def itoa_def nat_str_digits)
next
  case False
  obtain c cs where c: "nat_str n = c # cs" using nat_str_not_Nil list.exhaust by blast
  then have "is_digit c" using nat_str_hd [of n] False by simp
  then show ?thesis
    using assms False c digit_not_sign [of c] nat_str_digits [of n] digits_val_nat_str [of n]
    by (simp add: atoi_def itoa_def)
qed

text \<open>Two cuts at a separator that the tails do not contain agree.\<close>

lemma last_sep_inject:
  "xs @ c # ys = us @ c # vs \<Longrightarrow> c \<notin> set ys \<Longrightarrow> c \<notin> set vs \<Longrightarrow> xs = us \<and> ys = vs"
proof -
  assume e: "xs @ c # ys = us @ c # vs" and n: "c \<notin> set ys" "c \<notin> set vs"
  have "rev ys @ c # rev xs = rev vs @ c # rev us"
    using arg_cong [OF e, of rev] by simp
  then have "takeWhile (\<lambda>x. x \<noteq> c) (rev ys @ c # rev xs) = takeWhile (\<lambda>x. x \<noteq> c) (rev vs @ c # rev us)"
    by simp
  then have "ys = vs" using n by (subst (asm) (1 2) takeWhile_append_stop) auto
  with e show ?thesis by simp
qed

type_synonym byte = "8 word"

definition hex_digit :: "nat \<Rightarrow> char" where
  "hex_digit d = (if d < 10 then char_of (48 + d) else char_of (87 + d))"

definition hex_encode :: "byte list \<Rightarrow> string" where
  "hex_encode bs = concat (map (\<lambda>b. [hex_digit (unat b div 16), hex_digit (unat b mod 16)]) bs)"

lemma length_hex_encode [simp]: "length (hex_encode bs) = 2 * length bs"
  by (induction bs) (simp_all add: hex_encode_def)

lemma hex_digit_range:
  assumes "d < 16"
  shows "graphic (hex_digit d)" and "hex_digit d \<noteq> CHR ''s''" and "hex_digit d \<noteq> CHR ''-''"
proof -
  have c: "(of_char (hex_digit d) :: nat) = (if d < 10 then 48 + d else 87 + d)"
    using assms by (simp add: hex_digit_def)
  show "graphic (hex_digit d)" using assms by (simp add: graphic_def c)
  have "(of_char (hex_digit d) :: nat) \<noteq> 115" "(of_char (hex_digit d) :: nat) \<noteq> 45"
    using assms by (simp_all add: c)
  then show "hex_digit d \<noteq> CHR ''s''" and "hex_digit d \<noteq> CHR ''-''" by auto
qed

lemma nibble_less: "unat (b :: byte) div 16 < 16"
proof -
  have "unat b < 2 ^ 8" using unsigned_less [of b] by simp
  then show ?thesis by (simp add: less_mult_imp_div_less)
qed

lemma hex_encode_chars:
  assumes "c \<in> set (hex_encode bs)"
  shows "graphic c" and "c \<noteq> CHR ''s''" and "c \<noteq> CHR ''-''"
proof -
  from assms obtain b :: byte where b: "c = hex_digit (unat b div 16) \<or> c = hex_digit (unat b mod 16)"
    by (auto simp: hex_encode_def)
  obtain d where "d < 16" "c = hex_digit d"
    using b
  proof
    show "c = hex_digit (unat b div 16) \<Longrightarrow> thesis" using that nibble_less by blast
    show "c = hex_digit (unat b mod 16) \<Longrightarrow> thesis" using that [of "unat b mod 16"] by simp
  qed
  then show "graphic c" and "c \<noteq> CHR ''s''" and "c \<noteq> CHR ''-''"
    by (simp_all only: hex_digit_range simp_thms)
qed

lemma hex_digit_inject: "c < 16 \<Longrightarrow> d < 16 \<Longrightarrow> hex_digit c = hex_digit d \<longleftrightarrow> c = d"
proof
  assume lt: "c < 16" "d < 16" and "hex_digit c = hex_digit d"
  then have "(of_char (hex_digit c) :: nat) = of_char (hex_digit d)" by simp
  then show "c = d" using lt by (simp add: hex_digit_def split: if_splits)
qed simp

lemma hex_encode_inject: "hex_encode xs = hex_encode ys \<longleftrightarrow> xs = ys"
proof
  show "hex_encode xs = hex_encode ys \<Longrightarrow> xs = ys"
  proof (induction xs arbitrary: ys)
    case Nil
    then show ?case by (cases ys) (simp_all add: hex_encode_def)
  next
    case (Cons x xs)
    then obtain y ys' where ys: "ys = y # ys'" by (cases ys) (simp_all add: hex_encode_def)
    have "unat x < 256" "unat y < 256" using unsigned_less [of x] unsigned_less [of y] by simp_all
    moreover have "hex_digit (unat x div 16) = hex_digit (unat y div 16)"
      "hex_digit (unat x mod 16) = hex_digit (unat y mod 16)" "hex_encode xs = hex_encode ys'"
      using Cons.prems by (simp_all add: ys hex_encode_def)
    ultimately have "unat x div 16 = unat y div 16" "unat x mod 16 = unat y mod 16" "xs = ys'"
      using Cons.IH by (simp_all add: hex_digit_inject less_mult_imp_div_less)
    then show ?case using ys by (metis div_mult_mod_eq word_unat_eq_iff)
  qed
qed simp

section \<open>UTF-8\<close>

text \<open>
  \<open>utf8.ValidString\<close>: \<open>utf8_len s\<close> is the length of the encoded code point \<open>s\<close> starts with, 0 when it
  starts with none; \<open>follow\<close> checks the bytes after the first against their ranges.
\<close>

definition follow :: "(nat \<times> nat) list \<Rightarrow> string \<Rightarrow> bool" where
  "follow rs cs \<longleftrightarrow> length rs \<le> length cs \<and>
     list_all (\<lambda>((lo, hi), c). lo \<le> of_char c \<and> of_char c \<le> hi) (zip rs cs)"

definition utf8_len :: "string \<Rightarrow> nat" where
  "utf8_len s =
     (case s of
        [] \<Rightarrow> 0
      | c # cs \<Rightarrow>
          let n = (of_char c :: nat); any = (128, 191)
          in if n < 128 then 1
             else if 194 \<le> n \<and> n \<le> 223 then (if follow [any] cs then 2 else 0)
             else if 224 \<le> n \<and> n \<le> 239 then
               (if follow [(if n = 224 then 160 else 128, if n = 237 then 159 else 191), any] cs then 3 else 0)
             else if 240 \<le> n \<and> n \<le> 244 then
               (if follow [(if n = 240 then 144 else 128, if n = 244 then 143 else 191), any, any] cs then 4 else 0)
             else 0)"

function valid_utf8 :: "string \<Rightarrow> bool" where
  "valid_utf8 s =
     (if s = [] then True else if utf8_len s = 0 then False else valid_utf8 (drop (utf8_len s) s))"
  by pat_completeness auto
termination
  by (relation "measure length") auto

declare valid_utf8.simps [simp del]

definition is_ascii :: "char \<Rightarrow> bool" where
  "is_ascii c \<longleftrightarrow> (of_char c :: nat) < 128"

lemma valid_utf8_ascii: "list_all is_ascii s \<Longrightarrow> valid_utf8 s"
proof (induction s)
  case Nil
  show ?case by (subst valid_utf8.simps) simp
next
  case (Cons c s)
  then have "utf8_len (c # s) = 1" by (simp add: utf8_len_def is_ascii_def Let_def)
  then show ?case using Cons by (subst valid_utf8.simps) simp
qed

lemma is_digit_ascii: "is_digit c \<Longrightarrow> is_ascii c"
proof -
  assume "is_digit c"
  then have "(of_char c :: int) < 128" by (simp add: is_digit_def)
  moreover have "(of_char c :: int) = int (of_char c)" by (simp add: of_nat_of_char)
  ultimately show ?thesis by (simp add: is_ascii_def)
qed

lemma valid_utf8_itoa [simp]: "valid_utf8 (itoa n)"
proof -
  have "list_all is_ascii (nat_str m)" if "0 \<le> m" for m
    using nat_str_digits [OF that] by (auto simp: list_all_iff is_digit_ascii)
  then show ?thesis by (intro valid_utf8_ascii) (simp add: itoa_def is_ascii_def)
qed

section \<open>Durations and instants\<close>

text \<open>
  A \<open>time.Duration\<close> and an instant are counts of nanoseconds (the instant since the Unix
  epoch).  \<open>int(f)\<close> truncates towards zero; for a value no \<open>int\<close> holds the result is the one
  of the amd64 compiler.
\<close>

type_synonym duration = int
type_synonym instant = int

definition second :: duration where
  "second = 1000000000"

definition millisecond :: duration where
  "millisecond = 1000000"

definition dur_seconds :: "duration \<Rightarrow> float64" where
  "dur_seconds d = fadd (f_of_int (tdiv d second)) (fdiv (f_of_int (tmod d second)) (Fin 1000000000))"

definition dur_millis :: "duration \<Rightarrow> int" where
  "dur_millis d = tdiv d millisecond"

fun int_of_f64 :: "float64 \<Rightarrow> int" where
  "int_of_f64 (Fin x) =
     (let n = (if 0 \<le> x then \<lfloor>x\<rfloor> else \<lceil>x\<rceil>) in if in_int64 n then n else - (2 ^ 63))"
| "int_of_f64 _ = - (2 ^ 63)"

definition unix_seconds :: "instant \<Rightarrow> int" where
  "unix_seconds t = t div second"

definition second_of_minute :: "instant \<Rightarrow> int" where
  "second_of_minute t = unix_seconds t mod 60"

lemma second_of_minute_bounds: "0 \<le> second_of_minute t" "second_of_minute t < 60"
  by (simp_all add: second_of_minute_def)

lemma dur_seconds_whole:
  assumes "0 \<le> n" and "n < 2 ^ 53"
  shows "dur_seconds (n * second) = Fin (of_int n)"
proof -
  have "tdiv (n * second) second = n" "tmod (n * second) second = 0"
    using assms by (simp_all add: tdiv_nonneg tmod_nonneg second_def)
  moreover have "f_of_int n = Fin (of_int n)" using assms by (intro f_of_int_exact) simp
  moreover have "f64 (of_int n) = Fin (of_int n)" using assms by (intro f64_of_int) simp
  ultimately show ?thesis by (simp add: dur_seconds_def f_of_int_exact)
qed

end
