(* ===== verification/Audio.thy ===== *)
theory Audio
  imports GoStd
begin

text \<open>
  \<open>api/internal/audio/wav.go\<close>: the WAV container the asynchronous job stores.  The header is
  written at fixed offsets into a 44-byte buffer, its size fields are 32-bit words that wrap.
  The reader \<open>parse_wav\<close> follows the RIFF layout and is the specification the writer is
  checked against.
\<close>

section \<open>Little-endian fields\<close>

definition bytes_of :: "string \<Rightarrow> byte list" where
  "bytes_of s = map of_char s"

definition le16 :: "16 word \<Rightarrow> byte list" where
  "le16 v = [ucast v, ucast (drop_bit 8 v)]"

definition le32 :: "32 word \<Rightarrow> byte list" where
  "le32 v = [ucast v, ucast (drop_bit 8 v), ucast (drop_bit 16 v), ucast (drop_bit 24 v)]"

fun rd_le :: "byte list \<Rightarrow> nat" where
  "rd_le [] = 0"
| "rd_le (b # bs) = unat b + 256 * rd_le bs"

lemma length_le [simp]: "length (le16 v) = 2" "length (le32 w) = 4"
  by (simp_all add: le16_def le32_def)

lemma length_bytes_of [simp]: "length (bytes_of s) = length s"
  by (simp add: bytes_of_def)

lemma unat_drop_bit: "unat (drop_bit n (v :: 'a::len word)) = unat v div 2 ^ n"
  by (simp add: unsigned_drop_bit_eq take_bit_nat_eq_self flip: drop_bit_eq_div)

lemma unat_byte: "unat (ucast (drop_bit n (v :: 'a::len word)) :: byte) = unat v div 2 ^ n mod 256"
proof -
  have "unat (ucast (drop_bit n v) :: byte) = take_bit 8 (unat (drop_bit n v))"
    by (simp only: unsigned_ucast_eq len_num0 len_num1 len_bit0 len_bit1) simp
  then show ?thesis by (simp add: take_bit_eq_mod unat_drop_bit)
qed

lemma unat_low_byte: "unat (ucast (v :: 'a::len word) :: byte) = unat v mod 256"
  using unat_byte [of 0 v] by simp

lemma bytes_sum2: "n < 65536 \<Longrightarrow> n mod 256 + 256 * (n div 256 mod 256) = (n :: nat)"
  using mult_div_mod_eq [of 256 n] by simp

lemma bytes_sum4:
  "n mod 256 + 256 * (n div 256 mod 256 +
      256 * (n div 65536 mod 256 + 256 * (n div 16777216))) = (n :: nat)"
proof -
  define a b c where "a = n div 256" and "b = a div 256" and "c = b div 256"
  have d: "n div 65536 = b" "n div 16777216 = c"
    by (simp_all add: a_def b_def c_def div_mult2_eq [symmetric])
  have "n = 256 * a + n mod 256" "a = 256 * b + a mod 256" "b = 256 * c + b mod 256"
    by (simp_all add: a_def b_def c_def)
  then show ?thesis
    unfolding d a_def [symmetric] by (simp add: algebra_simps)
qed

lemma rd_le16 [simp]: "rd_le (le16 v) = unat v"
proof -
  have "unat v < 65536" using unsigned_less [of v] by simp
  from bytes_sum2 [OF this] show ?thesis by (simp add: le16_def unat_drop_bit unat_low_byte)
qed

lemma rd_le32 [simp]: "rd_le (le32 v) = unat v"
proof -
  have "unat v < 4294967296" using unsigned_less [of v] by simp
  with bytes_sum4 [of "unat v"] show ?thesis by (simp add: le32_def unat_drop_bit unat_low_byte)
qed

section \<open>The writer\<close>

definition SampleRate :: int where
  "SampleRate = 24000"

text \<open>\<open>copy(dst[off:], src)\<close> for a source that fits.\<close>

definition copy_at :: "nat \<Rightarrow> byte list \<Rightarrow> byte list \<Rightarrow> byte list" where
  "copy_at off src dst = take off dst @ src @ drop (off + length src) dst"

definition WrapWAV :: "byte list \<Rightarrow> int \<Rightarrow> byte list" where
  "WrapWAV pcm rate =
     (let sampleRate = (if rate \<le> 0 then SampleRate else rate);
          dataSize = (of_nat (length pcm) :: 32 word);
          fileSize = 36 + dataSize;
          hdr = replicate 44 (0 :: byte);
          hdr = copy_at 0 (bytes_of ''RIFF'') hdr;
          hdr = copy_at 4 (le32 fileSize) hdr;
          hdr = copy_at 8 (bytes_of ''WAVE'') hdr;
          hdr = copy_at 12 (bytes_of ''fmt '') hdr;
          hdr = copy_at 16 (le32 16) hdr;
          hdr = copy_at 20 (le16 1) hdr;
          hdr = copy_at 22 (le16 1) hdr;
          hdr = copy_at 24 (le32 (of_int sampleRate)) hdr;
          byteRate = (of_int (wrap64 (sampleRate * 2)) :: 32 word);
          hdr = copy_at 28 (le32 byteRate) hdr;
          hdr = copy_at 32 (le16 2) hdr;
          hdr = copy_at 34 (le16 16) hdr;
          hdr = copy_at 36 (bytes_of ''data'') hdr;
          hdr = copy_at 40 (le32 dataSize) hdr;
          out = replicate (44 + length pcm) (0 :: byte);
          out = copy_at 0 hdr out
      in copy_at 44 pcm out)"

section \<open>The reader\<close>

record wav =
  wav_format :: nat
  wav_channels :: nat
  wav_rate :: nat
  wav_byte_rate :: nat
  wav_align :: nat
  wav_bits :: nat
  wav_data :: "byte list"

definition field :: "nat \<Rightarrow> nat \<Rightarrow> byte list \<Rightarrow> byte list" where
  "field off len bs = take len (drop off bs)"

definition parse_wav :: "byte list \<Rightarrow> wav option" where
  "parse_wav bs =
     (if length bs < 44 \<or> field 0 4 bs \<noteq> bytes_of ''RIFF'' \<or> field 8 4 bs \<noteq> bytes_of ''WAVE''
         \<or> field 12 4 bs \<noteq> bytes_of ''fmt '' \<or> rd_le (field 16 4 bs) \<noteq> 16
         \<or> field 36 4 bs \<noteq> bytes_of ''data''
         \<or> rd_le (field 4 4 bs) \<noteq> 36 + rd_le (field 40 4 bs)
         \<or> length bs < 44 + rd_le (field 40 4 bs)
      then None
      else Some \<lparr>wav_format = rd_le (field 20 2 bs), wav_channels = rd_le (field 22 2 bs),
                 wav_rate = rd_le (field 24 4 bs), wav_byte_rate = rd_le (field 28 4 bs),
                 wav_align = rd_le (field 32 2 bs), wav_bits = rd_le (field 34 2 bs),
                 wav_data = field 44 (rd_le (field 40 4 bs)) bs\<rparr>)"

section \<open>The file as a concatenation of its fields\<close>

definition wav_header :: "32 word \<Rightarrow> 32 word \<Rightarrow> 32 word \<Rightarrow> byte list" where
  "wav_header n rate brate =
     bytes_of ''RIFF'' @ le32 (36 + n) @ bytes_of ''WAVE'' @ bytes_of ''fmt '' @ le32 16 @
     le16 1 @ le16 1 @ le32 rate @ le32 brate @ le16 2 @ le16 16 @ bytes_of ''data'' @ le32 n"

lemma length_wav_header [simp]: "length (wav_header s r b) = 44"
  by (simp add: wav_header_def)

lemma of_int_wrap64: "(of_int (wrap64 x) :: 32 word) = of_int x"
proof -
  have "wrap64 x = x - 2 ^ 64 * ((x + 2 ^ 63) div 2 ^ 64)"
    by (simp add: wrap64_def minus_mult_div_eq_mod [symmetric])
  then have "(of_int (wrap64 x) :: 32 word) = of_int x - 2 ^ 64 * of_int ((x + 2 ^ 63) div 2 ^ 64)"
    by (simp only: of_int_diff of_int_mult of_int_power of_int_numeral)
  moreover have "(2 ^ 64 :: 32 word) = 0" by simp
  ultimately show ?thesis by (simp only: mult_zero_left diff_zero)
qed

lemma WrapWAV_eq:
  "WrapWAV pcm rate =
     (let r = (if rate \<le> 0 then SampleRate else rate)
      in wav_header (of_nat (length pcm)) (of_int r) (of_int (r * 2)) @ pcm)"
  unfolding WrapWAV_def Let_def
  by (simp add: copy_at_def of_int_wrap64 wav_header_def)

section \<open>What the file holds\<close>

lemma length_WrapWAV [simp]: "length (WrapWAV pcm rate) = 44 + length pcm"
  by (simp add: WrapWAV_eq Let_def)

lemma parse_wav_header:
  assumes "unat (36 + n) = 36 + unat n" and "unat n \<le> length pcm"
  shows "parse_wav (wav_header n r b @ pcm) =
    Some \<lparr>wav_format = 1, wav_channels = 1, wav_rate = unat r, wav_byte_rate = unat b,
          wav_align = 2, wav_bits = 16, wav_data = take (unat n) pcm\<rparr>"
  using assms by (simp add: parse_wav_def field_def wav_header_def)

lemma unat_size: "n < 2 ^ 32 - 36 \<Longrightarrow> unat (of_nat n :: 32 word) = n \<and> unat (36 + of_nat n :: 32 word) = 36 + n"
proof -
  assume n: "n < 2 ^ 32 - 36"
  have "(36 + of_nat n :: 32 word) = of_nat (36 + n)" by simp
  then have "unat (36 + of_nat n :: 32 word) = unat (of_nat (36 + n) :: 32 word)" by simp
  also have "\<dots> = 36 + n" using n by (simp only: unat_of_nat) simp
  finally show ?thesis using n by (simp add: unat_of_nat)
qed

text \<open>
  C35: a player that follows the RIFF layout reads back from the stored file exactly the PCM that
  was synthesised, as 16-bit mono at the given rate (24000 for a rate that is not positive), for
  any audio the 32-bit size fields can describe.
\<close>

theorem wav_roundtrip:
  assumes "length pcm < 2 ^ 32 - 36" and "rate < 2 ^ 31"
  shows "parse_wav (WrapWAV pcm rate) =
    (let r = (if rate \<le> 0 then SampleRate else rate)
     in Some \<lparr>wav_format = 1, wav_channels = 1, wav_rate = nat r, wav_byte_rate = 2 * nat r,
              wav_align = 2, wav_bits = 16, wav_data = pcm\<rparr>)"
proof -
  let ?r = "if rate \<le> 0 then SampleRate else rate"
  have r: "0 \<le> ?r" "?r < 2 ^ 31" using assms(2) by (simp_all add: SampleRate_def)
  have u: "unat (of_int k :: 32 word) = nat k" if "0 \<le> k" "k < 2 ^ 32" for k :: int
    using that by (simp add: unat_eq_nat_uint uint_word_of_int_eq take_bit_int_eq_self)
  have "unat (of_int ?r :: 32 word) = nat ?r" using r by (intro u) simp_all
  moreover have "unat (of_int (?r * 2) :: 32 word) = 2 * nat ?r"
    using r by (subst u) simp_all
  ultimately show ?thesis
    using unat_size [OF assms(1)] unfolding WrapWAV_eq Let_def
    by (subst parse_wav_header) (simp_all del: of_int_mult)
qed

lemma wav_roundtrip_witness:
  "parse_wav (WrapWAV [1, 2, 3, 255] 16000) =
     Some \<lparr>wav_format = 1, wav_channels = 1, wav_rate = 16000, wav_byte_rate = 32000,
           wav_align = 2, wav_bits = 16, wav_data = [1, 2, 3, 255]\<rparr>"
  using wav_roundtrip [of "[1, 2, 3, 255]" 16000] by simp

text \<open>
  C36: the two size fields are the true sizes modulo 2 to the 32; from 4 GiB of PCM on the file no
  longer describes its own contents, and no reader of the layout gets the PCM back.
\<close>

theorem wav_oversize_lost:
  assumes "2 ^ 32 \<le> length pcm"
  shows "rd_le (field 40 4 (WrapWAV pcm rate)) = length pcm mod 2 ^ 32 \<and>
    (\<forall>w. parse_wav (WrapWAV pcm rate) = Some w \<longrightarrow> wav_data w \<noteq> pcm)"
proof -
  have f: "field 40 4 (WrapWAV pcm rate) = le32 (of_nat (length pcm))"
    by (simp add: WrapWAV_eq Let_def field_def wav_header_def)
  have d: "rd_le (field 40 4 (WrapWAV pcm rate)) = length pcm mod 2 ^ 32"
    unfolding f by (simp add: unat_of_nat)
  have "length pcm mod 2 ^ 32 < 2 ^ 32" by simp
  then have "length (field 44 (length pcm mod 2 ^ 32) (WrapWAV pcm rate)) < length pcm"
    using assms by (simp only: field_def length_take)
  then show ?thesis
    unfolding parse_wav_def d by (auto split: if_splits)
qed

lemma wav_oversize_lost_witness:
  "parse_wav (WrapWAV (replicate (2 ^ 32) 7) 24000) \<noteq>
     Some \<lparr>wav_format = 1, wav_channels = 1, wav_rate = 24000, wav_byte_rate = 48000,
           wav_align = 2, wav_bits = 16, wav_data = replicate (2 ^ 32) 7\<rparr>"
  using wav_oversize_lost [of "replicate (2 ^ 32) 7" 24000] by force

end
