(* ===== verification/Json.thy ===== *)
theory Json
  imports GoStd
begin

text \<open>
  \<open>encoding/json\<close> as the platform uses it.  Documents are syntax trees (the text layer, that is
  tokens, escapes and white space, is not modelled): an integer literal and a literal with a
  fraction or an exponent are told apart, because Go decodes only the former into an \<open>int\<close>.
  A byte string that is not JSON is the \<open>None\<close> of \<open>json option\<close>.  Decoding follows Go: keys match
  field names up to case folding, later keys overwrite earlier ones, unknown keys are skipped,
  \<open>null\<close> leaves a field as it is, and one value of the wrong type makes the call fail.
\<close>

datatype json =
    JNull
  | JBool bool
  | JInt int
  | JDec rat
  | JStr string
  | JArr "json list"
  | JObj "(string \<times> json) list"

type_synonym doc = "json option"

section \<open>Field names\<close>

text \<open>
  \<open>foldName\<close>: ASCII letters to upper case; the two non-ASCII code points that fold to a letter
  are U+017F (long s) and U+212A (Kelvin sign).
\<close>

definition upper :: "char \<Rightarrow> char" where
  "upper c = (if 97 \<le> (of_char c :: nat) \<and> (of_char c :: nat) \<le> 122 then char_of ((of_char c :: nat) - 32) else c)"

fun fold_name :: "string \<Rightarrow> string" where
  "fold_name [] = []"
| "fold_name (c # s) =
     (if has_prefix (c # s) [CHR 0xC5, CHR 0xBF] then CHR ''S'' # fold_name (drop 1 s)
      else if has_prefix (c # s) [CHR 0xE2, CHR 0x84, CHR 0xAA] then CHR ''K'' # fold_name (drop 2 s)
      else upper c # fold_name s)"

definition key_is :: "string \<Rightarrow> string \<Rightarrow> bool" where
  "key_is name k \<longleftrightarrow> fold_name k = fold_name name"

lemma key_is_refl [simp]: "key_is n n"
  by (simp add: key_is_def)

section \<open>Numbers\<close>

definition p10 :: "int \<Rightarrow> rat" where
  "p10 e = (if 0 \<le> e then 10 ^ nat e else 1 / 10 ^ nat (- e))"

definition ndigits :: "int \<Rightarrow> int" where
  "ndigits n = int (length (nat_str n))"

definition ilog10 :: "rat \<Rightarrow> int" where
  "ilog10 x =
     (let (p, q) = quotient_of x; e = ndigits p - ndigits q in if p10 e \<le> x then e else e - 1)"

definition round_digits :: "nat \<Rightarrow> rat \<Rightarrow> rat" where
  "round_digits n x =
     (if x = 0 then 0
      else let u = p10 (ilog10 \<bar>x\<bar> - (int n - 1)) in of_int (rne (x / u)) * u)"

text \<open>
  The decimal \<open>strconv\<close> prints for a finite value: the one with the fewest significant digits
  (at most 17) that reads back as the same value; \<open>conv\<close> is the reading of the format.
\<close>

definition shortest :: "(rat \<Rightarrow> flt) \<Rightarrow> rat \<Rightarrow> rat" where
  "shortest conv x =
     (case find (\<lambda>y. conv y = Fin x) (map (\<lambda>n. round_digits n x) [1 ..< 18]) of
        Some y \<Rightarrow> y
      | None \<Rightarrow> x)"

definition enc_number :: "(rat \<Rightarrow> flt) \<Rightarrow> rat \<Rightarrow> json" where
  "enc_number conv x =
     (let y = shortest conv x
      in if y = of_int \<lfloor>y\<rfloor> \<and> \<bar>x\<bar> < 10 ^ 21 then JInt \<lfloor>y\<rfloor> else JDec y)"

text \<open>\<open>json.Marshal\<close> of a float fails on NaN and the infinities.\<close>

fun enc_f64 :: "float64 \<Rightarrow> json option" where
  "enc_f64 (Fin x) = Some (enc_number f64 x)"
| "enc_f64 _ = None"

fun enc_f32 :: "float32 \<Rightarrow> json option" where
  "enc_f32 (Fin x) = Some (enc_number f32 x)"
| "enc_f32 _ = None"

fun finite_f64 :: "float64 \<Rightarrow> float64 option" where
  "finite_f64 (Fin x) = Some (Fin x)"
| "finite_f64 _ = None"

section \<open>Decoding into fields\<close>

text \<open>Each decoder takes the field's present value and the document's.\<close>

fun dec_f64 :: "float64 \<Rightarrow> json \<Rightarrow> float64 option" where
  "dec_f64 cur JNull = Some cur"
| "dec_f64 cur (JInt n) = finite_f64 (f64 (of_int n))"
| "dec_f64 cur (JDec x) = finite_f64 (f64 x)"
| "dec_f64 cur _ = None"

fun dec_int :: "int \<Rightarrow> json \<Rightarrow> int option" where
  "dec_int cur JNull = Some cur"
| "dec_int cur (JInt n) = (if in_int64 n then Some n else None)"
| "dec_int cur _ = None"

fun dec_string :: "string \<Rightarrow> json \<Rightarrow> string option" where
  "dec_string cur JNull = Some cur"
| "dec_string cur (JStr s) = Some s"
| "dec_string cur _ = None"

fun dec_string_ptr :: "string option \<Rightarrow> json \<Rightarrow> string option option" where
  "dec_string_ptr cur JNull = Some None"
| "dec_string_ptr cur (JStr s) = Some (Some s)"
| "dec_string_ptr cur _ = None"

fun dec_bool :: "bool \<Rightarrow> json \<Rightarrow> bool option" where
  "dec_bool cur JNull = Some cur"
| "dec_bool cur (JBool b) = Some b"
| "dec_bool cur _ = None"

text \<open>
  A struct is decoded key by key; \<open>step\<close> updates the struct for one key, \<open>None\<close> on a type
  error.  A top-level \<open>null\<close> is accepted and changes nothing.
\<close>

fun dec_fields :: "('a \<Rightarrow> string \<Rightarrow> json \<Rightarrow> 'a option) \<Rightarrow> 'a \<Rightarrow> (string \<times> json) list \<Rightarrow> 'a option" where
  "dec_fields step s [] = Some s"
| "dec_fields step s ((k, v) # kvs) =
     (case step s k v of None \<Rightarrow> None | Some s' \<Rightarrow> dec_fields step s' kvs)"

fun dec_struct :: "('a \<Rightarrow> string \<Rightarrow> json \<Rightarrow> 'a option) \<Rightarrow> 'a \<Rightarrow> json \<Rightarrow> 'a option" where
  "dec_struct step s JNull = Some s"
| "dec_struct step s (JObj kvs) = dec_fields step s kvs"
| "dec_struct step s _ = None"

definition unmarshal :: "('a \<Rightarrow> string \<Rightarrow> json \<Rightarrow> 'a option) \<Rightarrow> 'a \<Rightarrow> doc \<Rightarrow> 'a option" where
  "unmarshal step s d = (case d of None \<Rightarrow> None | Some j \<Rightarrow> dec_struct step s j)"

lemma unmarshal_simps [simp]:
  "unmarshal step s None = None"
  "unmarshal step s (Some j) = dec_struct step s j"
  by (simp_all add: unmarshal_def)

section \<open>Reading back what was written\<close>

lemma shortest_reads_back: "conv x = Fin x \<Longrightarrow> conv (shortest conv x) = Fin x"
  by (auto simp: shortest_def find_Some_iff split: option.splits)

lemma dec_enc_number:
  assumes "is64 (Fin x)"
  shows "dec_f64 cur (enc_number f64 x) = Some (Fin x)"
proof -
  have "f64 x = Fin x" using assms by (rule f64_id)
  then have y: "f64 (shortest f64 x) = Fin x" by (rule shortest_reads_back)
  show ?thesis
  proof (cases "shortest f64 x = of_int \<lfloor>shortest f64 x\<rfloor> \<and> \<bar>x\<bar> < 10 ^ 21")
    case True
    then have "f64 (of_int \<lfloor>shortest f64 x\<rfloor>) = Fin x" using y by metis
    then show ?thesis using True by (simp add: enc_number_def Let_def)
  next
    case False
    then show ?thesis using y by (simp add: enc_number_def Let_def)
  qed
qed

lemma dec_enc_f64:
  "is64 v \<Longrightarrow> enc_f64 v = Some j \<Longrightarrow> dec_f64 cur j = Some v"
  by (cases v) (auto simp: dec_enc_number simp del: is64.simps)

lemma enc_f64_finite: "enc_f64 v = None \<longleftrightarrow> (\<forall>x. v \<noteq> Fin x)"
  by (cases v) simp_all

lemma dec_f64_is64: "is64 cur \<Longrightarrow> dec_f64 cur j = Some v \<Longrightarrow> is64 v"
proof -
  have f: "finite_f64 (f64 x) = Some v \<Longrightarrow> is64 v" for x
    by (cases "f64 x") (use is64_f64 [of x] in auto)
  show "is64 cur \<Longrightarrow> dec_f64 cur j = Some v \<Longrightarrow> is64 v"
    by (cases j) (auto dest: f simp del: is64.simps)
qed

lemma dec_fields_append:
  "dec_fields step s (xs @ ys) =
     (case dec_fields step s xs of None \<Rightarrow> None | Some s' \<Rightarrow> dec_fields step s' ys)"
  by (induction step s xs rule: dec_fields.induct) (auto split: option.splits)

end
