(* ===== verification/World.thy ===== *)
theory World
  imports Json
begin

text \<open>
  The surroundings of the platform's processes.  The tables are those of
  \<open>api/internal/db/migrations\<close>; the SQL statements of the Go code are translated, next to the
  code that issues them, as functions on them, and \<open>pg\<close> runs one, letting the connection fail
  before or after the statement took effect.  Valkey, groupcache, \<open>google/uuid\<close>, bcrypt and the
  conversions of the drivers are not under \<open>src/\<close>: they are the fields of \<open>env\<close>, a parameter of
  every definition that uses them, with their documented behaviour as the named hypothesis
  \<open>vk_lawful\<close>.  What the program reads from the outside (clock, fresh identifiers, random bytes,
  outcomes of fallible calls) are streams of the world, and what it does to the outside is
  appended to \<open>w_out\<close>.
\<close>

type_synonym uuid = string

section \<open>Tables\<close>

record user_row =
  u_id :: uuid
  u_username :: string
  u_password_hash :: string
  u_price :: "rat option"

record api_key_row =
  k_id :: uuid
  k_user :: uuid
  k_prefix :: string
  k_hash :: string
  k_revoked_at :: "instant option"
  k_created_at :: instant

record usage_row =
  ue_id :: uuid
  ue_user :: uuid
  ue_key :: string
  ue_request :: string
  ue_transport :: string
  ue_seconds :: rat
  ue_cost :: rat
  ue_occurred :: instant

record txn_row =
  tx_user :: uuid
  tx_amount :: rat
  tx_reference :: string

datatype job_status = Pending | Running | Completed | Failed

record job_row =
  j_user :: uuid
  j_status :: job_status
  j_input :: string
  j_voice :: string
  j_audio :: "byte list option"
  j_error :: "string option"

record limits_row =
  rl_rpm :: int
  rl_rph :: int
  rl_rpd :: int

text \<open>Tables with a primary key that the code only reads by that key are maps.\<close>

record db =
  users :: "user_row list"
  wallets :: "uuid \<rightharpoonup> rat"
  txns :: "txn_row list"
  api_keys :: "api_key_row list"
  usage_events :: "usage_row list"
  tts_jobs :: "uuid \<rightharpoonup> job_row"
  user_rate_limits :: "uuid \<rightharpoonup> limits_row"

definition empty_db :: db where
  "empty_db = \<lparr>users = [], wallets = Map.empty, txns = [], api_keys = [], usage_events = [],
     tts_jobs = Map.empty, user_rate_limits = Map.empty\<rparr>"

definition has_user :: "db \<Rightarrow> uuid \<Rightarrow> bool" where
  "has_user d uid \<longleftrightarrow> (\<exists>u \<in> set (users d). u_id u = uid)"

text \<open>
  Values Postgres refuses whatever the column: a text with a zero byte, and a \<open>bytea\<close> of a gigabyte (with
  its header of four bytes).
\<close>

definition pg_text :: "string \<Rightarrow> bool" where
  "pg_text s \<longleftrightarrow> CHR 0x00 \<notin> set s"

definition pg_bytea :: "byte list \<Rightarrow> bool" where
  "pg_bytea b \<longleftrightarrow> length b + 4 < 2 ^ 30"

section \<open>Errors\<close>

text \<open>
  \<open>NoRows\<close> is \<open>pgx.ErrNoRows\<close>; \<open>Constraint\<close> a violated constraint, an out of range value or a
  bad cast; \<open>ConnFailed\<close> any failure of the connection.
\<close>

datatype pg_error = NoRows | Constraint | ConnFailed

datatype ctx_error = Canceled | DeadlineExceeded

text \<open>The error values that cross function boundaries of the program.\<close>

datatype error =
    PgError pg_error
  | VkError
  | CtxError ctx_error
  | JsonError
  | RpcError string
  | WriteError
  | PubError
  | RandError
  | HashError
  | Msg string

section \<open>Third-party code as parameters\<close>

datatype get_reply = Hit doc | Nil_reply | Get_failed

record 'v env =
  vk_get :: "string \<Rightarrow> 'v \<Rightarrow> get_reply \<times> 'v"
  vk_set :: "string \<Rightarrow> doc \<Rightarrow> duration \<Rightarrow> 'v \<Rightarrow> bool \<times> 'v"
  vk_del :: "string \<Rightarrow> 'v \<Rightarrow> bool \<times> 'v"
  vk_pipe :: "(string \<times> duration) list \<Rightarrow> 'v \<Rightarrow> (bool \<times> int option list) \<times> 'v"
  l1_get :: "string \<Rightarrow> 'v \<Rightarrow> doc option \<times> 'v"
  l1_put :: "string \<Rightarrow> doc \<Rightarrow> instant \<Rightarrow> 'v \<Rightarrow> bool \<times> 'v"
  l1_del :: "string \<Rightarrow> 'v \<Rightarrow> bool \<times> 'v"
  uuid_parse :: "string \<Rightarrow> uuid option"
  pg_uuid :: "string \<Rightarrow> uuid option"
  bcrypt_gen :: "string \<Rightarrow> byte list \<Rightarrow> string option"
  bcrypt_ok :: "string \<Rightarrow> string \<Rightarrow> bool"
  sha256 :: "string \<Rightarrow> byte list"
  num_param :: "float64 \<Rightarrow> rat option"
  num_fit :: "nat \<Rightarrow> nat \<Rightarrow> rat \<Rightarrow> rat option"
  num_scan :: "rat \<Rightarrow> float64"
  time_text :: "instant \<Rightarrow> string option"
  text_time :: "string \<Rightarrow> instant option"
  err_text :: "error \<Rightarrow> string"

text \<open>
  What the code relies on of Valkey, for a view of the visible keys and of the counters, whose keys
  start with \<open>rl:\<close>: a GET answers the visible value, nil for a key that is not visible, or an
  error; a SET or DEL that reports success took effect, and what it does to its own key, counter or
  not, it does to no other; apart from that a key may only vanish (expire).  A pipeline of INCR
  and EXPIRE on counters that reports success answers, for every key, one more than the counter
  held; one that fails may have run in part; the other keys it leaves alone.  Counters are not
  decreased but by a SET or DEL: each is named after the window it counts and lives for two such
  windows after its last use, so its expiry is never seen by a request of that window.
\<close>

definition fades :: "('k \<rightharpoonup> 'd) \<Rightarrow> ('k \<rightharpoonup> 'd) \<Rightarrow> bool" where
  "fades f g \<longleftrightarrow> (\<forall>k. g k = None \<or> g k = f k)"

definition counter_key :: "string \<Rightarrow> bool" where
  "counter_key k \<longleftrightarrow> take 3 k = ''rl:''"

text \<open>Writing or deleting \<open>k\<close> leaves the counters of all other keys as they are.\<close>

definition other_counters :: "string \<Rightarrow> (string \<Rightarrow> int) \<Rightarrow> (string \<Rightarrow> int) \<Rightarrow> bool" where
  "other_counters k c c' \<longleftrightarrow> (\<forall>k'. k' \<noteq> k \<or> \<not> counter_key k \<longrightarrow> c' k' = c k')"

definition vk_lawful ::
  "'v env \<Rightarrow> ('v \<Rightarrow> string \<rightharpoonup> doc) \<Rightarrow> ('v \<Rightarrow> string \<Rightarrow> int) \<Rightarrow> bool" where
  "vk_lawful E view cnt \<longleftrightarrow>
     (\<forall>k s. let (r, s') = vk_get E k s in
        fades (view s) (view s') \<and> cnt s' = cnt s \<and>
        (\<forall>d. r = Hit d \<longrightarrow> view s' k = Some d) \<and> (r = Nil_reply \<longrightarrow> view s' k = None)) \<and>
     (\<forall>k d ttl s. let (ok, s') = vk_set E k d ttl s in
        other_counters k (cnt s) (cnt s') \<and>
        (if ok then view s' k = Some d \<and> fades ((view s)(k \<mapsto> d)) (view s')
         else fades ((view s)(k \<mapsto> d)) (view s') \<or> fades (view s) (view s'))) \<and>
     (\<forall>k s. let (ok, s') = vk_del E k s in
        fades (view s) (view s') \<and> other_counters k (cnt s) (cnt s') \<and> (ok \<longrightarrow> view s' k = None)) \<and>
     (\<forall>ks s. (\<forall>k \<in> fst ` set ks. counter_key k) \<longrightarrow>
        (let ((ok, rs), s') = vk_pipe E ks s in
        (\<forall>k. \<not> counter_key k \<longrightarrow> view s' k = None \<or> view s' k = view s k) \<and> (\<forall>k. cnt s k \<le> cnt s' k) \<and>
        (ok \<longrightarrow> distinct (map fst ks) \<longrightarrow>
           rs = map (\<lambda>p. Some (cnt s (fst p) + 1)) ks \<and>
           cnt s' = (\<lambda>k. if k \<in> fst ` set ks then cnt s k + 1 else cnt s k))))"

lemma other_counters_eq: "other_counters k c c' \<Longrightarrow> \<not> counter_key k \<Longrightarrow> c' = c"
  by (auto simp: other_counters_def)

lemma other_counters_refl [simp]: "other_counters k c c"
  by (simp add: other_counters_def)

lemma fades_refl [simp]: "fades f f"
  by (simp add: fades_def)

lemma fades_trans: "fades f g \<Longrightarrow> fades g h \<Longrightarrow> fades f h"
  unfolding fades_def by metis

lemma fadesD: "fades f g \<Longrightarrow> g k = Some d \<Longrightarrow> f k = Some d"
  unfolding fades_def by (metis option.distinct(1))

lemma fades_None: "fades f g \<Longrightarrow> f k = None \<Longrightarrow> g k = None"
  unfolding fades_def by metis

lemma vk_getD:
  assumes "vk_lawful E view cnt" and "vk_get E k s = (r, s')"
  shows "fades (view s) (view s')" and "cnt s' = cnt s"
    and "r = Hit d \<Longrightarrow> view s' k = Some d" and "r = Nil_reply \<Longrightarrow> view s' k = None"
    and "r = Hit d \<Longrightarrow> view s k = Some d"
proof -
  have "let (r, s') = vk_get E k s in fades (view s) (view s') \<and> cnt s' = cnt s \<and>
      (\<forall>d. r = Hit d \<longrightarrow> view s' k = Some d) \<and> (r = Nil_reply \<longrightarrow> view s' k = None)"
    using assms(1) unfolding vk_lawful_def by blast
  then show "fades (view s) (view s')" and "cnt s' = cnt s"
    and "r = Hit d \<Longrightarrow> view s' k = Some d" and "r = Nil_reply \<Longrightarrow> view s' k = None"
    and "r = Hit d \<Longrightarrow> view s k = Some d"
    using assms(2) by (auto dest: fadesD)
qed

lemma vk_setD:
  assumes "vk_lawful E view cnt" and "vk_set E k d ttl s = (ok, s')"
  shows "\<not> counter_key k \<Longrightarrow> cnt s' = cnt s" and "ok \<Longrightarrow> view s' k = Some d"
    and "fades ((view s)(k \<mapsto> d)) (view s') \<or> fades (view s) (view s')"
proof -
  have "let (ok, s') = vk_set E k d ttl s in other_counters k (cnt s) (cnt s') \<and>
      (if ok then view s' k = Some d \<and> fades ((view s)(k \<mapsto> d)) (view s')
       else fades ((view s)(k \<mapsto> d)) (view s') \<or> fades (view s) (view s'))"
    using assms(1) unfolding vk_lawful_def by blast
  then show "\<not> counter_key k \<Longrightarrow> cnt s' = cnt s" and "ok \<Longrightarrow> view s' k = Some d"
    and "fades ((view s)(k \<mapsto> d)) (view s') \<or> fades (view s) (view s')"
    using assms(2) by (auto intro: other_counters_eq split: if_splits)
qed

lemma vk_delD:
  assumes "vk_lawful E view cnt" and "vk_del E k s = (ok, s')"
  shows "fades (view s) (view s')" and "\<not> counter_key k \<Longrightarrow> cnt s' = cnt s" and "ok \<Longrightarrow> view s' k = None"
proof -
  have "let (ok, s') = vk_del E k s in
      fades (view s) (view s') \<and> other_counters k (cnt s) (cnt s') \<and> (ok \<longrightarrow> view s' k = None)"
    using assms(1) unfolding vk_lawful_def by blast
  then show "fades (view s) (view s')" and "\<not> counter_key k \<Longrightarrow> cnt s' = cnt s" and "ok \<Longrightarrow> view s' k = None"
    using assms(2) by (auto intro: other_counters_eq)
qed

lemma vk_pipe_mono:
  assumes "vk_lawful E view cnt" and "vk_pipe E ks s = (r, s')" and "\<forall>k \<in> fst ` set ks. counter_key k"
  shows "cnt s k \<le> cnt s' k" and "\<not> counter_key k' \<Longrightarrow> view s' k' = None \<or> view s' k' = view s k'"
proof -
  have "let ((ok, rs), s') = vk_pipe E ks s in
        (\<forall>k. \<not> counter_key k \<longrightarrow> view s' k = None \<or> view s' k = view s k) \<and> (\<forall>k. cnt s k \<le> cnt s' k) \<and>
        (ok \<longrightarrow> distinct (map fst ks) \<longrightarrow>
           rs = map (\<lambda>p. Some (cnt s (fst p) + 1)) ks \<and>
           cnt s' = (\<lambda>k. if k \<in> fst ` set ks then cnt s k + 1 else cnt s k))"
    using assms(1,3) unfolding vk_lawful_def by blast
  then show "cnt s k \<le> cnt s' k" and "\<not> counter_key k' \<Longrightarrow> view s' k' = None \<or> view s' k' = view s k'"
    using assms(2) by (auto split: prod.splits)
qed

lemma vk_pipeD:
  assumes "vk_lawful E view cnt" and "vk_pipe E ks s = ((True, rs), s')" and "distinct (map fst ks)"
    and "\<forall>k \<in> fst ` set ks. counter_key k"
  shows "rs = map (\<lambda>p. Some (cnt s (fst p) + 1)) ks"
    and "cnt s' = (\<lambda>k. if k \<in> fst ` set ks then cnt s k + 1 else cnt s k)"
proof -
  have "let ((ok, rs), s') = vk_pipe E ks s in
        (\<forall>k. \<not> counter_key k \<longrightarrow> view s' k = None \<or> view s' k = view s k) \<and> (\<forall>k. cnt s k \<le> cnt s' k) \<and>
        (ok \<longrightarrow> distinct (map fst ks) \<longrightarrow>
           rs = map (\<lambda>p. Some (cnt s (fst p) + 1)) ks \<and>
           cnt s' = (\<lambda>k. if k \<in> fst ` set ks then cnt s k + 1 else cnt s k))"
    using assms(1,4) unfolding vk_lawful_def by blast
  then show "rs = map (\<lambda>p. Some (cnt s (fst p) + 1)) ks"
    and "cnt s' = (\<lambda>k. if k \<in> fst ` set ks then cnt s k + 1 else cnt s k)"
    using assms(2,3) by simp_all
qed

text \<open>\<open>err.Error()\<close>: the program's own messages; the texts of third-party errors are a parameter.\<close>

fun Error :: "'v env \<Rightarrow> error \<Rightarrow> string" where
  "Error E (Msg m) = m"
| "Error E err = err_text E err"

section \<open>The world\<close>

datatype effect =
    Published string json bool
  | Observed string "string list" float64
  | Gauge_inc
  | Gauge_dec
  | Wallet_gauge uuid float64
  | L2_miss
  | Slot_taken
  | Slot_released
  | Body_chunk "byte list" bool
  | Flushed
  | Ws_json json
  | Ws_binary "byte list" bool
  | Ws_close int string
  | Rpc_synth string string string
  | Rpc_text string string string bool bool
  | Rpc_close_send
  | Go_async uuid uuid string string float64 float64

record 'v world =
  w_db :: db
  w_ext :: 'v
  w_orc :: "nat \<Rightarrow> nat"
  w_clk :: "nat \<Rightarrow> instant"
  w_ids :: "nat \<Rightarrow> uuid"
  w_rand :: "nat \<Rightarrow> byte list"
  w_out :: "effect list"

type_synonym ('v, 'a) io = "('v world, 'a) state"

definition now :: "('v, instant) io" where
  "now = act (\<lambda>s. (w_clk s 0, s\<lparr>w_clk := (\<lambda>n. w_clk s (Suc n))\<rparr>))"

definition draw :: "('v, nat) io" where
  "draw = act (\<lambda>s. (w_orc s 0, s\<lparr>w_orc := (\<lambda>n. w_orc s (Suc n))\<rparr>))"

definition new_uuid :: "('v, uuid) io" where
  "new_uuid = act (\<lambda>s. (w_ids s 0, s\<lparr>w_ids := (\<lambda>n. w_ids s (Suc n))\<rparr>))"

definition rand_bytes :: "nat \<Rightarrow> ('v, byte list) io" where
  "rand_bytes k = act (\<lambda>s. (take k (w_rand s 0 @ replicate k 0), s\<lparr>w_rand := (\<lambda>n. w_rand s (Suc n))\<rparr>))"

definition emit :: "effect \<Rightarrow> ('v, unit) io" where
  "emit e = modify (\<lambda>s. s\<lparr>w_out := w_out s @ [e]\<rparr>)"

text \<open>\<open>since t\<close> is \<open>time.Since(t)\<close>.\<close>

definition since :: "instant \<Rightarrow> ('v, duration) io" where
  "since t = do { n \<leftarrow> now; ret (n - t) }"

definition ext :: "('v \<Rightarrow> 'a \<times> 'v) \<Rightarrow> ('v, 'a) io" where
  "ext f = act (\<lambda>s. (fst (f (w_ext s)), s\<lparr>w_ext := snd (f (w_ext s))\<rparr>))"

text \<open>
  One SQL statement.  The drawn outcome is 0 for a working connection, 1 for one that failed
  before the statement ran, anything else for one that failed after it.
\<close>

definition pg :: "(db \<Rightarrow> (pg_error + 'a) \<times> db) \<Rightarrow> ('v, pg_error + 'a) io" where
  "pg f = do {
     n \<leftarrow> draw;
     if n = 1 then ret (Inl ConnFailed)
     else do {
       r \<leftarrow> act (\<lambda>s. (fst (f (w_db s)), s\<lparr>w_db := snd (f (w_db s))\<rparr>));
       ret (if n = 0 then r else Inl ConnFailed)
     }
   }"

section \<open>Executing the primitives\<close>

lemma result_now [run_simps, simp]: "result now s = w_clk s 0"
  by (simp add: now_def)

lemma after_now [run_simps, simp]: "after now s = s\<lparr>w_clk := (\<lambda>n. w_clk s (Suc n))\<rparr>"
  by (simp add: now_def)

lemma result_since [run_simps, simp]: "result (since t) s = w_clk s 0 - t"
  by (simp add: since_def)

lemma after_since [run_simps, simp]: "after (since t) s = s\<lparr>w_clk := (\<lambda>n. w_clk s (Suc n))\<rparr>"
  by (simp add: since_def)

lemma result_draw [run_simps, simp]: "result draw s = w_orc s 0"
  by (simp add: draw_def)

lemma after_draw [run_simps, simp]: "after draw s = s\<lparr>w_orc := (\<lambda>n. w_orc s (Suc n))\<rparr>"
  by (simp add: draw_def)

lemma result_new_uuid [run_simps, simp]: "result new_uuid s = w_ids s 0"
  by (simp add: new_uuid_def)

lemma after_new_uuid [run_simps, simp]:
  "after new_uuid s = s\<lparr>w_ids := (\<lambda>n. w_ids s (Suc n))\<rparr>"
  by (simp add: new_uuid_def)

lemma length_rand_bytes [simp]: "length (result (rand_bytes k) s) = k"
  by (simp add: rand_bytes_def)

lemma rand_bytes_frame [simp]:
  "w_db (after (rand_bytes k) s) = w_db s" "w_ext (after (rand_bytes k) s) = w_ext s"
  "w_orc (after (rand_bytes k) s) = w_orc s" "w_clk (after (rand_bytes k) s) = w_clk s"
  "w_ids (after (rand_bytes k) s) = w_ids s" "w_out (after (rand_bytes k) s) = w_out s"
  by (simp_all add: rand_bytes_def)

lemma after_emit [run_simps, simp]: "after (emit e) s = s\<lparr>w_out := w_out s @ [e]\<rparr>"
  by (simp add: emit_def)

lemma result_ext [run_simps, simp]: "result (ext f) s = fst (f (w_ext s))"
  by (simp add: ext_def)

lemma after_ext [run_simps, simp]: "after (ext f) s = s\<lparr>w_ext := snd (f (w_ext s))\<rparr>"
  by (simp add: ext_def)

lemma result_pg:
  "result (pg f) s = (if w_orc s 0 = 0 then fst (f (w_db s)) else Inl ConnFailed)"
  by (simp add: pg_def)

lemma w_db_after_pg:
  "w_db (after (pg f) s) = (if w_orc s 0 = 1 then w_db s else snd (f (w_db s)))"
  by (simp add: pg_def)

lemma pg_frame [simp]:
  "w_ext (after (pg f) s) = w_ext s" "w_out (after (pg f) s) = w_out s"
  "w_clk (after (pg f) s) = w_clk s" "w_ids (after (pg f) s) = w_ids s"
  "w_rand (after (pg f) s) = w_rand s" "w_orc (after (pg f) s) = (\<lambda>n. w_orc s (Suc n))"
  by (simp_all add: pg_def)

lemma pg_readonly: "(\<And>d. snd (f d) = d) \<Longrightarrow> w_db (after (pg f) s) = w_db s"
  by (simp add: w_db_after_pg)

text \<open>Which primitives keep a predicate on the tables, and one on the recorded effects.\<close>

lemma keeps_db_prims [keeps_intros]:
  "keeps (\<lambda>s. I (w_db s)) now" "keeps (\<lambda>s. I (w_db s)) draw" "keeps (\<lambda>s. I (w_db s)) new_uuid"
  "keeps (\<lambda>s. I (w_db s)) (emit e)" "keeps (\<lambda>s. I (w_db s)) (since t)"
  "keeps (\<lambda>s. I (w_db s)) (rand_bytes k)" "keeps (\<lambda>s. I (w_db s)) (ext g)"
  by (auto intro!: keepsI simp: rand_bytes_def)

lemma keeps_db_pg [keeps_intros]:
  "(\<And>d. I d \<Longrightarrow> I (snd (f d))) \<Longrightarrow> keeps (\<lambda>s. I (w_db s)) (pg f)"
  by (auto intro!: keepsI simp: w_db_after_pg)

lemma keeps_out_prims [keeps_intros]:
  "keeps (\<lambda>s. I (w_out s)) now" "keeps (\<lambda>s. I (w_out s)) draw" "keeps (\<lambda>s. I (w_out s)) new_uuid"
  "keeps (\<lambda>s. I (w_out s)) (pg f)" "keeps (\<lambda>s. I (w_out s)) (since t)"
  "keeps (\<lambda>s. I (w_out s)) (rand_bytes k)" "keeps (\<lambda>s. I (w_out s)) (ext g)"
  by (auto intro!: keepsI simp: rand_bytes_def)

lemma keeps_ext_prims [keeps_intros]:
  "keeps (\<lambda>s. I (w_ext s)) now" "keeps (\<lambda>s. I (w_ext s)) draw" "keeps (\<lambda>s. I (w_ext s)) new_uuid"
  "keeps (\<lambda>s. I (w_ext s)) (pg f)" "keeps (\<lambda>s. I (w_ext s)) (since t)"
  "keeps (\<lambda>s. I (w_ext s)) (rand_bytes k)" "keeps (\<lambda>s. I (w_ext s)) (emit e)"
  by (auto intro!: keepsI simp: rand_bytes_def)

text \<open>
  \<open>emits P m\<close>: whatever happens, \<open>m\<close> only appends to the output, and only effects with \<open>P\<close>, and reads
  the clock in order: every later reading of the world it leaves is a reading of the one it found.
\<close>

definition appends :: "(effect \<Rightarrow> bool) \<Rightarrow> effect list \<Rightarrow> effect list \<Rightarrow> bool" where
  "appends P old out \<longleftrightarrow> (\<exists>es. out = old @ es \<and> list_all P es)"

definition clk_in :: "instant set \<Rightarrow> 'v world \<Rightarrow> bool" where
  "clk_in T s \<longleftrightarrow> (\<forall>n. w_clk s n \<in> T)"

definition grew :: "(effect \<Rightarrow> bool) \<Rightarrow> 'v world \<Rightarrow> 'v world \<Rightarrow> bool" where
  "grew P w s \<longleftrightarrow> appends P (w_out w) (w_out s) \<and> clk_in (range (w_clk w)) s"

definition emits :: "(effect \<Rightarrow> bool) \<Rightarrow> ('v, 'a) io \<Rightarrow> bool" where
  "emits P m \<longleftrightarrow> (\<forall>w. keeps (grew P w) m)"

lemma emitsI: "(\<And>w. keeps (grew P w) m) \<Longrightarrow> emits P m"
  by (simp add: emits_def)

lemma emits_keeps: "emits P m \<Longrightarrow> keeps (grew P w) m"
  by (simp add: emits_def)

lemma grew_refl [simp]: "grew P w w"
  by (simp add: grew_def appends_def clk_in_def)

lemma grewD:
  assumes "grew P w s"
  obtains es where "w_out s = w_out w @ es" and "list_all P es"
  using assms by (auto simp: grew_def appends_def)

lemma grew_trans: "grew P a b \<Longrightarrow> grew P b c \<Longrightarrow> grew P a c"
  unfolding grew_def appends_def clk_in_def by (auto simp: image_iff) metis+

lemma grew_after: "emits P m \<Longrightarrow> grew P w s \<Longrightarrow> grew P w (after m s)"
  by (rule keepsD [OF emits_keeps])

lemma emitsD:
  assumes "emits P m"
  obtains es where "w_out (after m s) = w_out s @ es" and "list_all P es"
  using grew_after [OF assms grew_refl [of P s]] by (rule grewD)

lemma clk_in_grew: "grew P w s \<Longrightarrow> clk_in T w \<Longrightarrow> clk_in T s"
  unfolding grew_def clk_in_def by (metis rangeE)

lemma emits_clk: "emits P m \<Longrightarrow> keeps (clk_in T) m"
  by (intro keepsI) (rule clk_in_grew [OF grew_after [OF _ grew_refl]])

lemma keeps_grew_prims [keeps_intros]:
  "keeps (grew P w) now" "keeps (grew P w) draw" "keeps (grew P w) new_uuid" "keeps (grew P w) (pg f)"
  "keeps (grew P w) (since t)" "keeps (grew P w) (rand_bytes k)" "keeps (grew P w) (ext g)"
  by (auto intro!: keepsI simp: grew_def clk_in_def)

lemma keeps_grew_emit [keeps_intros]: "P e \<Longrightarrow> keeps (grew P w) (emit e)"
  by (auto intro!: keepsI simp: grew_def appends_def clk_in_def)

lemma keeps_appends_emit [keeps_intros]: "P e \<Longrightarrow> keeps (\<lambda>s. appends P old (w_out s)) (emit e)"
  by (auto intro!: keepsI simp: appends_def)

lemma appends_mono: "appends P old out \<Longrightarrow> (\<And>e. P e \<Longrightarrow> Q e) \<Longrightarrow> appends Q old out"
  unfolding appends_def list_all_iff by blast

lemma emits_mono: "emits P m \<Longrightarrow> (\<And>e. P e \<Longrightarrow> Q e) \<Longrightarrow> emits Q m"
  for m :: "('v, 'a) io"
proof (rule emitsI, rule keepsI)
  fix w and s :: "'v world"
  assume m: "emits P m" and pq: "\<And>e. P e \<Longrightarrow> Q e" and w: "grew Q w s"
  from grew_after [OF m grew_refl [of P s]] have "grew Q s (after m s)"
    unfolding grew_def using appends_mono pq by blast
  then show "grew Q w (after m s)" by (rule grew_trans [OF w])
qed

text \<open>The clock only advances along its readings: whatever holds of all of them is kept.\<close>

abbreviation clk_within :: "instant \<Rightarrow> instant \<Rightarrow> 'v world \<Rightarrow> bool" where
  "clk_within lo hi \<equiv> clk_in {lo ..< hi}"

lemma clk_within_def: "clk_within lo hi s \<longleftrightarrow> (\<forall>n. lo \<le> w_clk s n \<and> w_clk s n < hi)"
  by (auto simp: clk_in_def)

lemma clk_inD: "clk_in T s \<Longrightarrow> w_clk s n \<in> T"
  by (auto simp: clk_in_def)

lemma keeps_clk_prims [keeps_intros]:
  "keeps (clk_in T) now" "keeps (clk_in T) draw" "keeps (clk_in T) new_uuid"
  "keeps (clk_in T) (pg f)" "keeps (clk_in T) (since u)" "keeps (clk_in T) (rand_bytes k)"
  "keeps (clk_in T) (emit e)" "keeps (clk_in T) (ext g)"
  by (auto intro!: keepsI simp: clk_in_def)

text \<open>A calm world is one in which no call fails.\<close>

definition calm :: "'v world \<Rightarrow> bool" where
  "calm s \<longleftrightarrow> w_orc s = (\<lambda>_. 0)"

lemma keeps_calm_prims [keeps_intros]:
  "keeps calm now" "keeps calm draw" "keeps calm new_uuid" "keeps calm (pg f)" "keeps calm (since u)"
  "keeps calm (rand_bytes k)" "keeps calm (emit e)" "keeps calm (ext g)"
  by (auto intro!: keepsI simp: calm_def)

section \<open>An executable instance\<close>

text \<open>
  Concrete third-party code for evaluating the model: an in-memory keyspace whose calls fail
  where the stream \<open>m_down\<close> says so (expiry never strikes), and simple stand-ins for hashes,
  identifiers and conversions.
\<close>

record mem =
  m_keys :: "string \<rightharpoonup> doc"
  m_counts :: "string \<Rightarrow> int"
  m_l1 :: "string \<rightharpoonup> doc"
  m_down :: "nat \<Rightarrow> bool"

definition mem_step :: "mem \<Rightarrow> mem" where
  "mem_step m = m\<lparr>m_down := (\<lambda>n. m_down m (Suc n))\<rparr>"

fun mem_incr :: "(string \<times> duration) list \<Rightarrow> mem \<Rightarrow> int option list \<times> mem" where
  "mem_incr [] m = ([], m)"
| "mem_incr ((k, ttl) # ks) m =
     (let n = m_counts m k + 1; (rs, m') = mem_incr ks (m\<lparr>m_counts := (m_counts m)(k := n)\<rparr>)
      in (Some n # rs, m'))"

definition mem_env :: "mem env" where
  "mem_env = \<lparr>
     vk_get = (\<lambda>k m. if m_down m 0 then (Get_failed, mem_step m)
       else (case m_keys m k of None \<Rightarrow> (Nil_reply, mem_step m) | Some d \<Rightarrow> (Hit d, mem_step m))),
     vk_set = (\<lambda>k d ttl m. if m_down m 0 then (False, mem_step m)
       else (True, (mem_step m)\<lparr>m_keys := (m_keys m)(k \<mapsto> d)\<rparr>)),
     vk_del = (\<lambda>k m. if m_down m 0 then (False, mem_step m)
       else (True, (mem_step m)\<lparr>m_keys := (m_keys m)(k := None)\<rparr>)),
     vk_pipe = (\<lambda>ks m. if m_down m 0 then ((False, []), mem_step m)
       else (let (rs, m') = mem_incr ks (mem_step m) in ((True, rs), m'))),
     l1_get = (\<lambda>k m. (m_l1 m k, m)),
     l1_put = (\<lambda>k d t m. (True, m\<lparr>m_l1 := (m_l1 m)(k \<mapsto> d)\<rparr>)),
     l1_del = (\<lambda>k m. (True, m\<lparr>m_l1 := (m_l1 m)(k := None)\<rparr>)),
     uuid_parse = (\<lambda>s. if s = [] then None else Some s),
     pg_uuid = (\<lambda>s. if s = [] then None else Some s),
     bcrypt_gen = (\<lambda>p salt. if length p \<le> 72 then Some (CHR ''$'' # p) else None),
     bcrypt_ok = (\<lambda>h p. h = CHR ''$'' # p),
     sha256 = (\<lambda>s. take 32 (map of_char s @ replicate 32 0)),
     num_param = (\<lambda>v. case v of Fin x \<Rightarrow> Some x | _ \<Rightarrow> None),
     num_fit = (\<lambda>p k x. Some x),
     num_scan = f64,
     time_text = (\<lambda>t. if in_int64 t then Some (itoa t) else None),
     text_time = atoi,
     err_text = (\<lambda>_. ''failed'')\<rparr>"

lemma mem_env_simps:
  "vk_get mem_env k m =
     (if m_down m 0 then Get_failed else (case m_keys m k of None \<Rightarrow> Nil_reply | Some d \<Rightarrow> Hit d), mem_step m)"
  "vk_set mem_env k d ttl m =
     (if m_down m 0 then (False, mem_step m)
      else (True, (mem_step m)\<lparr>m_keys := (m_keys m)(k \<mapsto> d)\<rparr>))"
  "vk_del mem_env k m =
     (if m_down m 0 then (False, mem_step m)
      else (True, (mem_step m)\<lparr>m_keys := (m_keys m)(k := None)\<rparr>))"
  "l1_get mem_env k m = (m_l1 m k, m)"
  "l1_put mem_env k d t m = (True, m\<lparr>m_l1 := (m_l1 m)(k \<mapsto> d)\<rparr>)"
  "l1_del mem_env k m = (True, m\<lparr>m_l1 := (m_l1 m)(k := None)\<rparr>)"
  "uuid_parse mem_env u = (if u = [] then None else Some u)"
  "pg_uuid mem_env u = (if u = [] then None else Some u)"
  "bcrypt_gen mem_env p salt = (if length p \<le> 72 then Some (CHR ''$'' # p) else None)"
  "bcrypt_ok mem_env h p = (h = CHR ''$'' # p)"
  "sha256 mem_env u = take 32 (map of_char u @ replicate 32 0)"
  "num_param mem_env v = (case v of Fin x \<Rightarrow> Some x | _ \<Rightarrow> None)"
  "num_fit mem_env a b x = Some x" "num_scan mem_env x = f64 x"
  "time_text mem_env t = (if in_int64 t then Some (itoa t) else None)" "text_time mem_env u = atoi u"
  by (simp_all add: mem_env_def split: option.splits)

lemma mem_incr_keys [simp]: "m_keys (snd (mem_incr ks m)) = m_keys m"
  by (induction ks m rule: mem_incr.induct) (auto simp: Let_def split: prod.splits)

lemma mem_incr_other: "k \<notin> fst ` set ks \<Longrightarrow> m_counts (snd (mem_incr ks m)) k = m_counts m k"
  by (induction ks m rule: mem_incr.induct) (auto simp: Let_def split: prod.splits)

lemma mem_incr_mono: "m_counts m k \<le> m_counts (snd (mem_incr ks m)) k"
proof (induction ks m rule: mem_incr.induct)
  case (2 k' ttl ks m)
  let ?m = "m\<lparr>m_counts := (m_counts m)(k' := m_counts m k' + 1)\<rparr>"
  have "m_counts m k \<le> m_counts ?m k" by simp
  also have "\<dots> \<le> m_counts (snd (mem_incr ks ?m)) k" by (rule "2.IH") simp
  finally show ?case by (simp add: Let_def split_beta)
qed simp

lemma mem_incr_results:
  "distinct (map fst ks) \<Longrightarrow>
     fst (mem_incr ks m) = map (\<lambda>p. Some (m_counts m (fst p) + 1)) ks \<and>
     m_counts (snd (mem_incr ks m)) =
       (\<lambda>k. if k \<in> fst ` set ks then m_counts m k + 1 else m_counts m k)"
proof (induction ks m rule: mem_incr.induct)
  case (1 m)
  then show ?case by simp
next
  case (2 k ttl ks m)
  let ?m = "m\<lparr>m_counts := (m_counts m)(k := m_counts m k + 1)\<rparr>"
  have k: "k \<notin> fst ` set ks" and d: "distinct (map fst ks)" using "2.prems" by simp_all
  have ih: "fst (mem_incr ks ?m) = map (\<lambda>p. Some (m_counts ?m (fst p) + 1)) ks"
    "m_counts (snd (mem_incr ks ?m)) = (\<lambda>k. if k \<in> fst ` set ks then m_counts ?m k + 1 else m_counts ?m k)"
    using "2.IH" [OF refl d] by simp_all
  have m: "map (\<lambda>p. Some (m_counts ?m (fst p) + 1)) ks = map (\<lambda>p. Some (m_counts m (fst p) + 1)) ks"
    using k by (auto intro!: map_cong)
  have "mem_incr ((k, ttl) # ks) m = (Some (m_counts m k + 1) # fst (mem_incr ks ?m), snd (mem_incr ks ?m))"
    by (simp add: Let_def split: prod.splits)
  then show ?case using k unfolding ih m by (simp add: ih(2) fun_eq_iff)
qed

lemma mem_pipe:
  "vk_pipe mem_env ks m =
     (if m_down m 0 then ((False, []), mem_step m)
      else ((True, fst (mem_incr ks (mem_step m))), snd (mem_incr ks (mem_step m))))"
  by (simp add: mem_env_def split: prod.splits)

lemma mem_step_simps [simp]:
  "m_keys (mem_step m) = m_keys m" "m_counts (mem_step m) = m_counts m" "m_l1 (mem_step m) = m_l1 m"
  by (simp_all add: mem_step_def)

lemma mem_lawful: "vk_lawful mem_env m_keys m_counts"
  unfolding vk_lawful_def
proof (intro conjI allI impI)
  fix k :: string and d ttl and ks :: "(string \<times> duration) list" and s :: mem
  show "let (r, s') = vk_get mem_env k s in
        fades (m_keys s) (m_keys s') \<and> m_counts s' = m_counts s \<and>
        (\<forall>d. r = Hit d \<longrightarrow> m_keys s' k = Some d) \<and> (r = Nil_reply \<longrightarrow> m_keys s' k = None)"
    by (simp add: mem_env_def split: option.splits)
  show "let (ok, s') = vk_set mem_env k d ttl s in
        other_counters k (m_counts s) (m_counts s') \<and>
        (if ok then m_keys s' k = Some d \<and> fades ((m_keys s)(k \<mapsto> d)) (m_keys s')
         else fades ((m_keys s)(k \<mapsto> d)) (m_keys s') \<or> fades (m_keys s) (m_keys s'))"
    by (simp add: mem_env_def)
  show "let (ok, s') = vk_del mem_env k s in
        fades (m_keys s) (m_keys s') \<and> other_counters k (m_counts s) (m_counts s') \<and> (ok \<longrightarrow> m_keys s' k = None)"
    by (simp add: mem_env_def fades_def)
  show "let ((ok, rs), s') = vk_pipe mem_env ks s in
        (\<forall>k. \<not> counter_key k \<longrightarrow> m_keys s' k = None \<or> m_keys s' k = m_keys s k) \<and>
        (\<forall>k. m_counts s k \<le> m_counts s' k) \<and>
        (ok \<longrightarrow> distinct (map fst ks) \<longrightarrow>
           rs = map (\<lambda>p. Some (m_counts s (fst p) + 1)) ks \<and>
           m_counts s' = (\<lambda>k. if k \<in> fst ` set ks then m_counts s k + 1 else m_counts s k))"
    using mem_incr_results [of ks "mem_step s"] mem_incr_mono [of "mem_step s" _ ks]
    by (simp add: mem_pipe fun_eq_iff)
qed

definition mem0 :: mem where
  "mem0 = \<lparr>m_keys = Map.empty, m_counts = (\<lambda>_. 0), m_l1 = Map.empty, m_down = (\<lambda>_. False)\<rparr>"

text \<open>A world in which every call succeeds, the clock stands still and identifiers are numbered.\<close>

definition world0 :: "mem world" where
  "world0 = \<lparr>w_db = empty_db, w_ext = mem0, w_orc = (\<lambda>_. 0), w_clk = (\<lambda>_. 0),
     w_ids = (\<lambda>n. ''id-'' @ itoa (int n)), w_rand = (\<lambda>_. []), w_out = []\<rparr>"

text \<open>The same with one user, whose wallet holds 20 dollars.\<close>

definition db_u :: db where
  "db_u = empty_db\<lparr>users :=
       [\<lparr>u_id = ''u'', u_username = ''dev'', u_password_hash = ''$pw'', u_price = None\<rparr>],
     wallets := [''u'' \<mapsto> 20]\<rparr>"

definition world_u :: "mem world" where
  "world_u = world0\<lparr>w_db := db_u\<rparr>"

lemma world_u_simps [simp]:
  "w_db world_u = db_u" "w_ext world_u = mem0" "w_orc world_u = (\<lambda>_. 0)" "w_clk world_u = (\<lambda>_. 0)"
  "w_out world_u = []"
  "users db_u = [\<lparr>u_id = ''u'', u_username = ''dev'', u_password_hash = ''$pw'', u_price = None\<rparr>]"
  "wallets db_u = [''u'' \<mapsto> 20]" "usage_events db_u = []" "txns db_u = []" "api_keys db_u = []"
  "user_rate_limits db_u = Map.empty" "tts_jobs db_u = Map.empty"
  by (simp_all add: world_u_def world0_def db_u_def empty_db_def)

end
