(* ===== verification/Billing.thy ===== *)
theory Billing
  imports World
begin

text \<open>
  \<open>api/internal/billing\<close>: the billable event and its publisher (\<open>event.go\<close>), the conversions
  from PCM bytes to seconds and from seconds to money, and the \<open>Coalescer\<close> (\<open>coalescer.go\<close>)
  that gathers the seconds of one request and publishes them at most once per interval.  The
  coalescer's mutex makes each of its operations atomic, so a concurrent use is a list of them.
\<close>

section \<open>Events\<close>

definition Subject :: string where
  "Subject = ''billable.tts.v1''"

record Event =
  IdempotencyKey :: string
  UserID :: string
  RequestID :: string
  Transport :: string
  AudioSeconds :: float64
  OccurredAt :: instant

definition Marshal :: "'v env \<Rightarrow> Event \<Rightarrow> doc" where
  "Marshal E e =
     (case enc_f64 (AudioSeconds e) of None \<Rightarrow> None
      | Some sec \<Rightarrow> (case time_text E (OccurredAt e) of None \<Rightarrow> None
        | Some tm \<Rightarrow> Some (JObj
            [(''idempotency_key'', JStr (IdempotencyKey e)), (''user_id'', JStr (UserID e)),
             (''request_id'', JStr (RequestID e)), (''transport'', JStr (Transport e)),
             (''audio_seconds'', sec), (''occurred_at'', JStr tm)])))"

text \<open>The zero \<open>time.Time\<close> is the first instant of the year 1.\<close>

definition zero_time :: instant where
  "zero_time = - 62135596800 * second"

definition Publish :: "'v env \<Rightarrow> Event \<Rightarrow> ('v, error option) io" where
  "Publish E e0 = do {
     e \<leftarrow> (if OccurredAt e0 = zero_time then do { t \<leftarrow> now; ret (e0\<lparr>OccurredAt := t\<rparr>) } else ret e0);
     case Marshal E e of
       None \<Rightarrow> ret (Some JsonError)
     | Some b \<Rightarrow> do {
         n \<leftarrow> draw;
         emit (Published Subject b (n = 0));
         ret (if n = 0 then None else Some PubError)
       }
   }"

definition NewEvent :: "uuid \<Rightarrow> string \<Rightarrow> string \<Rightarrow> string \<Rightarrow> float64 \<Rightarrow> ('v, Event) io" where
  "NewEvent userID requestID transport idempotencyKey audioSeconds = do {
     t \<leftarrow> now;
     ret \<lparr>IdempotencyKey = idempotencyKey, UserID = userID, RequestID = requestID,
          Transport = transport, AudioSeconds = audioSeconds, OccurredAt = t\<rparr>
   }"

section \<open>Seconds and money\<close>

record DeliveryBudget =
  RemainingUSD :: float64
  PricePerMin :: float64

definition CanDeliverMore :: "DeliveryBudget \<Rightarrow> bool" where
  "CanDeliverMore d = flt_less f0 (RemainingUSD d)"

definition CostForSeconds :: "float64 \<Rightarrow> float64 \<Rightarrow> float64" where
  "CostForSeconds seconds pricePerMinute =
     (if flt_le seconds f0 then f0 else fmul (fdiv seconds (Fin 60)) pricePerMinute)"

definition SecondsFromPCM :: "int \<Rightarrow> int \<Rightarrow> float64" where
  "SecondsFromPCM bytes sampleRate =
     (let rate = (if sampleRate \<le> 0 then 24000 else sampleRate);
          samples = tdiv bytes 2
      in fdiv (f_of_int samples) (f_of_int rate))"

section \<open>The coalescer\<close>

record window =
  audioSeconds :: float64
  lastFlush :: instant

record Coalescer =
  windows :: "string \<rightharpoonup> window"
  interval :: duration
  co_user :: uuid
  co_request :: string
  co_transport :: string
  co_seq :: int

definition NewCoalescer :: "uuid \<Rightarrow> string \<Rightarrow> string \<Rightarrow> duration \<Rightarrow> Coalescer" where
  "NewCoalescer userID requestID transport ivl =
     \<lparr>windows = Map.empty, interval = ivl, co_user = userID, co_request = requestID,
      co_transport = transport, co_seq = 0\<rparr>"

definition idem_key :: "string \<Rightarrow> int \<Rightarrow> string" where
  "idem_key request k = request @ CHR '':'' # itoa k"

definition flushLocked :: "'v env \<Rightarrow> Coalescer \<Rightarrow> window \<Rightarrow> ('v, error option \<times> Coalescer) io" where
  "flushLocked E c w = do {
     let sec = audioSeconds w;
     t \<leftarrow> now;
     let w = w\<lparr>audioSeconds := f0, lastFlush := t\<rparr>;
     let c = c\<lparr>windows := (windows c)(co_request c \<mapsto> w), co_seq := wrap64 (co_seq c + 1)\<rparr>;
     let idem = idem_key (co_request c) (co_seq c);
     e \<leftarrow> NewEvent (co_user c) (co_request c) (co_transport c) idem sec;
     err \<leftarrow> Publish E e;
     ret (err, c)
   }"

definition AddPCM :: "'v env \<Rightarrow> Coalescer \<Rightarrow> int \<Rightarrow> int \<Rightarrow> ('v, error option \<times> Coalescer) io" where
  "AddPCM E c bytes sampleRate =
     (let sec = SecondsFromPCM bytes sampleRate
      in if flt_le sec f0 then ret (None, c)
         else do {
           w \<leftarrow> (case windows c (co_request c) of
                  None \<Rightarrow> do { t \<leftarrow> now; ret \<lparr>audioSeconds = f0, lastFlush = t\<rparr> }
                | Some w \<Rightarrow> ret w);
           let w = w\<lparr>audioSeconds := fadd (audioSeconds w) sec\<rparr>;
           let c = c\<lparr>windows := (windows c)(co_request c \<mapsto> w)\<rparr>;
           d \<leftarrow> since (lastFlush w);
           if interval c \<le> d then flushLocked E c w else ret (None, c)
         })"

definition Flush :: "'v env \<Rightarrow> Coalescer \<Rightarrow> ('v, error option \<times> Coalescer) io" where
  "Flush E c =
     (case windows c (co_request c) of
        None \<Rightarrow> ret (None, c)
      | Some w \<Rightarrow> if flt_le (audioSeconds w) f0 then ret (None, c) else flushLocked E c w)"

section \<open>Bounds of the conversions\<close>

lemma f_of_int_nonneg: "0 \<le> n \<Longrightarrow> flt_le f0 (f_of_int n)"
  unfolding f_of_int_def by (rule f64_nonneg) simp

lemma f_of_int_pos: "1 \<le> n \<Longrightarrow> flt_less f0 (f_of_int n)"
proof -
  assume "1 \<le> n"
  then have "flt_le (f64 1) (f_of_int n)" unfolding f_of_int_def by (intro f64_mono) simp
  then show ?thesis by (cases "f_of_int n") simp_all
qed

lemma f_of_int64: "in_int64 n \<Longrightarrow> f_of_int n = Fin (rnd 53 (- 1074) (of_int n))"
proof -
  assume "in_int64 n"
  then have "\<bar>n\<bar> \<le> 2 ^ 63" by (auto simp: in_int64_def abs_le_iff)
  also have "\<dots> \<le> 2 ^ 1023" by simp
  finally have "\<bar>n\<bar> \<le> 2 ^ 1023" .
  then have "(of_int \<bar>n\<bar> :: rat) \<le> of_int (2 ^ 1023)" by (simp only: of_int_le_iff)
  then have "\<bar>of_int n :: rat\<bar> \<le> pow2 1023" by (simp add: pow2_nat)
  then show ?thesis unfolding f_of_int_def by (rule f64_finite)
qed

lemma SecondsFromPCM_nonneg:
  assumes "0 \<le> bytes" and "in_int64 bytes" and "in_int64 rate"
  shows "flt_le f0 (SecondsFromPCM bytes rate)"
proof -
  let ?r = "if rate \<le> 0 then 24000 else rate"
  have t: "tdiv bytes 2 = bytes div 2" using assms(1) by (rule tdiv_nonneg) simp
  have "in_int64 (bytes div 2)" using assms(1,2) by (auto simp: in_int64_def)
  then obtain a where a: "f_of_int (bytes div 2) = Fin a" using f_of_int64 by blast
  have "in_int64 ?r" using assms(3) by (auto simp: in_int64_def)
  then obtain b where b: "f_of_int ?r = Fin b" using f_of_int64 by blast
  have "0 \<le> a" using f_of_int_nonneg [of "bytes div 2"] a assms(1) by simp
  moreover have "0 < b" using f_of_int_pos [of ?r] b by (simp split: if_splits)
  ultimately show ?thesis
    by (simp add: SecondsFromPCM_def Let_def t a b f64_nonneg)
qed

lemma SecondsFromPCM_not_negative: "0 \<le> bytes \<Longrightarrow> \<not> flt_less (SecondsFromPCM bytes rate) f0"
proof -
  assume b: "0 \<le> bytes"
  let ?r = "if rate \<le> 0 then 24000 else rate"
  have "flt_le f0 (f_of_int (tdiv bytes 2))" using b by (intro f_of_int_nonneg) (simp add: tdiv_nonneg)
  moreover have "flt_less f0 (f_of_int ?r)" by (intro f_of_int_pos) simp
  ultimately have "fdiv (f_of_int (tdiv bytes 2)) (f_of_int ?r) = NaN \<or>
      flt_le f0 (fdiv (f_of_int (tdiv bytes 2)) (f_of_int ?r))"
    by (cases "f_of_int (tdiv bytes 2)"; cases "f_of_int ?r") (simp_all add: f64_nonneg signed_inf_def)
  moreover have "\<not> flt_less v f0" if "v = NaN \<or> flt_le f0 v" for v
    using that by (cases v) auto
  ultimately show ?thesis unfolding SecondsFromPCM_def Let_def by blast
qed

lemma is64_SecondsFromPCM [simp]: "is64 (SecondsFromPCM b r)"
  by (simp add: SecondsFromPCM_def Let_def)

lemma is64_CostForSeconds [simp]: "is64 (CostForSeconds x p)"
  by (simp add: CostForSeconds_def)

lemma CostForSeconds_nonneg:
  "flt_le f0 p \<Longrightarrow> CostForSeconds x p = NaN \<or> flt_le f0 (CostForSeconds x p)"
proof (cases "flt_le x f0")
  case False
  assume p: "flt_le f0 p"
  have "fdiv x (Fin 60) = NaN \<or> flt_le f0 (fdiv x (Fin 60))"
    using False by (cases x) (auto simp: signed_inf_def intro: f64_nonneg)
  then show ?thesis
    using False p fmul_nonneg [of "fdiv x (Fin 60)" p] by (auto simp: CostForSeconds_def)
qed (simp add: CostForSeconds_def)

text \<open>The seconds of a chunk are finite, and so is any sum of them: the running sum never leaves the format.\<close>

lemma rnd_le_63: "\<bar>x\<bar> \<le> pow2 63 \<Longrightarrow> \<bar>rnd 53 (- 1074) x\<bar> \<le> pow2 63"
  using r64.mono [of "\<bar>x\<bar>" "pow2 63"] by (simp add: rnd_abs)

lemma f64_le_63: "\<bar>x\<bar> \<le> pow2 63 \<Longrightarrow> f64 x = Fin (rnd 53 (- 1074) x)"
  using pow2_mono [of 63 1023] by (intro f64_finite) simp

lemma SecondsFromPCM_finite:
  assumes "0 \<le> bytes" and "in_int64 bytes" and "in_int64 rate"
  obtains x where "SecondsFromPCM bytes rate = Fin x" and "\<bar>x\<bar> \<le> pow2 63"
proof -
  let ?n = "bytes div 2"
  let ?r = "if rate \<le> 0 then 24000 else rate"
  have n: "in_int64 ?n" and r: "in_int64 ?r" using assms by (auto simp: in_int64_def)
  have "?n \<le> 2 ^ 63" using n by (simp add: in_int64_def)
  then have "(of_int ?n :: rat) \<le> of_int (2 ^ 63)" by (simp only: of_int_le_iff)
  then have n63: "\<bar>of_int ?n :: rat\<bar> \<le> pow2 63" using assms(1) by (simp add: pow2_nat)
  obtain a where a: "f_of_int ?n = Fin a" "\<bar>a\<bar> \<le> pow2 63"
    using f_of_int64 [OF n] rnd_le_63 [OF n63] by simp
  have "(1 :: rat) \<le> of_int ?r" by simp
  from r64.mono [OF this] obtain b where b: "f_of_int ?r = Fin b" "1 \<le> b"
    using f_of_int64 [OF r] rnd_of_int [of 1 53 "- 1074"] by simp
  have "\<bar>a / b\<bar> \<le> \<bar>a\<bar>" using b(2) by (simp add: divide_le_eq mult_le_cancel_left1)
  then have q: "\<bar>a / b\<bar> \<le> pow2 63" using a(2) by linarith
  have "SecondsFromPCM bytes rate = f64 (a / b)"
    using a(1) b assms(1) by (simp add: SecondsFromPCM_def Let_def tdiv_nonneg)
  then show thesis using that f64_le_63 [OF q] rnd_le_63 [OF q] by simp
qed

lemma rnd_top: "rnd 53 (- 1074) (pow2 120 + pow2 63) = pow2 120"
  by code_simp

text \<open>\<open>short x\<close>: a positive number of seconds that one chunk can have.\<close>

definition short :: "float64 \<Rightarrow> bool" where
  "short x \<longleftrightarrow> (case x of Fin q \<Rightarrow> 0 < q \<and> q \<le> pow2 63 | _ \<Rightarrow> False)"

lemma sum_finite:
  assumes "list_all short xs"
  obtains z where "foldl fadd f0 xs = Fin z" and "0 \<le> z"
proof -
  have "\<exists>z. foldl fadd (Fin y) xs = Fin z \<and> 0 \<le> z" if "list_all short xs" "0 \<le> y" "y \<le> pow2 120" for y
    using that
  proof (induction xs arbitrary: y)
    case (Cons x xs)
    then obtain q where q: "x = Fin q" "0 < q" "q \<le> pow2 63" by (cases x) (auto simp: short_def)
    let ?r = "rnd 53 (- 1074) (y + q)"
    have s: "y + q \<le> pow2 120 + pow2 63" using Cons.prems(3) q(3) by simp
    have "pow2 120 + pow2 63 \<le> pow2 120 + pow2 120" using pow2_mono [of 63 120] by simp
    also have "\<dots> = pow2 121" using pow2_add [of 120 1] by simp
    also have "\<dots> \<le> pow2 1023" by (rule pow2_mono) simp
    finally have "\<bar>y + q\<bar> \<le> pow2 1023" using s Cons.prems(2) q(2) by simp
    then have f: "f64 (y + q) = Fin ?r" by (rule f64_finite)
    have "?r \<le> pow2 120" using r64.mono [OF s] by (simp only: rnd_top)
    moreover have "0 \<le> ?r" using Cons.prems(2) q(2) by (intro rnd_nonneg) simp
    ultimately show ?case using Cons.IH [of ?r] Cons.prems(1) q(1) f by simp
  qed simp
  then show thesis using that assms by force
qed

section \<open>Every second is billed once\<close>

definition is_published :: "effect \<Rightarrow> bool" where
  "is_published e = (case e of Published _ _ _ \<Rightarrow> True | _ \<Rightarrow> False)"

definition pubs :: "'v world \<Rightarrow> effect list" where
  "pubs w = filter is_published (w_out w)"

definition next_seq :: "int \<Rightarrow> int" where
  "next_seq k = wrap64 (k + 1)"

definition event_for :: "Coalescer \<Rightarrow> int \<Rightarrow> float64 \<Rightarrow> instant \<Rightarrow> Event" where
  "event_for c k sec t =
     \<lparr>IdempotencyKey = idem_key (co_request c) k, UserID = co_user c, RequestID = co_request c,
      Transport = co_transport c, AudioSeconds = sec, OccurredAt = t\<rparr>"

text \<open>
  \<open>handed_over E T c k gs ps\<close>: the publications \<open>ps\<close> are one event per group of seconds in \<open>gs\<close>, in
  order, numbered from the successor of \<open>k\<close>, each carrying the sum of its group and the time of a clock
  reading in \<open>T\<close>; beside its seconds a group holds whether NATS accepted its event.
\<close>

fun handed_over ::
  "'v env \<Rightarrow> instant set \<Rightarrow> Coalescer \<Rightarrow> int \<Rightarrow> (float64 list \<times> bool) list \<Rightarrow> effect list \<Rightarrow> bool" where
  "handed_over E T c k [] ps \<longleftrightarrow> ps = []"
| "handed_over E T c k ((seg, sent) # gs) ps \<longleftrightarrow>
     (\<exists>t \<in> T. \<exists>b ps'. Marshal E (event_for c (next_seq k) (foldl fadd f0 seg) t) = Some b \<and>
        ps = Published Subject b sent # ps' \<and> handed_over E T c (next_seq k) gs ps')"

text \<open>Whether the events of the groups were accepted shows in the publications.\<close>

definition sent_ok :: "effect \<Rightarrow> bool" where
  "sent_ok e = (case e of Published _ _ ok \<Rightarrow> ok | _ \<Rightarrow> True)"

lemma handed_over_accepted:
  "handed_over E T c k gs ps \<Longrightarrow> list_all sent_ok ps \<longleftrightarrow> list_all snd gs"
  by (induction E T c k gs ps rule: handed_over.induct) (auto simp: sent_ok_def)

lemma handed_over_length: "handed_over E T c k gs ps \<Longrightarrow> length ps = length gs"
  by (induction E T c k gs ps rule: handed_over.induct) auto

text \<open>
  \<open>flushed_as E T c k segs ps\<close>: the groups \<open>segs\<close> were flushed in this order.  An event whose time
  \<open>time.Time\<close> cannot encode (a year beyond 9999), or whose sum is not finite, is not published.
\<close>

fun flushed_as :: "'v env \<Rightarrow> instant set \<Rightarrow> Coalescer \<Rightarrow> int \<Rightarrow> float64 list list \<Rightarrow> effect list \<Rightarrow> bool" where
  "flushed_as E T c k [] ps \<longleftrightarrow> ps = []"
| "flushed_as E T c k (seg # segs) ps \<longleftrightarrow>
     (\<exists>t \<in> T. case Marshal E (event_for c (next_seq k) (foldl fadd f0 seg) t) of
        None \<Rightarrow> flushed_as E T c (next_seq k) segs ps
      | Some b \<Rightarrow> (\<exists>sent ps'. ps = Published Subject b sent # ps' \<and>
          flushed_as E T c (next_seq k) segs ps'))"

definition encodes :: "'v env \<Rightarrow> instant set \<Rightarrow> bool" where
  "encodes E T \<longleftrightarrow> (\<forall>t \<in> T. time_text E t \<noteq> None)"

lemma flushed_handed_over:
  assumes "flushed_as E T c k segs ps" and "encodes E T" and "\<forall>seg \<in> set segs. list_all short seg"
  shows "\<exists>gs. map fst gs = segs \<and> handed_over E T c k gs ps"
  using assms(1,3)
proof (induction segs arbitrary: k ps)
  case (Cons seg segs)
  from Cons.prems(1) obtain t where t: "t \<in> T" and r: "case Marshal E (event_for c (next_seq k) (foldl fadd f0 seg) t) of
        None \<Rightarrow> flushed_as E T c (next_seq k) segs ps
      | Some b \<Rightarrow> (\<exists>sent ps'. ps = Published Subject b sent # ps' \<and> flushed_as E T c (next_seq k) segs ps')" by auto
  obtain z where "foldl fadd f0 seg = Fin z" using Cons.prems(2) sum_finite [of seg] by auto
  moreover obtain x where "time_text E t = Some x" using assms(2) t by (auto simp: encodes_def)
  ultimately obtain b where m: "Marshal E (event_for c (next_seq k) (foldl fadd f0 seg) t) = Some b"
    by (simp add: Marshal_def event_for_def)
  then obtain sent ps' where ps: "ps = Published Subject b sent # ps'" "flushed_as E T c (next_seq k) segs ps'"
    using r by auto
  from Cons.IH [OF this(2)] Cons.prems(2) obtain gs where "map fst gs = segs" "handed_over E T c (next_seq k) gs ps'" by auto
  then show ?case using ps(1) m t by (intro exI [of _ "(seg, sent) # gs"]) auto
qed simp

definition same_request :: "Coalescer \<Rightarrow> Coalescer \<Rightarrow> bool" where
  "same_request c d \<longleftrightarrow> co_user c = co_user d \<and> co_request c = co_request d \<and>
     co_transport c = co_transport d \<and> interval c = interval d"

definition open_seconds :: "Coalescer \<Rightarrow> float64 list \<Rightarrow> bool" where
  "open_seconds c rest \<longleftrightarrow>
     (case windows c (co_request c) of None \<Rightarrow> rest = []
      | Some w \<Rightarrow> audioSeconds w = foldl fadd f0 rest)"

text \<open>
  \<open>billed E T c0 c xs ps\<close>: from the coalescer \<open>c0\<close> to \<open>c\<close> the seconds \<open>xs\<close> were added and \<open>ps\<close>
  published; \<open>xs\<close> splits into the flushed groups, none empty, and the group \<open>rest\<close> still open.
\<close>

definition billed_at ::
  "'v env \<Rightarrow> instant set \<Rightarrow> Coalescer \<Rightarrow> Coalescer \<Rightarrow> float64 list \<Rightarrow> float64 list \<Rightarrow> effect list \<Rightarrow> bool" where
  "billed_at E T c0 c xs rest ps \<longleftrightarrow>
     (\<exists>segs. xs = concat segs @ rest \<and> [] \<notin> set segs \<and> flushed_as E T c0 (co_seq c0) segs ps \<and>
        co_seq c = (next_seq ^^ length segs) (co_seq c0) \<and> same_request c c0 \<and>
        open_seconds c rest)"

definition billed ::
  "'v env \<Rightarrow> instant set \<Rightarrow> Coalescer \<Rightarrow> Coalescer \<Rightarrow> float64 list \<Rightarrow> effect list \<Rightarrow> bool" where
  "billed E T c0 c xs ps \<longleftrightarrow> (\<exists>rest. billed_at E T c0 c xs rest ps)"

lemma flushed_as_snoc:
  assumes "flushed_as E T c k segs ps" and "t \<in> T"
    and "qs = (case Marshal E (event_for c (next_seq ((next_seq ^^ length segs) k)) (foldl fadd f0 seg) t) of
        None \<Rightarrow> [] | Some b \<Rightarrow> [Published Subject b sent])"
  shows "flushed_as E T c k (segs @ [seg]) (ps @ qs)"
  using assms
proof (induction segs arbitrary: k ps)
  case Nil
  then show ?case by (auto split: option.splits)
next
  case (Cons s segs)
  have k: "(next_seq ^^ length (s # segs)) k = (next_seq ^^ length segs) (next_seq k)"
    by (simp add: funpow_swap1)
  from Cons.prems(1) obtain u where u: "u \<in> T" "case Marshal E (event_for c (next_seq k) (foldl fadd f0 s) u) of
        None \<Rightarrow> flushed_as E T c (next_seq k) segs ps
      | Some b \<Rightarrow> (\<exists>sent ps'. ps = Published Subject b sent # ps' \<and>
          flushed_as E T c (next_seq k) segs ps')" by auto
  note step = Cons.IH [OF _ Cons.prems(2) Cons.prems(3) [unfolded k]]
  from u step show ?case by (force split: option.splits intro!: bexI [of _ u])
qed

lemma result_Publish_frame:
  assumes "clk_in T s" and "OccurredAt e \<in> T"
  shows "\<exists>t \<in> T. \<exists>sent. pubs (after (Publish E e) s) = pubs s @
     (case Marshal E (e\<lparr>OccurredAt := t\<rparr>) of None \<Rightarrow> [] | Some b \<Rightarrow> [Published Subject b sent])"
proof -
  have e: "e\<lparr>OccurredAt := OccurredAt e\<rparr> = e" by simp
  show ?thesis
  proof (cases "OccurredAt e = zero_time")
    case True
    then show ?thesis using clk_inD [OF assms(1)]
      by (intro bexI [of _ "w_clk s 0"] exI [of _ "w_orc s 0 = 0"])
        (simp_all add: Publish_def pubs_def is_published_def split: option.splits)
  next
    case False
    then show ?thesis using assms(2)
      by (intro bexI [of _ "OccurredAt e"] exI [of _ "w_orc s 0 = 0"])
        (simp_all add: Publish_def pubs_def is_published_def split: option.splits)
  qed
qed

text \<open>The operations read the clock in order.\<close>

lemma clk_billing [keeps_intros]:
  "keeps (clk_in T) (Publish E e)" "keeps (clk_in T) (flushLocked E co w)"
  "keeps (clk_in T) (AddPCM E co x y)" "keeps (clk_in T) (Flush E co)"
  unfolding AddPCM_def Flush_def flushLocked_def NewEvent_def Publish_def
  by (intro keeps_intros; simp)+

lemma event_for_OccurredAt [simp]: "(event_for c k x t)\<lparr>OccurredAt := u\<rparr> = event_for c k x u"
  by (simp add: event_for_def)

lemma event_for_same: "same_request c d \<Longrightarrow> event_for c k x t = event_for d k x t"
  by (simp add: event_for_def same_request_def)

lemma same_request_refl [simp]: "same_request c c"
  by (simp add: same_request_def)

lemma flushLocked_result:
  "co_seq (snd (result (flushLocked E c w) s)) = next_seq (co_seq c)"
  "same_request (snd (result (flushLocked E c w) s)) c"
  "open_seconds (snd (result (flushLocked E c w) s)) []"
  "windows (snd (result (flushLocked E c w) s)) (co_request c) = Some \<lparr>audioSeconds = f0, lastFlush = w_clk s 0\<rparr>"
  by (simp_all add: flushLocked_def NewEvent_def Let_def next_seq_def same_request_def open_seconds_def)

lemma flushLocked_pubs:
  assumes "clk_in T s"
  shows "\<exists>t \<in> T. \<exists>sent. pubs (after (flushLocked E c w) s) = pubs s @
     (case Marshal E (event_for c (next_seq (co_seq c)) (audioSeconds w) t) of
        None \<Rightarrow> [] | Some b \<Rightarrow> [Published Subject b sent])"
proof -
  define e where "e = event_for c (next_seq (co_seq c)) (audioSeconds w) (w_clk s (Suc 0))"
  define s1 where "s1 = s\<lparr>w_clk := \<lambda>n. w_clk s (Suc (Suc n))\<rparr>"
  have "after (flushLocked E c w) s = after (Publish E e) s1"
    by (simp add: flushLocked_def NewEvent_def Let_def next_seq_def e_def s1_def event_for_def)
  moreover have "pubs s1 = pubs s" by (simp add: s1_def pubs_def)
  moreover have "clk_in T s1" "OccurredAt e \<in> T"
    using assms by (simp_all add: clk_in_def s1_def e_def event_for_def)
  ultimately show ?thesis using result_Publish_frame [of T s1 e E] by (simp add: e_def)
qed

text \<open>Publishing the open group moves it to the published ones.\<close>

lemma billed_flushLocked:
  assumes "billed_at E T c0 c xs rest ps" and w: "windows c (co_request c) = Some w"
    and "rest \<noteq> []" and "pubs s = p0 @ ps" and clk: "clk_in T s"
  shows "\<exists>ps'. pubs (after (flushLocked E c w) s) = p0 @ ps' \<and>
    billed_at E T c0 (snd (result (flushLocked E c w) s)) xs [] ps'"
proof -
  from assms(1) obtain segs where xs: "xs = concat segs @ rest" and ne: "[] \<notin> set segs"
    and pa: "flushed_as E T c0 (co_seq c0) segs ps"
    and sq: "co_seq c = (next_seq ^^ length segs) (co_seq c0)"
    and sr: "same_request c c0" and op: "open_seconds c rest"
    unfolding billed_at_def by blast
  have sec: "audioSeconds w = foldl fadd f0 rest" using op w by (simp add: open_seconds_def)
  obtain t sent where t: "t \<in> T" and p: "pubs (after (flushLocked E c w) s) = pubs s @
     (case Marshal E (event_for c (next_seq (co_seq c)) (audioSeconds w) t) of
        None \<Rightarrow> [] | Some b \<Rightarrow> [Published Subject b sent])"
    using flushLocked_pubs [OF clk] by blast
  define qs where "qs = (case Marshal E (event_for c0 (next_seq ((next_seq ^^ length segs) (co_seq c0))) (foldl fadd f0 rest) t) of
        None \<Rightarrow> [] | Some b \<Rightarrow> [Published Subject b sent])"
  have "pubs (after (flushLocked E c w) s) = p0 @ ps @ qs"
    using p assms(4) by (simp add: qs_def sec sq event_for_same [OF sr])
  moreover have "billed_at E T c0 (snd (result (flushLocked E c w) s)) xs [] (ps @ qs)"
    unfolding billed_at_def
  proof (intro exI conjI)
    show "xs = concat (segs @ [rest]) @ []" using xs by simp
    show "[] \<notin> set (segs @ [rest])" using ne assms(3) by simp
    show "flushed_as E T c0 (co_seq c0) (segs @ [rest]) (ps @ qs)"
      using pa t qs_def by (rule flushed_as_snoc)
    show "co_seq (snd (result (flushLocked E c w) s)) = (next_seq ^^ length (segs @ [rest])) (co_seq c0)"
      by (simp add: flushLocked_result sq)
    show "same_request (snd (result (flushLocked E c w) s)) c0"
      using flushLocked_result(2) [of E c w s] sr by (simp add: same_request_def)
    show "open_seconds (snd (result (flushLocked E c w) s)) []" by (rule flushLocked_result(3))
  qed
  ultimately show ?thesis by blast
qed

text \<open>The seconds an \<open>AddPCM\<close> call contributes.\<close>

definition added :: "int \<Rightarrow> int \<Rightarrow> float64 list" where
  "added bytes rate = (let sec = SecondsFromPCM bytes rate in if flt_le sec f0 then [] else [sec])"

lemma fadd_zero [simp]: "is64 v \<Longrightarrow> fadd f0 v = v"
  by (cases v) (auto simp: f64_id simp del: is64.simps)

lemma billed_extend:
  assumes "billed_at E T c0 c xs rest ps"
    and "windows d (co_request d) = Some w" and "same_request d c" and "co_seq d = co_seq c"
    and "audioSeconds w = fadd (case windows c (co_request c) of None \<Rightarrow> f0 | Some v \<Rightarrow> audioSeconds v) sec"
  shows "billed_at E T c0 d (xs @ [sec]) (rest @ [sec]) ps"
proof -
  from assms(1) obtain segs where "xs = concat segs @ rest" and "[] \<notin> set segs"
    and "flushed_as E T c0 (co_seq c0) segs ps"
    and "co_seq c = (next_seq ^^ length segs) (co_seq c0)"
    and "same_request c c0" and "open_seconds c rest"
    unfolding billed_at_def by blast
  then show ?thesis
    unfolding billed_at_def using assms(2-5)
    by (intro exI [of _ segs])
      (auto simp: same_request_def open_seconds_def split: option.splits)
qed

lemma billed_AddPCM:
  assumes b: "billed E T c0 c xs ps" and p: "pubs s = p0 @ ps" and clk: "clk_in T s"
  shows "\<exists>ps'. pubs (after (AddPCM E c bytes rate) s) = p0 @ ps' \<and>
    billed E T c0 (snd (result (AddPCM E c bytes rate) s)) (xs @ added bytes rate) ps'"
proof (cases "flt_le (SecondsFromPCM bytes rate) f0")
  case True
  then show ?thesis using assms by (simp add: AddPCM_def added_def Let_def)
next
  case False
  let ?sec = "SecondsFromPCM bytes rate"
  define fresh where "fresh = (windows c (co_request c) = None)"
  define w where "w = (case windows c (co_request c) of
      None \<Rightarrow> \<lparr>audioSeconds = fadd f0 ?sec, lastFlush = w_clk s 0\<rparr>
    | Some v \<Rightarrow> v\<lparr>audioSeconds := fadd (audioSeconds v) ?sec\<rparr>)"
  define d where "d = c\<lparr>windows := (windows c)(co_request c \<mapsto> w)\<rparr>"
  define s1 where "s1 = (if fresh then s\<lparr>w_clk := \<lambda>n. w_clk s (Suc (Suc n))\<rparr>
    else s\<lparr>w_clk := \<lambda>n. w_clk s (Suc n)\<rparr>)"
  define gap where "gap = (if fresh then w_clk s (Suc 0) else w_clk s 0) - lastFlush w"
  have run: "result (AddPCM E c bytes rate) s =
      (if interval d \<le> gap then result (flushLocked E d w) s1 else (None, d))"
    "after (AddPCM E c bytes rate) s = (if interval d \<le> gap then after (flushLocked E d w) s1 else s1)"
    using False
    by (cases "windows c (co_request c)";
        simp add: AddPCM_def Let_def w_def d_def s1_def gap_def fresh_def)+
  from b obtain rest where "billed_at E T c0 c xs rest ps" unfolding billed_def by blast
  then have bd: "billed_at E T c0 d (xs @ [?sec]) (rest @ [?sec]) ps"
    by (rule billed_extend)
      (auto simp: d_def w_def same_request_def split: option.splits)
  have p1: "pubs s1 = p0 @ ps" using p by (simp add: s1_def pubs_def)
  have clk1: "clk_in T s1" using clk by (simp add: s1_def clk_in_def)
  have ad: "added bytes rate = [?sec]" using False by (simp add: added_def Let_def)
  show ?thesis
  proof (cases "interval d \<le> gap")
    case True
    have "windows d (co_request d) = Some w" by (simp add: d_def)
    from billed_flushLocked [OF bd this _ p1 clk1] show ?thesis by (auto simp: run True ad billed_def)
  next
    case False
    then show ?thesis using bd p1 by (auto simp: run ad billed_def)
  qed
qed

text \<open>After a final \<open>Flush\<close> no second is left open (unless the open sum is not a number).\<close>

lemma billed_Flush:
  assumes b: "billed E T c0 c xs ps" and p: "pubs s = p0 @ ps" and clk: "clk_in T s"
  shows "\<exists>ps'. pubs (after (Flush E c) s) = p0 @ ps' \<and>
    billed E T c0 (snd (result (Flush E c) s)) xs ps' \<and>
    (case windows (snd (result (Flush E c) s)) (co_request c) of None \<Rightarrow> True
     | Some w \<Rightarrow> flt_le (audioSeconds w) f0)"
proof (cases "windows c (co_request c)")
  case None
  then show ?thesis using assms by (simp add: Flush_def)
next
  case (Some w)
  show ?thesis
  proof (cases "flt_le (audioSeconds w) f0")
    case True
    then show ?thesis using Some assms by (simp add: Flush_def)
  next
    case False
    then have fl: "Flush E c = flushLocked E c w" using Some by (simp add: Flush_def)
    from b obtain rest where r: "billed_at E T c0 c xs rest ps" unfolding billed_def by blast
    then have "rest \<noteq> []" using False Some by (auto simp: billed_at_def open_seconds_def)
    from billed_flushLocked [OF r Some this p clk] show ?thesis
      using flushLocked_result(4) [of E c w s] by (auto simp: fl billed_def)
  qed
qed

section \<open>The interface the handlers use\<close>

text \<open>
  A biller: an account \<open>ok c xs ps\<close> of the seconds added and of the log entries written since
  the start, kept by both operations and unaffected by whatever leaves the log alone; a
  flush leaves nothing open.
\<close>

datatype bill_op = Add int int | Settle

fun run_ops ::
  "('c \<Rightarrow> int \<Rightarrow> int \<Rightarrow> ('s, 'e \<times> 'c) state) \<Rightarrow> ('c \<Rightarrow> ('s, 'e \<times> 'c) state) \<Rightarrow>
   'c \<Rightarrow> bill_op list \<Rightarrow> ('s, 'c) state" where
  "run_ops add flush c [] = ret c"
| "run_ops add flush c (Add b r # ops) = do { x \<leftarrow> add c b r; run_ops add flush (snd x) ops }"
| "run_ops add flush c (Settle # ops) = do { x \<leftarrow> flush c; run_ops add flush (snd x) ops }"

fun seconds_of :: "bill_op list \<Rightarrow> float64 list" where
  "seconds_of [] = []"
| "seconds_of (Add b r # ops) = added b r @ seconds_of ops"
| "seconds_of (Settle # ops) = seconds_of ops"

locale biller =
  fixes add :: "'c \<Rightarrow> int \<Rightarrow> int \<Rightarrow> ('s, 'e \<times> 'c) state"
    and flush :: "'c \<Rightarrow> ('s, 'e \<times> 'c) state"
    and log :: "'s \<Rightarrow> 'l list"
    and ok :: "'c \<Rightarrow> 'c \<Rightarrow> float64 list \<Rightarrow> 'l list \<Rightarrow> bool"
    and fresh :: "'c \<Rightarrow> bool"
    and settled :: "'c \<Rightarrow> bool"
    and inv :: "'s \<Rightarrow> bool"
  assumes start: "fresh c \<Longrightarrow> ok c c [] []"
    and add_inv: "keeps inv (add c b r)" and flush_inv: "keeps inv (flush c)"
    and add_ok: "ok c0 c xs ps \<Longrightarrow> log s = p0 @ ps \<Longrightarrow> inv s \<Longrightarrow>
      \<exists>ps'. log (after (add c b r) s) = p0 @ ps' \<and> ok c0 (snd (result (add c b r) s)) (xs @ added b r) ps'"
    and flush_ok: "ok c0 c xs ps \<Longrightarrow> log s = p0 @ ps \<Longrightarrow> inv s \<Longrightarrow>
      \<exists>ps'. log (after (flush c) s) = p0 @ ps' \<and> ok c0 (snd (result (flush c) s)) xs ps' \<and>
        settled (snd (result (flush c) s))"
begin

lemma run_ok:
  assumes "ok c0 c xs ps" and "log s = p0 @ ps" and "inv s"
  shows "\<exists>ps'. log (after (run_ops add flush c ops) s) = p0 @ ps' \<and>
    ok c0 (result (run_ops add flush c ops) s) (xs @ seconds_of ops) ps' \<and> inv (after (run_ops add flush c ops) s)"
  using assms
proof (induction ops arbitrary: c xs ps s)
  case Nil
  then show ?case by auto
next
  case (Cons x ops)
  show ?case
  proof (cases x)
    case (Add b r)
    obtain ps' where "log (after (add c b r) s) = p0 @ ps'"
      "ok c0 (snd (result (add c b r) s)) (xs @ added b r) ps'"
      using add_ok [OF Cons.prems] by blast
    from Cons.IH [OF this(2,1) keepsD [OF add_inv Cons.prems(3)]] show ?thesis by (simp add: Add)
  next
    case Settle
    obtain ps' where "log (after (flush c) s) = p0 @ ps'" "ok c0 (snd (result (flush c) s)) xs ps'"
      using flush_ok [OF Cons.prems] by blast
    from Cons.IH [OF this(2,1) keepsD [OF flush_inv Cons.prems(3)]] show ?thesis by (simp add: Settle)
  qed
qed

lemma run_from_start:
  "fresh c \<Longrightarrow> inv s \<Longrightarrow> \<exists>ps. log (after (run_ops add flush c ops) s) = log s @ ps \<and>
     ok c (result (run_ops add flush c ops) s) (seconds_of ops) ps \<and> inv (after (run_ops add flush c ops) s)"
  using run_ok [of c c "[]" "[]" s "log s" ops] start [of c] by simp

lemma run_settled:
  assumes "fresh c" and "inv s"
  shows "\<exists>ps. log (after (run_ops add flush c (ops @ [Settle])) s) = log s @ ps \<and>
     ok c (result (run_ops add flush c (ops @ [Settle])) s) (seconds_of ops) ps \<and>
     settled (result (run_ops add flush c (ops @ [Settle])) s)"
proof -
  have app: "result (run_ops add flush d (ops @ [Settle])) s =
      snd (result (flush (result (run_ops add flush d ops) s)) (after (run_ops add flush d ops) s))"
    "after (run_ops add flush d (ops @ [Settle])) s =
      after (flush (result (run_ops add flush d ops) s)) (after (run_ops add flush d ops) s)" for d
  proof (induction ops arbitrary: d s)
    case Nil
    { case 1 show ?case by simp }
    { case 2 show ?case by simp }
  next
    case (Cons x ops)
    { case 1 show ?case using Cons by (cases x) simp_all }
    { case 2 show ?case using Cons by (cases x) simp_all }
  qed
  obtain ps where "log (after (run_ops add flush c ops) s) = log s @ ps"
    "ok c (result (run_ops add flush c ops) s) (seconds_of ops) ps" "inv (after (run_ops add flush c ops) s)"
    using run_from_start [OF assms] by blast
  from flush_ok [OF this(2,1,3)] show ?thesis by (simp add: app)
qed

end

definition coal_fresh :: "Coalescer \<Rightarrow> bool" where
  "coal_fresh c \<longleftrightarrow> windows c (co_request c) = None"

definition coal_settled :: "Coalescer \<Rightarrow> bool" where
  "coal_settled c \<longleftrightarrow>
     (case windows c (co_request c) of None \<Rightarrow> True | Some w \<Rightarrow> flt_le (audioSeconds w) f0)"

interpretation coal: biller "AddPCM E" "Flush E" pubs "billed E T" coal_fresh coal_settled "clk_in T" for E T
proof
  fix c0 c :: Coalescer and xs ps p0 and b r :: int and s :: "'a world"
  show "keeps (clk_in T) (AddPCM E c b r)" "keeps (clk_in T) (Flush E c)" by (rule clk_billing)+
  show "coal_fresh c \<Longrightarrow> billed E T c c [] []"
    unfolding billed_def billed_at_def coal_fresh_def
    by (intro exI [of _ "[]"]) (simp add: open_seconds_def)
  show "billed E T c0 c xs ps \<Longrightarrow> pubs s = p0 @ ps \<Longrightarrow> clk_in T s \<Longrightarrow>
      \<exists>ps'. pubs (after (AddPCM E c b r) s) = p0 @ ps' \<and>
        billed E T c0 (snd (result (AddPCM E c b r) s)) (xs @ added b r) ps'"
    by (rule billed_AddPCM)
  show "billed E T c0 c xs ps \<Longrightarrow> pubs s = p0 @ ps \<Longrightarrow> clk_in T s \<Longrightarrow>
      \<exists>ps'. pubs (after (Flush E c) s) = p0 @ ps' \<and>
        billed E T c0 (snd (result (Flush E c) s)) xs ps' \<and> coal_settled (snd (result (Flush E c) s))"
  proof -
    assume a: "billed E T c0 c xs ps" "pubs s = p0 @ ps" "clk_in T s"
    have "co_request (snd (result (Flush E c) s)) = co_request c"
      using flushLocked_result(2) [of E c _ s]
      by (auto simp: Flush_def same_request_def split: option.splits)
    then show ?thesis using billed_Flush [OF a] by (simp add: coal_settled_def)
  qed
qed

section \<open>Results\<close>

lemma sum_pos:
  assumes "\<forall>x \<in> set xs. flt_less f0 x \<and> is64 x" and "xs \<noteq> []"
  shows "flt_less f0 (foldl fadd f0 xs)"
proof -
  have step: "flt_less f0 (fadd a x)" if "flt_less f0 x" "is64 x" "flt_le f0 a" for a x
  proof (cases "\<exists>p q. a = Fin p \<and> x = Fin q")
    case True
    then obtain p q where v: "a = Fin p" "x = Fin q" by blast
    then have "flt_le (f64 q) (f64 (p + q))" using that by (intro f64_mono) simp
    then show ?thesis
      using that v by (simp add: f64_id del: is64.simps) (rule flt_less_le_trans, auto)
  next
    case False
    then show ?thesis using that by (cases a; cases x) auto
  qed
  have "flt_less f0 (foldl fadd a xs)" if "flt_le f0 a" "xs \<noteq> []" "\<forall>x \<in> set xs. flt_less f0 x \<and> is64 x" for a xs
    using that
  proof (induction xs arbitrary: a)
    case Nil
    then show ?case by simp
  next
    case (Cons x xs)
    then have p: "flt_less f0 (fadd a x)" using step by simp
    show ?case
    proof (cases "xs = []")
      case True
      then show ?thesis using p by simp
    next
      case False
      then show ?thesis using Cons p flt_less_le by simp
    qed
  qed
  then show ?thesis using assms by simp
qed

lemma not_le_pos: "flt_le f0 x \<Longrightarrow> \<not> flt_le x f0 \<Longrightarrow> flt_less f0 x"
  by (cases x) auto

fun op_in_range :: "bill_op \<Rightarrow> bool" where
  "op_in_range (Add b r) \<longleftrightarrow> 0 \<le> b \<and> in_int64 b \<and> in_int64 r"
| "op_in_range Settle \<longleftrightarrow> True"

lemma added_short:
  "0 \<le> b \<Longrightarrow> in_int64 b \<Longrightarrow> in_int64 r \<Longrightarrow> x \<in> set (added b r) \<Longrightarrow> short x"
  by (rule SecondsFromPCM_finite [of b r]) (auto simp: added_def short_def split: if_splits)

lemma seconds_of_pos:
  "list_all op_in_range ops \<Longrightarrow> \<forall>x \<in> set (seconds_of ops). flt_less f0 x \<and> is64 x"
  by (induction ops rule: seconds_of.induct)
    (auto simp: added_def Let_def intro: not_le_pos SecondsFromPCM_nonneg)

lemma seconds_of_short: "list_all op_in_range ops \<Longrightarrow> list_all short (seconds_of ops)"
  by (induction ops rule: seconds_of.induct) (auto simp: list_all_iff intro: added_short)

text \<open>Once settled, the seconds are exactly those of the published groups.\<close>

text \<open>\<open>segs\<close> splits \<open>xs\<close> into groups, none of which is empty.\<close>

definition grouped :: "'x list list \<Rightarrow> 'x list \<Rightarrow> bool" where
  "grouped segs xs \<longleftrightarrow> concat segs = xs \<and> [] \<notin> set segs"

lemma settled_closed:
  assumes b: "billed E T c0 c xs ps" and st: "coal_settled c" and pos: "\<forall>x \<in> set xs. flt_less f0 x \<and> is64 x"
  shows "\<exists>segs. grouped segs xs \<and> flushed_as E T c0 (co_seq c0) segs ps"
proof -
  from b obtain segs rest where xs: "xs = concat segs @ rest" and ne: "[] \<notin> set segs"
    and pa: "flushed_as E T c0 (co_seq c0) segs ps" and op: "open_seconds c rest"
    unfolding billed_def billed_at_def by blast
  have "rest = []"
  proof (rule ccontr)
    assume ne: "rest \<noteq> []"
    have "\<forall>x \<in> set rest. flt_less f0 x \<and> is64 x" using pos xs by simp
    then have "flt_less f0 (foldl fadd f0 rest)" using ne by (rule sum_pos)
    moreover have "flt_le (foldl fadd f0 rest) f0"
      using st op ne by (auto simp: coal_settled_def open_seconds_def split: option.splits)
    ultimately show False by (cases "foldl fadd f0 rest") auto
  qed
  then show ?thesis using pa xs ne by (auto simp: grouped_def)
qed

lemma grouped_handed_over:
  assumes "grouped segs xs" and "flushed_as E T c k segs ps" and "encodes E T" and "list_all short xs"
  obtains gs where "grouped (map fst gs) xs" and "handed_over E T c k gs ps"
proof -
  have "\<forall>seg \<in> set segs. list_all short seg" using assms(1,4) by (auto simp: grouped_def list_all_iff)
  from flushed_handed_over [OF assms(2,3) this] show thesis using that assms(1) by auto
qed

text \<open>In a world where no call fails every event published is accepted.\<close>

definition smooth :: "effect list \<Rightarrow> 'v world \<Rightarrow> bool" where
  "smooth old s \<longleftrightarrow> calm s \<and> appends sent_ok old (w_out s)"

lemma keeps_smooth_prims [keeps_intros]:
  "keeps (smooth old) now" "keeps (smooth old) draw" "keeps (smooth old) new_uuid" "keeps (smooth old) (pg f)"
  "keeps (smooth old) (since u)" "keeps (smooth old) (rand_bytes k)" "keeps (smooth old) (ext g)"
  by (auto intro!: keepsI simp: smooth_def calm_def)

lemma keeps_smooth_emit [keeps_intros]: "\<not> is_published e \<Longrightarrow> keeps (smooth old) (emit e)"
  by (cases e) (auto intro!: keepsI simp: smooth_def calm_def appends_def sent_ok_def is_published_def)

lemma smooth_Publish [keeps_intros]: "keeps (smooth old) (Publish E e)"
  by (rule keepsI)
    (auto simp: Publish_def smooth_def calm_def appends_def sent_ok_def split: option.splits)

lemma smooth_billing [keeps_intros]:
  "keeps (smooth old) (flushLocked E co w)" "keeps (smooth old) (AddPCM E co x y)" "keeps (smooth old) (Flush E co)"
  unfolding AddPCM_def Flush_def flushLocked_def NewEvent_def by (intro keeps_intros; simp)+

lemma smooth_run_ops: "keeps (smooth old) (run_ops (AddPCM E) (Flush E) c ops)"
proof (induction ops arbitrary: c)
  case (Cons op ops)
  then show ?case by (cases op) (auto simp del: after_bind intro!: keeps_intros)
qed simp

lemma smooth_start: "calm s \<Longrightarrow> smooth (w_out s) s"
  by (simp add: smooth_def appends_def)

lemma smooth_accepted:
  assumes "smooth old s" and "w_out s = old @ es" and "handed_over E T c k gs (filter is_published es)"
  shows "list_all snd gs"
proof -
  have "list_all sent_ok es" using assms(1,2) by (auto simp: smooth_def appends_def)
  then have "list_all sent_ok (filter is_published es)" by (auto simp: list_all_iff)
  then show ?thesis using handed_over_accepted [OF assms(3)] by simp
qed

text \<open>
  C18: Whatever the interleaving of chunks, timer expiries and flushes, after the final flush of a
  request every second of audio handed to the coalescer is in exactly one group for which NATS was
  given an event, in order: the event carries the sum of the group's seconds, the time of a clock reading
  of the run, and the numbers 1, 2, 3 and so on under the request's identifier.  Beside each group stands
  whether NATS accepted its event; where no call fails all are accepted, and a group that was refused
  is lost, for its window was emptied before.
\<close>

theorem coalescer_bills_everything:
  assumes "list_all op_in_range ops" and "encodes E (range (w_clk s))"
  shows "\<exists>gs ps. pubs (after (run_ops (AddPCM E) (Flush E) (NewCoalescer u req tr ivl) (ops @ [Settle])) s)
      = pubs s @ ps \<and>
    grouped (map fst gs) (seconds_of ops) \<and>
    handed_over E (range (w_clk s)) (NewCoalescer u req tr ivl) 0 gs ps \<and>
    (calm s \<longrightarrow> list_all snd gs)"
proof -
  let ?c = "NewCoalescer u req tr ivl" and ?T = "range (w_clk s)"
  let ?m = "run_ops (AddPCM E) (Flush E) ?c (ops @ [Settle])"
  let ?d = "result ?m s"
  have "coal_fresh ?c" "clk_in ?T s" by (simp_all add: coal_fresh_def NewCoalescer_def clk_in_def)
  then obtain ps where p: "pubs (after ?m s) = pubs s @ ps"
    and b: "billed E ?T ?c ?d (seconds_of ops) ps" and st: "coal_settled ?d"
    using coal.run_settled [of ?c ?T s E ops] by blast
  from settled_closed [OF b st seconds_of_pos [OF assms(1)]] obtain segs where
    "grouped segs (seconds_of ops)" "flushed_as E ?T ?c 0 segs ps" by (auto simp: NewCoalescer_def)
  from grouped_handed_over [OF this assms(2) seconds_of_short [OF assms(1)]] obtain gs where
    gs: "grouped (map fst gs) (seconds_of ops)" "handed_over E ?T ?c 0 gs ps" .
  have "list_all snd gs" if "calm s"
  proof -
    from keepsD [OF smooth_run_ops smooth_start [OF that]] obtain es where
      "w_out (after ?m s) = w_out s @ es" "list_all sent_ok es" unfolding smooth_def appends_def by blast
    then have "list_all sent_ok ps" using p by (auto simp: pubs_def list_all_iff)
    then show ?thesis using handed_over_accepted [OF gs(2)] by simp
  qed
  then show ?thesis using p gs by blast
qed

lemma coalescer_bills_everything_witness:
  "\<exists>gs ps. pubs (after (run_ops (AddPCM mem_env) (Flush mem_env) (NewCoalescer ''u'' ''r'' ''websocket'' 300)
        ([Add 48000 24000, Add 96000 24000] @ [Settle])) world0) = pubs world0 @ ps \<and>
    grouped (map fst gs) [Fin 1, Fin 2] \<and>
    handed_over mem_env (range (w_clk world0)) (NewCoalescer ''u'' ''r'' ''websocket'' 300) 0 gs ps \<and> list_all snd gs"
proof -
  let ?ops = "[Add 48000 24000, Add 96000 24000]"
  have "list_all op_in_range ?ops" by (simp add: in_int64_def)
  moreover have "encodes mem_env (range (w_clk world0))"
    by (auto simp: encodes_def world0_def mem_env_simps in_int64_def)
  moreover have "seconds_of ?ops = [Fin 1, Fin 2]"
    by (simp add: added_def SecondsFromPCM_def tdiv_def f_of_int_def)
  moreover have "calm world0" by (simp add: calm_def world0_def)
  ultimately show ?thesis
    using coalescer_bills_everything [of ?ops mem_env world0 "''u''" "''r''" "''websocket''" 300] by simp
qed

text \<open>Idempotency keys tell requests and flushes apart.\<close>

lemma idem_key_inject: "idem_key r k = idem_key r' k' \<longleftrightarrow> r = r' \<and> k = k'"
proof
  assume "idem_key r k = idem_key r' k'"
  then have "r = r' \<and> itoa k = itoa k'"
    unfolding idem_key_def by (rule last_sep_inject) simp_all
  then show "r = r' \<and> k = k'" by simp
qed simp

text \<open>The key a published document carries.\<close>

definition pub_key :: "effect \<Rightarrow> string option" where
  "pub_key e =
     (case e of Published subj (JObj ((k, JStr s) # _)) _ \<Rightarrow> Some s | _ \<Rightarrow> None)"

lemma pub_key_event:
  "Marshal E (event_for c k x t) = Some b \<Longrightarrow>
     pub_key (Published Subject b sent) = Some (idem_key (co_request c) k)"
  by (auto simp: Marshal_def event_for_def pub_key_def split: option.splits)

lemma next_seq_small: "0 \<le> k \<Longrightarrow> k + 1 < 2 ^ 63 \<Longrightarrow> next_seq k = k + 1"
  by (simp add: next_seq_def wrap64_id in_int64_def)

lemma published_keys:
  assumes "flushed_as E T c k segs ps" and "0 \<le> k" and "k + int (length segs) < 2 ^ 63"
  shows "\<exists>ks. map pub_key ps = map (\<lambda>i. Some (idem_key (co_request c) i)) ks \<and>
    distinct ks \<and> set ks \<subseteq> {k + 1 .. k + int (length segs)}"
  using assms
proof (induction segs arbitrary: k ps)
  case Nil
  then show ?case by (intro exI [of _ "[]"]) simp
next
  case (Cons seg segs)
  have nx: "next_seq k = k + 1" using Cons.prems by (intro next_seq_small) auto
  from Cons.prems(1) obtain t where
    t: "case Marshal E (event_for c (next_seq k) (foldl fadd f0 seg) t) of
        None \<Rightarrow> flushed_as E T c (next_seq k) segs ps
      | Some b \<Rightarrow> (\<exists>sent ps'. ps = Published Subject b sent # ps' \<and>
          flushed_as E T c (next_seq k) segs ps')" by auto
  show ?case
  proof (cases "Marshal E (event_for c (next_seq k) (foldl fadd f0 seg) t)")
    case None
    then have "flushed_as E T c (k + 1) segs ps" using t nx by simp
    from Cons.IH [OF this] Cons.prems show ?thesis by fastforce
  next
    case (Some b)
    then obtain sent ps' where ps: "ps = Published Subject b sent # ps'"
      and pa: "flushed_as E T c (k + 1) segs ps'" using t nx by auto
    from Cons.IH [OF pa] Cons.prems obtain ks where
      ks: "map pub_key ps' = map (\<lambda>i. Some (idem_key (co_request c) i)) ks" "distinct ks"
      "set ks \<subseteq> {k + 1 + 1 .. k + 1 + int (length segs)}" by auto
    have "pub_key (Published Subject b sent) = Some (idem_key (co_request c) (k + 1))"
      using Some nx by (auto intro: pub_key_event)
    then show ?thesis using ks ps by (intro exI [of _ "(k + 1) # ks"]) auto
  qed
qed

lemma length_seconds_of: "length (seconds_of ops) \<le> length ops"
  by (induction ops rule: seconds_of.induct) (auto simp: added_def Let_def)

lemma length_le_concat: "[] \<notin> set xss \<Longrightarrow> length xss \<le> length (concat xss)"
proof (induction xss)
  case (Cons xs xss)
  then show ?case by (cases xs) auto
qed simp

lemma run_ops_keys:
  assumes "int (length ops) < 2 ^ 63"
  shows "\<exists>ps ks. pubs (after (run_ops (AddPCM E) (Flush E) (NewCoalescer u req tr ivl) ops) s) = pubs s @ ps \<and>
    map pub_key ps = map (\<lambda>i. Some (idem_key req i)) ks \<and> distinct ks"
proof -
  let ?c = "NewCoalescer u req tr ivl"
  have "coal_fresh ?c" "clk_in UNIV s" by (simp_all add: coal_fresh_def NewCoalescer_def clk_in_def)
  then obtain ps where p: "pubs (after (run_ops (AddPCM E) (Flush E) ?c ops) s) = pubs s @ ps"
    and b: "billed E UNIV ?c (result (run_ops (AddPCM E) (Flush E) ?c ops) s) (seconds_of ops) ps"
    using coal.run_from_start [of ?c UNIV s E ops] by blast
  from b obtain segs rest where xs: "seconds_of ops = concat segs @ rest" and ne: "[] \<notin> set segs"
    and pa: "flushed_as E UNIV ?c 0 segs ps"
    unfolding billed_def billed_at_def by (auto simp: NewCoalescer_def)
  have "length segs \<le> length ops"
    using length_le_concat [OF ne] length_seconds_of [of ops] xs by simp
  then have "0 + int (length segs) < 2 ^ 63" using assms by simp
  with published_keys [OF pa] p show ?thesis by (auto simp: NewCoalescer_def)
qed

text \<open>
  C19: no two billing events ever carry the same idempotency key.  The events a request publishes
  have pairwise different keys, and those of another request differ from all of them (for
  fewer than 2 to the 63 operations per request).
\<close>

theorem idempotency_keys_unique:
  assumes "int (length ops) < 2 ^ 63" and "int (length ops') < 2 ^ 63" and "req \<noteq> req'"
    and "s1 = after (run_ops (AddPCM E) (Flush E) (NewCoalescer u req tr ivl) ops) s"
    and "s2 = after (run_ops (AddPCM E) (Flush E) (NewCoalescer u' req' tr' ivl') ops') s1"
  shows "\<exists>ps. pubs s2 = pubs s @ ps \<and> distinct (map pub_key ps)"
proof -
  obtain ps ks where 1: "pubs s1 = pubs s @ ps" "map pub_key ps = map (\<lambda>i. Some (idem_key req i)) ks"
    "distinct ks" using run_ops_keys [OF assms(1)] unfolding assms(4) by metis
  obtain ps' ks' where 2: "pubs s2 = pubs s1 @ ps'"
    "map pub_key ps' = map (\<lambda>i. Some (idem_key req' i)) ks'" "distinct ks'"
    using run_ops_keys [OF assms(2)] unfolding assms(5) by metis
  have "distinct (map pub_key (ps @ ps'))"
    unfolding map_append 1(2) 2(2) using 1(3) 2(3) assms(3)
    by (auto simp: distinct_map inj_on_def idem_key_inject)
  then show ?thesis using 1(1) 2(1) by (intro exI [of _ "ps @ ps'"]) simp
qed

lemma idempotency_keys_unique_witness:
  "\<exists>ps. pubs (after (run_ops (AddPCM mem_env) (Flush mem_env) (NewCoalescer ''u'' ''b'' ''websocket'' 300) [Add 48000 24000, Settle])
      (after (run_ops (AddPCM mem_env) (Flush mem_env) (NewCoalescer ''u'' ''a'' ''http_async'' 0) [Add 48000 24000, Add 48000 24000]) world0))
      = pubs world0 @ ps \<and> distinct (map pub_key ps)"
  by (rule idempotency_keys_unique [of "[Add 48000 24000, Add 48000 24000]" "[Add 48000 24000, Settle]" "''a''" "''b''"])
    simp_all

text \<open>
  An \<open>AddPCM\<close> call publishes exactly when the time since the last flush of the request's
  window (or since the window was opened) has reached the interval; otherwise it only adds the
  seconds to the window.  Chunks of at most one byte carry no audio and change nothing.
\<close>

lemma AddPCM_publishes_on_interval:
  assumes "\<not> flt_le (SecondsFromPCM bytes rate) f0"
    and "windows c (co_request c) = Some w" and "gap = w_clk s 0 - lastFlush w"
  shows "(gap < interval c \<longrightarrow>
      pubs (after (AddPCM E c bytes rate) s) = pubs s \<and>
      result (AddPCM E c bytes rate) s =
        (None, c\<lparr>windows := (windows c)(co_request c \<mapsto>
           w\<lparr>audioSeconds := fadd (audioSeconds w) (SecondsFromPCM bytes rate)\<rparr>)\<rparr>)) \<and>
    (interval c \<le> gap \<longrightarrow>
      (\<exists>t sent. pubs (after (AddPCM E c bytes rate) s) = pubs s @
        (case Marshal E (event_for c (next_seq (co_seq c)) (fadd (audioSeconds w) (SecondsFromPCM bytes rate)) t) of
           None \<Rightarrow> [] | Some b \<Rightarrow> [Published Subject b sent])) \<and>
      windows (snd (result (AddPCM E c bytes rate) s)) (co_request c) =
        Some \<lparr>audioSeconds = f0, lastFlush = w_clk s 1\<rparr>)"
proof -
  let ?w = "w\<lparr>audioSeconds := fadd (audioSeconds w) (SecondsFromPCM bytes rate)\<rparr>"
  let ?d = "c\<lparr>windows := (windows c)(co_request c \<mapsto> ?w)\<rparr>"
  let ?s = "s\<lparr>w_clk := \<lambda>n. w_clk s (Suc n)\<rparr>"
  have run: "result (AddPCM E c bytes rate) s =
      (if interval c \<le> gap then result (flushLocked E ?d ?w) ?s else (None, ?d))"
    "after (AddPCM E c bytes rate) s = (if interval c \<le> gap then after (flushLocked E ?d ?w) ?s else ?s)"
    using assms by (simp_all add: AddPCM_def Let_def)
  have ev: "event_for ?d k x t = event_for c k x t" for k x t by (simp add: event_for_def)
  have ps: "pubs ?s = pubs s" by (simp add: pubs_def)
  show ?thesis
  proof (intro conjI impI)
    assume "interval c \<le> gap"
    then show "\<exists>t sent. pubs (after (AddPCM E c bytes rate) s) = pubs s @
        (case Marshal E (event_for c (next_seq (co_seq c)) (fadd (audioSeconds w) (SecondsFromPCM bytes rate)) t) of
           None \<Rightarrow> [] | Some b \<Rightarrow> [Published Subject b sent])"
      using flushLocked_pubs [of UNIV ?s E ?d ?w] by (simp add: run ev ps clk_in_def)
    show "windows (snd (result (AddPCM E c bytes rate) s)) (co_request c) =
        Some \<lparr>audioSeconds = f0, lastFlush = w_clk s 1\<rparr>"
      using \<open>interval c \<le> gap\<close> flushLocked_result(4) [of E ?d ?w ?s] by (simp add: run)
  qed (simp_all add: run ps)
qed

end
