(* ===== verification/SynthLimit.thy ===== *)
theory SynthLimit
  imports World
begin

text \<open>
  \<open>api/internal/synthlimit/limit.go\<close>: the bounded channel that admits at most \<open>max\<close> syntheses
  at a time.  \<open>Acquire\<close> answers the list of outcomes Go's \<open>select\<close> may choose from (the
  empty list: the goroutine blocks); \<open>Release\<close> answers \<open>None\<close> where the receive would block.
  The goroutines of the process, each acquiring and later releasing, are a step relation.
\<close>

section \<open>The limiter\<close>

record Limiter =
  ch_cap :: nat
  ch_len :: nat

definition New :: "int \<Rightarrow> Limiter" where
  "New mx = \<lparr>ch_cap = nat (if mx \<le> 0 then 1 else mx), ch_len = 0\<rparr>"

definition Acquire ::
  "Limiter option \<Rightarrow> ctx_error option \<Rightarrow> (ctx_error option \<times> Limiter option) list" where
  "Acquire chan ctx =
     (case chan of
        None \<Rightarrow> [(None, None)]
      | Some l \<Rightarrow>
          (if ch_len l < ch_cap l then [(None, Some (l\<lparr>ch_len := ch_len l + 1\<rparr>))] else []) @
          (case ctx of None \<Rightarrow> [] | Some e \<Rightarrow> [(Some e, Some l)]))"

definition Release :: "Limiter option \<Rightarrow> Limiter option option" where
  "Release chan =
     (case chan of
        None \<Rightarrow> Some None
      | Some l \<Rightarrow> if ch_len l = 0 then None else Some (Some (l\<lparr>ch_len := ch_len l - 1\<rparr>)))"

lemma Acquire_ok:
  "(None, Some l') \<in> set (Acquire (Some l) ctx) \<longleftrightarrow>
     ch_len l < ch_cap l \<and> l' = l\<lparr>ch_len := ch_len l + 1\<rparr>"
  by (auto simp: Acquire_def split: option.splits)

lemma Acquire_err:
  "(Some e, x) \<in> set (Acquire (Some l) ctx) \<longleftrightarrow> ctx = Some e \<and> x = Some l"
  by (auto simp: Acquire_def split: option.splits)

lemma Release_ok:
  "Release (Some l) = Some (Some l') \<longleftrightarrow> 0 < ch_len l \<and> l' = l\<lparr>ch_len := ch_len l - 1\<rparr>"
  by (auto simp: Release_def)

section \<open>The interface of a counting semaphore\<close>

locale semaphore =
  fixes used :: "'l \<Rightarrow> nat" and cap :: "'l \<Rightarrow> nat"
    and acq :: "'l \<Rightarrow> 'l \<Rightarrow> bool" and rel :: "'l \<Rightarrow> 'l \<Rightarrow> bool"
  assumes acq_used: "acq l l' \<Longrightarrow> used l' = Suc (used l) \<and> used l < cap l \<and> cap l' = cap l"
    and acq_free: "used l < cap l \<Longrightarrow> \<exists>l'. acq l l'"
    and rel_used: "rel l l' \<Longrightarrow> used l = Suc (used l') \<and> cap l' = cap l"
    and rel_held: "0 < used l \<Longrightarrow> \<exists>l'. rel l l'"
begin

text \<open>The holders are counted by the semaphore and fit in it.\<close>

definition counts :: "'l \<Rightarrow> 'i set \<Rightarrow> bool" where
  "counts l H \<longleftrightarrow> finite H \<and> card H = used l \<and> used l \<le> cap l"

lemma counts_acq: "counts l H \<Longrightarrow> acq l l' \<Longrightarrow> i \<notin> H \<Longrightarrow> counts l' (insert i H)"
  using acq_used [of l l'] by (auto simp: counts_def)

lemma counts_rel: "counts l H \<Longrightarrow> rel l l' \<Longrightarrow> i \<in> H \<Longrightarrow> counts l' (H - {i})"
  using rel_used [of l l'] by (auto simp: counts_def)

lemma counts_can_release: "counts l H \<Longrightarrow> i \<in> H \<Longrightarrow> \<exists>l'. rel l l'"
  using card_gt_0_iff [of H] by (intro rel_held) (auto simp: counts_def)

lemma counts_can_acquire: "counts l H \<Longrightarrow> card H < cap l \<Longrightarrow> \<exists>l'. acq l l'"
  by (rule acq_free) (simp add: counts_def)

lemma counts_bound: "counts l H \<Longrightarrow> card H \<le> cap l"
  by (simp add: counts_def)

end

definition acquires :: "Limiter \<Rightarrow> Limiter \<Rightarrow> bool" where
  "acquires l l' \<longleftrightarrow> (None, Some l') \<in> set (Acquire (Some l) None)"

definition releases :: "Limiter \<Rightarrow> Limiter \<Rightarrow> bool" where
  "releases l l' \<longleftrightarrow> Release (Some l) = Some (Some l')"

interpretation lim: semaphore ch_len ch_cap acquires releases
  by unfold_locales (auto simp: acquires_def releases_def Acquire_ok Release_ok)

section \<open>The goroutines of the process\<close>

text \<open>
  Every goroutine that synthesises goes through the same phases: it waits in \<open>Acquire\<close>
  under its context, then holds a slot until its deferred \<open>Release\<close>; a done context makes the
  wait fail.
\<close>

datatype phase = Idle | Waiting | Holding | Refused | Finished

record procs =
  limit :: Limiter
  phase :: "nat \<Rightarrow> phase"

definition start_procs :: "int \<Rightarrow> procs" where
  "start_procs mx = \<lparr>limit = New mx, phase = (\<lambda>_. Idle)\<rparr>"

inductive slot_step :: "procs \<Rightarrow> procs \<Rightarrow> bool" where
  request: "phase s i = Idle \<Longrightarrow> slot_step s (s\<lparr>phase := (phase s)(i := Waiting)\<rparr>)"
| admit: "phase s i = Waiting \<Longrightarrow> (None, Some l) \<in> set (Acquire (Some (limit s)) ctx) \<Longrightarrow>
    slot_step s (s\<lparr>limit := l, phase := (phase s)(i := Holding)\<rparr>)"
| refuse: "phase s i = Waiting \<Longrightarrow> (Some e, Some l) \<in> set (Acquire (Some (limit s)) ctx) \<Longrightarrow>
    slot_step s (s\<lparr>limit := l, phase := (phase s)(i := Refused)\<rparr>)"
| release: "phase s i = Holding \<Longrightarrow> Release (Some (limit s)) = Some (Some l) \<Longrightarrow>
    slot_step s (s\<lparr>limit := l, phase := (phase s)(i := Finished)\<rparr>)"

inductive slot_reach :: "int \<Rightarrow> procs \<Rightarrow> bool" for mx where
  slot_start: "slot_reach mx (start_procs mx)"
| slot_next: "slot_reach mx s \<Longrightarrow> slot_step s t \<Longrightarrow> slot_reach mx t"

inductive_cases slot_stepE: "slot_step s t"

definition holders :: "procs \<Rightarrow> nat set" where
  "holders s = {i. phase s i = Holding}"

definition slots_ok :: "int \<Rightarrow> procs \<Rightarrow> bool" where
  "slots_ok mx s \<longleftrightarrow> lim.counts (limit s) (holders s) \<and> ch_cap (limit s) = ch_cap (New mx)"

lemma slots_ok_start: "slots_ok mx (start_procs mx)"
  by (simp add: slots_ok_def start_procs_def holders_def lim.counts_def New_def)

lemma slots_ok_step: "slot_step s t \<Longrightarrow> slots_ok mx s \<Longrightarrow> slots_ok mx t"
proof (induction rule: slot_step.induct)
  case (request s i)
  then have "holders (s\<lparr>phase := (phase s)(i := Waiting)\<rparr>) = holders s" by (auto simp: holders_def)
  then show ?case using request by (simp add: slots_ok_def)
next
  case (admit s i l ctx)
  then have "acquires (limit s) l" by (simp add: acquires_def Acquire_ok)
  moreover have "holders (s\<lparr>limit := l, phase := (phase s)(i := Holding)\<rparr>) = insert i (holders s)"
    by (auto simp: holders_def)
  ultimately show ?case
    using admit lim.counts_acq [of "limit s" "holders s" l i] lim.acq_used [of "limit s" l]
    by (simp add: slots_ok_def holders_def)
next
  case (refuse s i e l ctx)
  then have "l = limit s" by (simp add: Acquire_err)
  moreover have "holders (s\<lparr>limit := l, phase := (phase s)(i := Refused)\<rparr>) = holders s"
    using refuse by (auto simp: holders_def)
  ultimately show ?case using refuse by (simp add: slots_ok_def)
next
  case (release s i l)
  then have "releases (limit s) l" by (simp add: releases_def)
  moreover have "holders (s\<lparr>limit := l, phase := (phase s)(i := Finished)\<rparr>) = holders s - {i}"
    by (auto simp: holders_def)
  ultimately show ?case
    using release lim.counts_rel [of "limit s" "holders s" l i] lim.rel_used [of "limit s" l]
    by (simp add: slots_ok_def holders_def)
qed

lemma slots_ok_reach: "slot_reach mx s \<Longrightarrow> slots_ok mx s"
  by (induction rule: slot_reach.induct) (auto intro: slots_ok_start slots_ok_step)

text \<open>
  C20: never more than \<open>MAX_CONCURRENT_SYNTHESIS\<close> goroutines (one if that is not positive) hold a
  slot at a time, and the channel holds exactly one token per holder.
\<close>

theorem synthesis_bounded:
  assumes "slot_reach mx s"
  shows "finite (holders s) \<and> card (holders s) \<le> (if mx \<le> 0 then 1 else nat mx) \<and>
    ch_len (limit s) = card (holders s)"
proof -
  have ok: "lim.counts (limit s) (holders s)" and c: "ch_cap (limit s) = ch_cap (New mx)"
    using slots_ok_reach [OF assms] by (simp_all add: slots_ok_def)
  show ?thesis using lim.counts_bound [OF ok] ok c by (auto simp: lim.counts_def New_def)
qed

lemma one_admitted:
  "slot_reach 2 (start_procs 2\<lparr>limit := \<lparr>ch_cap = 2, ch_len = 1\<rparr>, phase := (\<lambda>_. Idle)(7 := Holding)\<rparr>)"
proof -
  let ?s0 = "start_procs 2"
  let ?s1 = "?s0\<lparr>phase := (phase ?s0)(7 := Waiting)\<rparr>"
  let ?s2 = "?s1\<lparr>limit := \<lparr>ch_cap = 2, ch_len = 1\<rparr>, phase := (phase ?s1)(7 := Holding)\<rparr>"
  have "slot_step ?s0 ?s1" by (rule slot_step.request) (simp add: start_procs_def)
  then have 1: "slot_reach 2 ?s1" by (rule slot_next [OF slot_start])
  have "slot_step ?s1 ?s2"
    by (rule slot_step.admit [where ctx = None]) (simp_all add: start_procs_def New_def Acquire_def)
  with 1 have "slot_reach 2 ?s2" by (rule slot_next)
  then show ?thesis by (simp add: start_procs_def)
qed

lemma synthesis_bounded_witness:
  "card (holders (start_procs 2\<lparr>limit := \<lparr>ch_cap = 2, ch_len = 1\<rparr>, phase := (\<lambda>_. Idle)(7 := Holding)\<rparr>)) \<le> 2"
  using synthesis_bounded [OF one_admitted] by simp

text \<open>
  C21: the limiter neither leaks nor deadlocks: in every reachable state the deferred
  \<open>Release\<close> of a holder returns at once, and a waiting goroutine can be admitted
  whenever fewer goroutines hold a slot than the limit allows.
\<close>

theorem synthesis_no_leak:
  assumes "slot_reach mx s"
  shows "(phase s i = Holding \<longrightarrow> (\<exists>l. Release (Some (limit s)) = Some (Some l) \<and>
      slot_step s (s\<lparr>limit := l, phase := (phase s)(i := Finished)\<rparr>))) \<and>
    (phase s i = Waiting \<and> card (holders s) < (if mx \<le> 0 then 1 else nat mx) \<longrightarrow>
      (\<exists>l. slot_step s (s\<lparr>limit := l, phase := (phase s)(i := Holding)\<rparr>)))"
proof -
  have ok: "lim.counts (limit s) (holders s)" and c: "ch_cap (limit s) = ch_cap (New mx)"
    using slots_ok_reach [OF assms] by (simp_all add: slots_ok_def)
  show ?thesis
  proof (intro conjI impI)
    assume h: "phase s i = Holding"
    then obtain l where "releases (limit s) l"
      using lim.counts_can_release [OF ok, of i] by (auto simp: holders_def)
    then show "\<exists>l. Release (Some (limit s)) = Some (Some l) \<and>
        slot_step s (s\<lparr>limit := l, phase := (phase s)(i := Finished)\<rparr>)"
      using h by (auto simp: releases_def intro: slot_step.release)
  next
    assume w: "phase s i = Waiting \<and> card (holders s) < (if mx \<le> 0 then 1 else nat mx)"
    then have "card (holders s) < ch_cap (limit s)" by (auto simp: c New_def split: if_splits)
    then obtain l where "acquires (limit s) l" using lim.counts_can_acquire [OF ok] by auto
    then show "\<exists>l. slot_step s (s\<lparr>limit := l, phase := (phase s)(i := Holding)\<rparr>)"
      using w by (auto simp: acquires_def intro: slot_step.admit)
  qed
qed

lemma synthesis_no_leak_witness:
  "\<exists>l. Release (Some \<lparr>ch_cap = 2, ch_len = 1\<rparr>) = Some (Some l)"
  using synthesis_no_leak [OF one_admitted, of 7] by auto

end
