(* ===== verification/Http.thy ===== *)
theory Http
  imports World
begin

text \<open>
  HTTP as the handlers see it: the parts of \<open>net/http\<close>'s request the program reads, the response
  it writes, and \<open>http.Error\<close>.  The routing of chi leaves the path parameters in \<open>rq_param\<close>;
  the body is the first JSON value a decoder finds in it (\<open>None\<close> when there is none).  The
  authenticated user travels in the request's context (\<open>auth/middleware.go\<close>), as do the scopes the
  generated wrappers set; \<open>rq_flusher\<close> tells whether the response writer can be flushed.
\<close>

record User =
  ID :: uuid
  Username :: string

record request =
  rq_method :: string
  rq_path :: string
  rq_header :: "string \<Rightarrow> string"
  rq_cookie :: "string \<Rightarrow> string option"
  rq_query :: "string \<Rightarrow> string list"
  rq_rawQuery :: string
  rq_param :: "string \<Rightarrow> string"
  rq_body :: doc
  rq_user :: "User option"
  rq_scopes :: "string list option"
  rq_flusher :: bool

text \<open>\<open>Streamed\<close> is a body whose pieces are in the world's output as they were written.\<close>

datatype body = Empty | Text string | Doc json | Bytes "byte list" | Streamed

record response =
  rs_code :: int
  rs_header :: "(string \<times> string) list"
  rs_body :: body

type_synonym 'v handler = "request \<Rightarrow> ('v, response) io"

definition http_error :: "string \<Rightarrow> int \<Rightarrow> response" where
  "http_error msg code =
     \<lparr>rs_code = code,
      rs_header = [(''Content-Type'', ''text/plain; charset=utf-8''), (''X-Content-Type-Options'', ''nosniff'')],
      rs_body = Text (msg @ [CHR 0x0A])\<rparr>"

text \<open>
  A handler that returns without writing leaves the status 0, as the metrics see it; \<open>net/http\<close> then
  sends 200 with an empty body.
\<close>

definition no_response :: response where
  "no_response = \<lparr>rs_code = 0, rs_header = [], rs_body = Empty\<rparr>"

text \<open>\<open>writeJSON\<close> of \<open>handler/server.go\<close>; a value that cannot be encoded leaves the body empty.\<close>

definition writeJSON :: "int \<Rightarrow> json option \<Rightarrow> response" where
  "writeJSON code v =
     \<lparr>rs_code = code, rs_header = [(''Content-Type'', ''application/json'')],
      rs_body = (case v of None \<Rightarrow> Empty | Some j \<Rightarrow> Doc j)\<rparr>"

definition set_header :: "string \<Rightarrow> string \<Rightarrow> response \<Rightarrow> response" where
  "set_header k v r = r\<lparr>rs_header := (k, v) # rs_header r\<rparr>"

lemma rs_code_simps [simp]:
  "rs_code (http_error m c) = c" "rs_code no_response = 0" "rs_code (writeJSON c v) = c"
  "rs_code (set_header k x r) = rs_code r"
  by (simp_all add: http_error_def no_response_def writeJSON_def set_header_def)

text \<open>\<open>auth.UserFromContext\<close> and \<open>auth.WithUser\<close>.\<close>

definition UserFromContext :: "request \<Rightarrow> User option" where
  "UserFromContext r = rq_user r"

definition WithUser :: "request \<Rightarrow> User \<Rightarrow> request" where
  "WithUser r u = r\<lparr>rq_user := Some u\<rparr>"

definition OptionalUserID :: "request \<Rightarrow> uuid" where
  "OptionalUserID r =
     (case UserFromContext r of
        Some u \<Rightarrow> ID u
      | None \<Rightarrow> ''00000000-0000-0000-0000-000000000000'')"

text \<open>Encoding of a struct field: \<open>omitempty\<close> drops a zero value.\<close>

definition field :: "string \<Rightarrow> json \<Rightarrow> (string \<times> json) list" where
  "field k v = [(k, v)]"

definition field_if :: "bool \<Rightarrow> string \<Rightarrow> json \<Rightarrow> (string \<times> json) list" where
  "field_if b k v = (if b then [(k, v)] else [])"

definition request0 :: request where
  "request0 = \<lparr>rq_method = ''GET'', rq_path = ''/'', rq_header = (\<lambda>_. []), rq_cookie = (\<lambda>_. None),
     rq_query = (\<lambda>_. []), rq_rawQuery = [], rq_param = (\<lambda>_. []), rq_body = None, rq_user = None, rq_scopes = None, rq_flusher = True\<rparr>"

end
