(* ===== verification/RateLimit.thy ===== *)
theory RateLimit
  imports Http
begin

text \<open>
  \<open>api/internal/ratelimit\<close> (per-user quotas kept in Valkey with overrides in Postgres), the quota
  handlers and the operator gate of \<open>handler/rate_limit.go\<close>, and the middleware of
  \<open>cmd/api/main.go\<close> that applies the quota to a request.
\<close>

section \<open>Quotas and their store\<close>

record Limits =
  RPM :: int
  RPH :: int
  RPD :: int

definition limits0 :: Limits where
  "limits0 = \<lparr>RPM = 0, RPH = 0, RPD = 0\<rparr>"

definition valid :: "Limits \<Rightarrow> bool" where
  "valid l \<longleftrightarrow> RPM l > 0 \<and> RPH l > 0 \<and> RPD l > 0"

definition enc_limits :: "Limits \<Rightarrow> json" where
  "enc_limits l = JObj [(''rpm'', JInt (RPM l)), (''rph'', JInt (RPH l)), (''rpd'', JInt (RPD l))]"

definition limits_step :: "Limits \<Rightarrow> string \<Rightarrow> json \<Rightarrow> Limits option" where
  "limits_step l k v =
     (if key_is ''rpm'' k then map_option (\<lambda>n. l\<lparr>RPM := n\<rparr>) (dec_int (RPM l) v)
      else if key_is ''rph'' k then map_option (\<lambda>n. l\<lparr>RPH := n\<rparr>) (dec_int (RPH l) v)
      else if key_is ''rpd'' k then map_option (\<lambda>n. l\<lparr>RPD := n\<rparr>) (dec_int (RPD l) v)
      else Some l)"

text \<open>\<open>st_redis\<close> and \<open>st_pool\<close>: the client and the pool are configured (not nil).\<close>

record Store =
  st_redis :: bool
  st_pool :: bool
  st_defaults :: Limits

definition NewStore :: "bool \<Rightarrow> bool \<Rightarrow> Limits \<Rightarrow> Store" where
  "NewStore redis pool defaults = \<lparr>st_redis = redis, st_pool = pool, st_defaults = defaults\<rparr>"

definition cacheKey :: "uuid \<Rightarrow> string" where
  "cacheKey userID = ''rlcfg:'' @ userID"

definition Defaults :: "Store \<Rightarrow> Limits" where
  "Defaults st = st_defaults st"

text \<open>The statements on \<open>user_rate_limits\<close>; its columns are positive 32-bit integers.\<close>

definition select_limits :: "uuid \<Rightarrow> db \<Rightarrow> (pg_error + Limits) \<times> db" where
  "select_limits uid d =
     (case user_rate_limits d uid of
        None \<Rightarrow> (Inl NoRows, d)
      | Some r \<Rightarrow> (Inr \<lparr>RPM = rl_rpm r, RPH = rl_rph r, RPD = rl_rpd r\<rparr>, d))"

definition int4 :: "int \<Rightarrow> bool" where
  "int4 n \<longleftrightarrow> - (2 ^ 31) \<le> n \<and> n < 2 ^ 31"

definition upsert_limits :: "uuid \<Rightarrow> Limits \<Rightarrow> db \<Rightarrow> (pg_error + unit) \<times> db" where
  "upsert_limits uid l d =
     (if int4 (RPM l) \<and> int4 (RPH l) \<and> int4 (RPD l) \<and> valid l \<and> has_user d uid
      then (Inr (), d\<lparr>user_rate_limits :=
              (user_rate_limits d)(uid \<mapsto> \<lparr>rl_rpm = RPM l, rl_rph = RPH l, rl_rpd = RPD l\<rparr>)\<rparr>)
      else (Inl Constraint, d))"

definition delete_limits :: "uuid \<Rightarrow> db \<Rightarrow> (pg_error + unit) \<times> db" where
  "delete_limits uid d = (Inr (), d\<lparr>user_rate_limits := (user_rate_limits d)(uid := None)\<rparr>)"

definition cache :: "'v env \<Rightarrow> Store \<Rightarrow> uuid \<Rightarrow> Limits \<Rightarrow> ('v, error option) io" where
  "cache E st userID lims =
     (if \<not> st_redis st then ret None
      else do {
        ok \<leftarrow> ext (vk_set E (cacheKey userID) (Some (enc_limits lims)) (5 * 60 * second));
        ret (if ok then None else Some VkError)
      })"

definition cached_limits :: "get_reply \<Rightarrow> (error + Limits) option" where
  "cached_limits r =
     (case r of
        Hit raw \<Rightarrow>
          (case unmarshal limits_step limits0 raw of
             Some lims \<Rightarrow> if valid lims then Some (Inr lims) else None
           | None \<Rightarrow> None)
      | Nil_reply \<Rightarrow> None
      | Get_failed \<Rightarrow> Some (Inl VkError))"

definition Effective :: "'v env \<Rightarrow> Store \<Rightarrow> uuid \<Rightarrow> ('v, error + Limits \<times> bool) io" where
  "Effective E st userID = do {
     hit \<leftarrow> (if st_redis st then do { r \<leftarrow> ext (vk_get E (cacheKey userID)); ret (cached_limits r) }
            else ret None);
     case hit of
       Some (Inr lims) \<Rightarrow> ret (Inr (lims, True))
     | Some (Inl err) \<Rightarrow> ret (Inl err)
     | None \<Rightarrow>
         if st_pool st then do {
           q \<leftarrow> pg (select_limits userID);
           case q of
             Inr lims \<Rightarrow> do { _ \<leftarrow> cache E st userID lims; ret (Inr (lims, True)) }
           | Inl err \<Rightarrow>
               if err \<noteq> NoRows then ret (Inl (PgError err)) else ret (Inr (st_defaults st, False))
         }
         else ret (Inr (st_defaults st, False))
   }"

definition SetOverride :: "'v env \<Rightarrow> Store \<Rightarrow> uuid \<Rightarrow> Limits \<Rightarrow> ('v, error option) io" where
  "SetOverride E st userID lims =
     (if \<not> valid lims then ret (Some (Msg ''rpm, rph, and rpd must be positive''))
      else if \<not> st_pool st then ret (Some (Msg ''database not configured''))
      else do {
        q \<leftarrow> pg (upsert_limits userID lims);
        case q of
          Inl err \<Rightarrow> ret (Some (PgError err))
        | Inr _ \<Rightarrow> cache E st userID lims
      })"

definition ClearOverride :: "'v env \<Rightarrow> Store \<Rightarrow> uuid \<Rightarrow> ('v, error option) io" where
  "ClearOverride E st userID = do {
     e \<leftarrow> (if st_pool st then do {
             q \<leftarrow> pg (delete_limits userID);
             ret (case q of Inl err \<Rightarrow> Some (PgError err) | Inr _ \<Rightarrow> None)
           } else ret None);
     case e of
       Some err \<Rightarrow> ret (Some err)
     | None \<Rightarrow>
         if st_redis st then do { _ \<leftarrow> ext (vk_del E (cacheKey userID)); ret None }
         else ret None
   }"

section \<open>The limiter\<close>

definition minute_of :: "instant \<Rightarrow> int" where
  "minute_of t = tdiv (unix_seconds t) 60"

definition bucket :: "uuid \<Rightarrow> string \<Rightarrow> int \<Rightarrow> string" where
  "bucket uid w n = ''rl:'' @ uid @ w @ itoa n"

definition rate_keys :: "uuid \<Rightarrow> instant \<Rightarrow> string list" where
  "rate_keys uid t =
     [bucket uid '':m:'' (minute_of t),
      bucket uid '':h:'' (tdiv (unix_seconds t) 3600),
      bucket uid '':d:'' (tdiv (unix_seconds t) 86400)]"

definition expiries :: "duration list" where
  "expiries = [120 * second, 7200 * second, 172800 * second]"

text \<open>The loop over the replies: position, replies, limits and expiries in step.\<close>

fun check_incrs ::
  "instant \<Rightarrow> nat \<Rightarrow> int option list \<Rightarrow> int list \<Rightarrow> duration list \<Rightarrow> error + bool \<times> duration" where
  "check_incrs t i (cmd # cmds) (limit # limits) (expiry # exps) =
     (case cmd of
        None \<Rightarrow> Inl VkError
      | Some n \<Rightarrow>
          if n > limit
          then Inr (False, if i = 0 then (60 - second_of_minute t) * second else expiry)
          else check_incrs t (Suc i) cmds limits exps)"
| "check_incrs t i _ _ _ = Inr (True, 0)"

definition Allow :: "'v env \<Rightarrow> Store \<Rightarrow> uuid \<Rightarrow> ('v, error + bool \<times> duration) io" where
  "Allow E st userID = do {
     e \<leftarrow> Effective E st userID;
     case e of
       Inl err \<Rightarrow> ret (Inl err)
     | Inr (lims, _) \<Rightarrow> do {
         t \<leftarrow> now;
         (ok, incrs) \<leftarrow> ext (vk_pipe E (zip (rate_keys userID t) expiries));
         if \<not> ok then ret (Inl VkError)
         else ret (check_incrs t 0 incrs [RPM lims, RPH lims, RPD lims] expiries)
       }
   }"

definition RetryAfterHeader :: "duration \<Rightarrow> string" where
  "RetryAfterHeader d =
     (let d = (if d \<le> 0 then 60 * second else d) in itoa (int_of_f64 (dur_seconds d)))"

text \<open>\<open>rateLimitMiddleware\<close> of \<open>cmd/api/main.go\<close>; \<open>None\<close> is a nil limiter.\<close>

definition rateLimitMiddleware :: "'v env \<Rightarrow> Store option \<Rightarrow> 'v handler \<Rightarrow> 'v handler" where
  "rateLimitMiddleware E l next r =
     (case l of
        None \<Rightarrow> next r
      | Some st \<Rightarrow>
          (case UserFromContext r of
             None \<Rightarrow> next r
           | Some u \<Rightarrow> do {
               a \<leftarrow> Allow E st (ID u);
               case a of
                 Inl err \<Rightarrow> ret (http_error ''rate limit error'' 500)
               | Inr (allowed, retry) \<Rightarrow>
                   if \<not> allowed
                   then ret (set_header ''Retry-After'' (RetryAfterHeader retry)
                          (http_error ''rate limited'' 429))
                   else next r
             }))"

section \<open>The handlers\<close>

definition rateLimitResponse :: "string \<Rightarrow> Limits \<Rightarrow> string \<Rightarrow> bool \<Rightarrow> json" where
  "rateLimitResponse uid l source defaults =
     JObj (field_if (uid \<noteq> []) ''user_id'' (JStr uid) @ field ''rpm'' (JInt (RPM l)) @
       field ''rph'' (JInt (RPH l)) @ field ''rpd'' (JInt (RPD l)) @
       field ''source'' (JStr source) @ field_if defaults ''defaults'' (JBool True))"

definition writeRateLimit :: "'v env \<Rightarrow> uuid \<Rightarrow> Store \<Rightarrow> ('v, response) io" where
  "writeRateLimit E userID store = do {
     e \<leftarrow> Effective E store userID;
     case e of
       Inl err \<Rightarrow> ret (http_error ''error'' 500)
     | Inr (lims, override) \<Rightarrow>
         let src = (if override then ''override'' else ''default'')
         in ret (writeJSON 200 (Some (rateLimitResponse userID lims src False)))
   }"

definition GetAccountRateLimit :: "'v env \<Rightarrow> Store \<Rightarrow> 'v handler" where
  "GetAccountRateLimit E st r =
     (case UserFromContext r of
        None \<Rightarrow> ret (http_error ''unauthorized'' 401)
      | Some u \<Rightarrow> writeRateLimit E (ID u) st)"

definition AdminGetUserRateLimit :: "'v env \<Rightarrow> Store \<Rightarrow> 'v handler" where
  "AdminGetUserRateLimit E st r =
     (case uuid_parse E (rq_param r ''userId'') of
        None \<Rightarrow> ret (http_error ''bad request'' 400)
      | Some userID \<Rightarrow> writeRateLimit E userID st)"

text \<open>\<open>rateLimitRequest\<close> has the fields and tags of \<open>Limits\<close>, so it shares its decoder.\<close>

definition AdminSetUserRateLimit :: "'v env \<Rightarrow> Store \<Rightarrow> 'v handler" where
  "AdminSetUserRateLimit E st r =
     (case uuid_parse E (rq_param r ''userId'') of
        None \<Rightarrow> ret (http_error ''bad request'' 400)
      | Some userID \<Rightarrow>
          (case unmarshal limits_step limits0 (rq_body r) of
             None \<Rightarrow> ret (http_error ''bad request'' 400)
           | Some lims \<Rightarrow> do {
               e \<leftarrow> SetOverride E st userID lims;
               case e of
                 Some err \<Rightarrow> ret (http_error (Error E err) 400)
               | None \<Rightarrow> writeRateLimit E userID st
             }))"

definition AdminDeleteUserRateLimit :: "'v env \<Rightarrow> Store \<Rightarrow> 'v handler" where
  "AdminDeleteUserRateLimit E st r =
     (case uuid_parse E (rq_param r ''userId'') of
        None \<Rightarrow> ret (http_error ''bad request'' 400)
      | Some userID \<Rightarrow> do {
          e \<leftarrow> ClearOverride E st userID;
          case e of
            Some err \<Rightarrow> ret (http_error ''error'' 500)
          | None \<Rightarrow> ret (writeJSON 200 (Some (rateLimitResponse userID (Defaults st) ''default'' True)))
        })"

definition AdminMiddleware :: "string \<Rightarrow> 'v handler \<Rightarrow> 'v handler" where
  "AdminMiddleware adminKey next r =
     (if adminKey = [] then ret (http_error ''admin API not configured'' 501)
      else
        let key = rq_header r ''X-Admin-Key'';
            h = rq_header r ''Authorization'';
            key = (if key = [] \<and> has_prefix h ''Bearer '' then trim_prefix h ''Bearer '' else key)
        in if key \<noteq> adminKey then ret (http_error ''unauthorized'' 401) else next r)"

section \<open>Codec and statements\<close>

lemma limits_keys [simp]:
  "\<not> key_is ''rpm'' ''rph''" "\<not> key_is ''rpm'' ''rpd''" "\<not> key_is ''rph'' ''rpd''"
  by (simp_all add: key_is_def has_prefix_def upper_def)

lemma unmarshal_enc_limits:
  "unmarshal limits_step limits0 (Some (enc_limits l)) =
     (if in_int64 (RPM l) \<and> in_int64 (RPH l) \<and> in_int64 (RPD l) then Some l else None)"
  by (simp add: enc_limits_def limits_step_def limits0_def)

lemma int4_in_int64: "int4 n \<Longrightarrow> in_int64 n"
  by (simp add: int4_def in_int64_def)

lemma select_limits_readonly [simp]: "snd (select_limits uid d) = d"
  by (simp add: select_limits_def split: option.splits)

lemma cacheKey_inject [simp]: "cacheKey u = cacheKey v \<longleftrightarrow> u = v"
  by (simp add: cacheKey_def)

lemma counter_keys [simp]: "\<not> counter_key (cacheKey u)" "counter_key (bucket u w n)"
  by (simp_all add: counter_key_def cacheKey_def bucket_def)

lemma counter_rate_keys: "\<forall>k \<in> fst ` set (zip (rate_keys u t) expiries). counter_key k"
  by (simp add: rate_keys_def expiries_def)

lemma bucket_inject: "bucket u w m = bucket v w' n \<Longrightarrow> m = n \<and> u @ butlast w = v @ butlast w'"
  if "w \<noteq> []" "w' \<noteq> []" "last w = CHR '':''" "last w' = CHR '':''"
proof -
  assume e: "bucket u w m = bucket v w' n"
  have w: "w = butlast w @ [CHR '':'']" "w' = butlast w' @ [CHR '':'']"
    using that append_butlast_last_id by metis+
  have "(u @ butlast w) @ CHR '':'' # itoa m = (v @ butlast w') @ CHR '':'' # itoa n"
    using e w unfolding bucket_def by (metis append.assoc append_Cons append_Nil same_append_eq)
  from last_sep_inject [OF this] show ?thesis by simp
qed

lemma minute_bucket_inject: "bucket u '':m:'' m = bucket v '':m:'' n \<longleftrightarrow> u = v \<and> m = n"
  by (auto dest: bucket_inject [rotated 4])

lemma buckets_apart:
  "bucket u '':m:'' m \<noteq> bucket v '':h:'' n" "bucket u '':m:'' m \<noteq> bucket v '':d:'' n"
  "bucket u '':h:'' m \<noteq> bucket v '':d:'' n"
  by (auto dest!: bucket_inject [rotated 4])

lemma length_rate_keys [simp]: "length (rate_keys u t) = 3"
  by (simp add: rate_keys_def)

lemma distinct_rate_keys: "distinct (map fst (zip (rate_keys u t) expiries))"
  using buckets_apart by (simp add: rate_keys_def expiries_def)

section \<open>What the store answers\<close>

text \<open>
  \<open>rpm_within R u\<close>: no override of \<open>u\<close> in force, in the table or in the cache, allows more than
  \<open>R\<close> requests a minute.
\<close>

definition rpm_within ::
  "('v \<Rightarrow> string \<rightharpoonup> doc) \<Rightarrow> int \<Rightarrow> uuid \<Rightarrow> 'v world \<Rightarrow> bool" where
  "rpm_within view R u s \<longleftrightarrow>
     (\<forall>r. user_rate_limits (w_db s) u = Some r \<longrightarrow> rl_rpm r \<le> R) \<and>
     (\<forall>d l. view (w_ext s) (cacheKey u) = Some d \<longrightarrow> unmarshal limits_step limits0 d = Some l \<longrightarrow> RPM l \<le> R)"

lemma cached_limits_Inr:
  "cached_limits r = Some (Inr l) \<Longrightarrow> \<exists>d. r = Hit d \<and> unmarshal limits_step limits0 d = Some l \<and> valid l"
  by (auto simp: cached_limits_def split: get_reply.splits option.splits if_splits)

lemma w_db_after_cache [simp]: "w_db (after (cache E st u l) s) = w_db s"
  by (simp add: cache_def)

lemma w_clk_after_cache [simp]: "w_clk (after (cache E st u l) s) = w_clk s"
  by (simp add: cache_def)

lemma cnt_after_cache:
  assumes "vk_lawful E view cnt"
  shows "cnt (w_ext (after (cache E st u l) s)) = cnt (w_ext s)"
proof -
  obtain ok s' where v: "vk_set E (cacheKey u) (Some (enc_limits l)) (5 * 60 * second) (w_ext s) = (ok, s')"
    by (cases "vk_set E (cacheKey u) (Some (enc_limits l)) (5 * 60 * second) (w_ext s)")
  show ?thesis using vk_setD(1) [OF assms v] v by (simp add: cache_def)
qed

lemma rpm_within_cache:
  assumes "vk_lawful E view cnt" and "rpm_within view R u s" and "u' = u \<Longrightarrow> RPM l \<le> R"
  shows "rpm_within view R u (after (cache E st u' l) s)"
proof (cases "st_redis st")
  case True
  obtain ok s' where v: "vk_set E (cacheKey u') (Some (enc_limits l)) (5 * 60 * second) (w_ext s) = (ok, s')"
    by (cases "vk_set E (cacheKey u') (Some (enc_limits l)) (5 * 60 * second) (w_ext s)")
  note f = vk_setD(3) [OF assms(1) v]
  have "RPM l' \<le> R" if d: "view s' (cacheKey u) = Some d" and l': "unmarshal limits_step limits0 d = Some l'" for d l'
  proof -
    have "((view (w_ext s))(cacheKey u' \<mapsto> Some (enc_limits l))) (cacheKey u) = Some d \<or>
        view (w_ext s) (cacheKey u) = Some d"
      using f d by (blast dest: fadesD)
    then consider "u' = u" "d = Some (enc_limits l)" | "view (w_ext s) (cacheKey u) = Some d"
      by (cases "u' = u") auto
    then show ?thesis
    proof cases
      case 1
      then have "l' = l" using l' by (simp only: unmarshal_enc_limits) (simp split: if_splits)
      then show ?thesis using assms(3) 1 by simp
    next
      case 2
      then show ?thesis using assms(2) l' unfolding rpm_within_def by blast
    qed
  qed
  then show ?thesis using assms(2) True v by (simp add: rpm_within_def cache_def)
qed (use assms in \<open>simp add: cache_def\<close>)

lemma rpm_within_key:
  "rpm_within view R u s \<Longrightarrow> w_db s' = w_db s \<Longrightarrow>
     view (w_ext s') (cacheKey u) = None \<or> view (w_ext s') (cacheKey u) = view (w_ext s) (cacheKey u) \<Longrightarrow>
     rpm_within view R u s'"
  unfolding rpm_within_def by auto

lemma rpm_within_fades:
  "rpm_within view R u s \<Longrightarrow> w_db s' = w_db s \<Longrightarrow> fades (view (w_ext s)) (view (w_ext s')) \<Longrightarrow>
     rpm_within view R u s'"
  unfolding rpm_within_def using fadesD [of "view (w_ext s)" "view (w_ext s')" "cacheKey u"] by auto

text \<open>\<open>Effective\<close> is a look in the cache and, when that decides nothing, one in the table.\<close>

definition lookup_cached :: "'v env \<Rightarrow> Store \<Rightarrow> uuid \<Rightarrow> ('v, (error + Limits) option) io" where
  "lookup_cached E st u =
     (if st_redis st then do { r \<leftarrow> ext (vk_get E (cacheKey u)); ret (cached_limits r) } else ret None)"

definition lookup_table :: "'v env \<Rightarrow> Store \<Rightarrow> uuid \<Rightarrow> ('v, error + Limits \<times> bool) io" where
  "lookup_table E st u =
     (if st_pool st then do {
        q \<leftarrow> pg (select_limits u);
        case q of
          Inr l \<Rightarrow> do { _ \<leftarrow> cache E st u l; ret (Inr (l, True)) }
        | Inl err \<Rightarrow>
            if err \<noteq> NoRows then ret (Inl (PgError err)) else ret (Inr (st_defaults st, False))
      }
      else ret (Inr (st_defaults st, False)))"

lemma Effective_eq:
  "Effective E st u = do {
     hit \<leftarrow> lookup_cached E st u;
     case hit of
       Some (Inr l) \<Rightarrow> ret (Inr (l, True))
     | Some (Inl err) \<Rightarrow> ret (Inl err)
     | None \<Rightarrow> lookup_table E st u
   }"
  unfolding Effective_def lookup_cached_def lookup_table_def by (rule refl)

lemma lookup_cached_frame:
  assumes "vk_lawful E view cnt"
  shows "w_db (after (lookup_cached E st u) s) = w_db s" and "w_clk (after (lookup_cached E st u) s) = w_clk s" and "w_orc (after (lookup_cached E st u) s) = w_orc s"
    and "cnt (w_ext (after (lookup_cached E st u) s)) = cnt (w_ext s)" and "fades (view (w_ext s)) (view (w_ext (after (lookup_cached E st u) s)))"
    and "result (lookup_cached E st u) s = Some (Inr l) \<Longrightarrow>
      \<exists>d. view (w_ext s) (cacheKey u) = Some d \<and> unmarshal limits_step limits0 d = Some l \<and> valid l"
proof -
  obtain r v where g: "vk_get E (cacheKey u) (w_ext s) = (r, v)"
    by (cases "vk_get E (cacheKey u) (w_ext s)")
  show "w_db (after (lookup_cached E st u) s) = w_db s" and "w_clk (after (lookup_cached E st u) s) = w_clk s" and "w_orc (after (lookup_cached E st u) s) = w_orc s"
    and "cnt (w_ext (after (lookup_cached E st u) s)) = cnt (w_ext s)" and "fades (view (w_ext s)) (view (w_ext (after (lookup_cached E st u) s)))"
    using vk_getD(1,2) [OF assms(1) g] g by (simp_all add: lookup_cached_def)
  show "result (lookup_cached E st u) s = Some (Inr l) \<Longrightarrow>
      \<exists>d. view (w_ext s) (cacheKey u) = Some d \<and> unmarshal limits_step limits0 d = Some l \<and> valid l"
    using vk_getD(5) [OF assms(1) g] g
    by (auto simp: lookup_cached_def dest!: cached_limits_Inr split: if_splits)
qed

lemma lookup_table_frame:
  assumes "vk_lawful E view cnt"
  shows "w_db (after (lookup_table E st u) s) = w_db s" and "w_clk (after (lookup_table E st u) s) = w_clk s"
    and "cnt (w_ext (after (lookup_table E st u) s)) = cnt (w_ext s)"
    and "result (lookup_table E st u) s = Inr (l, b) \<Longrightarrow>
      b \<and> (\<exists>r. user_rate_limits (w_db s) u = Some r \<and> l = \<lparr>RPM = rl_rpm r, RPH = rl_rph r, RPD = rl_rpd r\<rparr>)
      \<or> \<not> b \<and> l = st_defaults st"
    and "rpm_within view R u' s \<Longrightarrow> rpm_within view R u' (after (lookup_table E st u) s)"
proof -
  let ?q = "result (pg (select_limits u)) s" and ?t = "after (pg (select_limits u)) s"
  have t: "w_db ?t = w_db s" "w_clk ?t = w_clk s" "w_ext ?t = w_ext s" by (simp_all add: pg_readonly)
  have q: "?q = Inr l \<Longrightarrow> \<exists>r. user_rate_limits (w_db s) u = Some r \<and>
      l = \<lparr>RPM = rl_rpm r, RPH = rl_rph r, RPD = rl_rpd r\<rparr>" for l
    by (auto simp: result_pg select_limits_def split: if_splits option.splits)
  show "w_db (after (lookup_table E st u) s) = w_db s" and "w_clk (after (lookup_table E st u) s) = w_clk s" and "cnt (w_ext (after (lookup_table E st u) s)) = cnt (w_ext s)"
    using t by (auto simp: lookup_table_def cnt_after_cache [OF assms(1)] split: sum.splits)
  show "result (lookup_table E st u) s = Inr (l, b) \<Longrightarrow>
      b \<and> (\<exists>r. user_rate_limits (w_db s) u = Some r \<and> l = \<lparr>RPM = rl_rpm r, RPH = rl_rph r, RPD = rl_rpd r\<rparr>)
      \<or> \<not> b \<and> l = st_defaults st"
    using q by (auto simp: lookup_table_def split: if_splits sum.splits)
  show "rpm_within view R u' (after (lookup_table E st u) s)" if w: "rpm_within view R u' s"
  proof -
    have wt: "rpm_within view R u' ?t" using w t by (simp add: rpm_within_def)
    have "rpm_within view R u' (after (cache E st u l) ?t)" if "?q = Inr l" for l
    proof (rule rpm_within_cache [OF assms(1) wt])
      show "u = u' \<Longrightarrow> RPM l \<le> R" using q [OF that] w by (auto simp: rpm_within_def)
    qed
    then show ?thesis using w wt by (auto simp: lookup_table_def split: sum.splits)
  qed
qed

lemma Effective_frame:
  assumes "vk_lawful E view cnt"
  shows "w_db (after (Effective E st u) s) = w_db s" and "w_clk (after (Effective E st u) s) = w_clk s"
    and "cnt (w_ext (after (Effective E st u) s)) = cnt (w_ext s)"
    and "rpm_within view R u' s \<Longrightarrow> rpm_within view R u' (after (Effective E st u) s)"
    and "rpm_within view R u s \<Longrightarrow> RPM (st_defaults st) \<le> R \<Longrightarrow>
      result (Effective E st u) s = Inr (l, b) \<Longrightarrow> RPM l \<le> R"
proof -
  let ?r = "result (lookup_cached E st u) s" and ?t = "after (lookup_cached E st u) s"
  note c = lookup_cached_frame [OF assms(1), where st=st and u=u and s=s] and
    t = lookup_table_frame [OF assms(1), where st=st and u=u and s="?t"]
  show "w_db (after (Effective E st u) s) = w_db s" and "w_clk (after (Effective E st u) s) = w_clk s" and "cnt (w_ext (after (Effective E st u) s)) = cnt (w_ext s)"
    using c(1-4) t(1-3) by (auto simp: Effective_eq split: option.splits sum.splits)
  have w: "rpm_within view R u' s \<Longrightarrow> rpm_within view R u' ?t" for u'
    using rpm_within_fades [OF _ c(1,5)] by blast
  then show "rpm_within view R u' s \<Longrightarrow> rpm_within view R u' (after (Effective E st u) s)"
    using t(5) by (auto simp: Effective_eq split: option.splits sum.splits)
  assume a: "rpm_within view R u s" "RPM (st_defaults st) \<le> R" "result (Effective E st u) s = Inr (l, b)"
  have "?r = Some (Inr l) \<or> ?r = None \<and> result (lookup_table E st u) ?t = Inr (l, b)"
    using a(3) by (auto simp: Effective_eq split: option.splits sum.splits)
  then show "RPM l \<le> R"
  proof
    assume "?r = Some (Inr l)"
    then show ?thesis using c(6) a(1) unfolding rpm_within_def by blast
  next
    assume "?r = None \<and> result (lookup_table E st u) ?t = Inr (l, b)"
    then show ?thesis using t(4) [of l b] a(1,2) c(1) by (auto simp: rpm_within_def)
  qed
qed

lemma SetOverride_frame:
  assumes "vk_lawful E view cnt"
  shows "cnt (w_ext (after (SetOverride E st u l) s)) = cnt (w_ext s)"
    and "w_clk (after (SetOverride E st u l) s) = w_clk s"
    and "rpm_within view R u' s \<Longrightarrow> (u = u' \<Longrightarrow> RPM l \<le> R) \<Longrightarrow>
      rpm_within view R u' (after (SetOverride E st u l) s)"
proof -
  let ?t = "after (pg (upsert_limits u l)) s"
  show "cnt (w_ext (after (SetOverride E st u l) s)) = cnt (w_ext s)"
    and "w_clk (after (SetOverride E st u l) s) = w_clk s"
    by (auto simp: SetOverride_def cnt_after_cache [OF assms] split: sum.splits)
  assume w: "rpm_within view R u' s" and l: "u = u' \<Longrightarrow> RPM l \<le> R"
  have wt: "rpm_within view R u' ?t"
    using w l by (auto simp: rpm_within_def w_db_after_pg upsert_limits_def)
  then show "rpm_within view R u' (after (SetOverride E st u l) s)"
    using w rpm_within_cache [OF assms wt, of u l st] l
    by (auto simp: SetOverride_def split: sum.splits)
qed

lemma ClearOverride_frame:
  assumes "vk_lawful E view cnt"
  shows "cnt (w_ext (after (ClearOverride E st u) s)) = cnt (w_ext s)"
    and "w_clk (after (ClearOverride E st u) s) = w_clk s"
    and "rpm_within view R u' s \<Longrightarrow> rpm_within view R u' (after (ClearOverride E st u) s)"
proof -
  let ?t = "after (pg (delete_limits u)) s"
  obtain ok v where d: "vk_del E (cacheKey u) (w_ext s) = (ok, v)" by (cases "vk_del E (cacheKey u) (w_ext s)")
  note f = vk_delD(1,2) [OF assms d]
  show "cnt (w_ext (after (ClearOverride E st u) s)) = cnt (w_ext s)"
    and "w_clk (after (ClearOverride E st u) s) = w_clk s"
    using d f by (auto simp: ClearOverride_def split: sum.splits)
  assume w: "rpm_within view R u' s"
  have wt: "rpm_within view R u' ?t" using w by (simp add: rpm_within_def w_db_after_pg delete_limits_def)
  have "rpm_within view R u' (?t\<lparr>w_ext := v\<rparr>)" "rpm_within view R u' (s\<lparr>w_ext := v\<rparr>)"
    using rpm_within_fades [OF wt, of "?t\<lparr>w_ext := v\<rparr>"] rpm_within_fades [OF w, of "s\<lparr>w_ext := v\<rparr>"] f
    by simp_all
  then show "rpm_within view R u' (after (ClearOverride E st u) s)"
    using w wt d by (auto simp: ClearOverride_def split: sum.splits)
qed

section \<open>What the limiter decides\<close>

abbreviation "minute_key u t \<equiv> bucket u '':m:'' (minute_of t)"
abbreviation "hour_key u t \<equiv> bucket u '':h:'' (tdiv (unix_seconds t) 3600)"
abbreviation "day_key u t \<equiv> bucket u '':d:'' (tdiv (unix_seconds t) 86400)"

text \<open>The state in which the counters are bumped, and the pipeline's answer there.\<close>

definition allow_pipe :: "'v env \<Rightarrow> Store \<Rightarrow> uuid \<Rightarrow> 'v world \<Rightarrow> (bool \<times> int option list) \<times> 'v" where
  "allow_pipe E st u s =
     vk_pipe E (zip (rate_keys u (w_clk s 0)) expiries) (w_ext (after (Effective E st u) s))"

lemma Allow_run:
  assumes "vk_lawful E view cnt"
  shows "result (Effective E st u) s = Inl err \<Longrightarrow>
      result (Allow E st u) s = Inl err \<and> after (Allow E st u) s = after (Effective E st u) s"
    and "result (Effective E st u) s = Inr (l, b) \<Longrightarrow>
      result (Allow E st u) s =
        (let ((ok, incrs), _) = allow_pipe E st u s
         in if ok then check_incrs (w_clk s 0) 0 incrs [RPM l, RPH l, RPD l] expiries else Inl VkError)"
    and "result (Effective E st u) s = Inr (l, b) \<Longrightarrow>
      after (Allow E st u) s =
        (after (Effective E st u) s)\<lparr>w_clk := (\<lambda>n. w_clk s (Suc n)), w_ext := snd (allow_pipe E st u s)\<rparr>"
  using Effective_frame(2) [OF assms, of st u s]
  by (simp_all add: Allow_def allow_pipe_def split: prod.splits)

lemma allow_pipe_ok:
  assumes "vk_lawful E view cnt" and "allow_pipe E st u s = ((True, incrs), v)"
  shows "incrs = map (\<lambda>k. Some (cnt (w_ext s) k + 1)) (rate_keys u (w_clk s 0))"
    and "cnt v = (\<lambda>k. if k \<in> set (rate_keys u (w_clk s 0)) then cnt (w_ext s) k + 1 else cnt (w_ext s) k)"
proof -
  let ?ks = "rate_keys u (w_clk s 0)"
  have z: "fst ` set (zip ?ks expiries) = set ?ks" by (simp add: rate_keys_def expiries_def)
  have m: "map (\<lambda>p. Some (c (fst p) + 1)) (zip ?ks expiries) = map (\<lambda>k. Some (c k + 1)) ?ks"
    for c :: "string \<Rightarrow> int" by (simp add: rate_keys_def expiries_def)
  note p = vk_pipeD [OF assms(1) assms(2) [unfolded allow_pipe_def] distinct_rate_keys counter_rate_keys]
  show "incrs = map (\<lambda>k. Some (cnt (w_ext s) k + 1)) ?ks"
    using p(1) unfolding m Effective_frame(3) [OF assms(1)] .
  show "cnt v = (\<lambda>k. if k \<in> set ?ks then cnt (w_ext s) k + 1 else cnt (w_ext s) k)"
    using p(2) unfolding z Effective_frame(3) [OF assms(1)] .
qed

lemma Allow_decides:
  assumes "vk_lawful E view cnt"
    and "result (Effective E st u) s = Inr (l, b)" and "allow_pipe E st u s = ((True, incrs), v)"
  shows "result (Allow E st u) s =
    Inr (if cnt (w_ext s) (minute_key u (w_clk s 0)) \<ge> RPM l
         then (False, (60 - second_of_minute (w_clk s 0)) * second)
         else if cnt (w_ext s) (hour_key u (w_clk s 0)) \<ge> RPH l then (False, 7200 * second)
         else if cnt (w_ext s) (day_key u (w_clk s 0)) \<ge> RPD l then (False, 172800 * second)
         else (True, 0))"
    and "cnt (w_ext (after (Allow E st u) s)) =
      (\<lambda>k. if k \<in> {minute_key u (w_clk s 0), hour_key u (w_clk s 0), day_key u (w_clk s 0)}
            then cnt (w_ext s) k + 1 else cnt (w_ext s) k)"
  using assms(3) allow_pipe_ok [OF assms(1,3)]
  by (simp_all add: Allow_run(2,3) [OF assms(1,2)] rate_keys_def expiries_def)

lemma Allow_frame:
  assumes "vk_lawful E view cnt"
  shows "cnt (w_ext s) k \<le> cnt (w_ext (after (Allow E st u) s)) k"
    and "rpm_within view R u' s \<Longrightarrow> rpm_within view R u' (after (Allow E st u) s)"
proof -
  obtain r v where p: "allow_pipe E st u s = (r, v)" by (cases "allow_pipe E st u s")
  note m = vk_pipe_mono [OF assms(1) p [unfolded allow_pipe_def] counter_rate_keys]
  show "cnt (w_ext s) k \<le> cnt (w_ext (after (Allow E st u) s)) k"
  proof (cases "result (Effective E st u) s")
    case (Inl err)
    then show ?thesis by (simp add: Allow_run(1) [OF assms] Effective_frame(3) [OF assms])
  next
    case (Inr x)
    then have "after (Allow E st u) s =
        (after (Effective E st u) s)\<lparr>w_clk := (\<lambda>n. w_clk s (Suc n)), w_ext := v\<rparr>"
      using Allow_run(3) [OF assms, of st u s "fst x" "snd x"] p by simp
    then show ?thesis using m(1) by (simp add: Effective_frame(3) [OF assms])
  qed
  show "rpm_within view R u' (after (Allow E st u) s)" if w: "rpm_within view R u' s"
  proof (cases "result (Effective E st u) s")
    case (Inl err)
    then show ?thesis using w by (simp add: Allow_run(1) [OF assms] Effective_frame(4) [OF assms])
  next
    case (Inr x)
    then have a: "after (Allow E st u) s =
        (after (Effective E st u) s)\<lparr>w_clk := (\<lambda>n. w_clk s (Suc n)), w_ext := v\<rparr>"
      using Allow_run(3) [OF assms, of st u s "fst x" "snd x"] p by simp
    show ?thesis
      by (rule rpm_within_key [OF Effective_frame(4) [OF assms w, of st u]])
        (use m(2) [of "cacheKey u'"] a in simp_all)
  qed
qed

section \<open>Sequences of calls\<close>

text \<open>
  Requests of any users and changes of overrides, in any order; the trace holds, for each
  request, its user, the minute in which it was counted and whether it was let through.
\<close>

datatype rl_op = Do_allow uuid | Do_set uuid Limits | Do_clear uuid

definition let_through :: "error + bool \<times> duration \<Rightarrow> bool" where
  "let_through r = (case r of Inl _ \<Rightarrow> False | Inr (ok, _) \<Rightarrow> ok)"

fun rl_run :: "'v env \<Rightarrow> Store \<Rightarrow> rl_op list \<Rightarrow> ('v, (uuid \<times> int \<times> bool) list) io" where
  "rl_run E st [] = ret []"
| "rl_run E st (Do_allow u # ops) = do {
     m \<leftarrow> gets (\<lambda>s. minute_of (w_clk s 0));
     r \<leftarrow> Allow E st u;
     rest \<leftarrow> rl_run E st ops;
     ret ((u, m, let_through r) # rest)
   }"
| "rl_run E st (Do_set u l # ops) = do { _ \<leftarrow> SetOverride E st u l; rl_run E st ops }"
| "rl_run E st (Do_clear u # ops) = do { _ \<leftarrow> ClearOverride E st u; rl_run E st ops }"

definition admitted :: "uuid \<Rightarrow> int \<Rightarrow> (uuid \<times> int \<times> bool) list \<Rightarrow> nat" where
  "admitted u m tr = length (filter (\<lambda>(u', m', ok). u' = u \<and> m' = m \<and> ok) tr)"

lemma admitted_Cons:
  "admitted u m ((u', m', ok) # tr) = (if u' = u \<and> m' = m \<and> ok then 1 else 0) + admitted u m tr"
  by (simp add: admitted_def)

lemma let_through_counted:
  assumes "vk_lawful E view cnt" and "let_through (result (Allow E st u) s)"
    and "rpm_within view R u s" and "RPM (st_defaults st) \<le> R"
  defines "k \<equiv> minute_key u (w_clk s 0)"
  shows "cnt (w_ext s) k < R" and "cnt (w_ext (after (Allow E st u) s)) k = cnt (w_ext s) k + 1"
proof -
  obtain l b where e: "result (Effective E st u) s = Inr (l, b)"
    using assms(2) Allow_run(1) [OF assms(1), of st u s]
    by (cases "result (Effective E st u) s") (auto simp: let_through_def)
  obtain ok incrs v where p: "allow_pipe E st u s = ((ok, incrs), v)" by (metis surj_pair)
  have ok: "ok" using assms(2) by (auto simp: let_through_def Allow_run(2) [OF assms(1) e] p split: if_splits)
  then have p': "allow_pipe E st u s = ((True, incrs), v)" using p by simp
  have "cnt (w_ext s) k < RPM l"
    using assms(2) by (simp add: let_through_def Allow_decides(1) [OF assms(1) e p'] k_def split: if_splits)
  then show "cnt (w_ext s) k < R"
    using Effective_frame(5) [OF assms(1,3,4) e] by simp
  show "cnt (w_ext (after (Allow E st u) s)) k = cnt (w_ext s) k + 1"
    by (simp add: Allow_decides(2) [OF assms(1) e p'] k_def)
qed

text \<open>
  C7: A user is let through at most as often in one minute as the largest per-minute quota in
  force allows (less what had been counted before), however requests of all users and changes of
  overrides are interleaved and whichever calls to Postgres and Valkey fail.
\<close>

theorem minute_quota_holds:
  assumes "vk_lawful E view cnt"
    and "RPM (st_defaults st) \<le> R" and "rpm_within view R u s"
    and "\<forall>l. Do_set u l \<in> set ops \<longrightarrow> RPM l \<le> R"
  shows "int (admitted u m (result (rl_run E st ops) s)) \<le> max 0 (R - cnt (w_ext s) (bucket u '':m:'' m))"
  using assms(3,4)
proof (induction ops arbitrary: s)
  case (Cons x ops)
  let ?k = "bucket u '':m:'' m"
  show ?case
  proof (cases x)
    case (Do_set u' l)
    have w: "rpm_within view R u (after (SetOverride E st u' l) s)"
      by (rule SetOverride_frame(3) [OF assms(1) Cons.prems(1)]) (use Cons.prems(2) Do_set in auto)
    show ?thesis using Cons.IH [OF w] Cons.prems(2) Do_set SetOverride_frame(1) [OF assms(1)] by simp
  next
    case (Do_clear u')
    show ?thesis
      using Cons.IH [OF ClearOverride_frame(3) [OF assms(1) Cons.prems(1)]] Cons.prems(2) Do_clear
        ClearOverride_frame(1) [OF assms(1)] by simp
  next
    case (Do_allow u')
    let ?s' = "after (Allow E st u') s" and ?m = "minute_of (w_clk s 0)"
    let ?a = "let_through (result (Allow E st u') s)"
    have ih: "int (admitted u m (result (rl_run E st ops) ?s')) \<le> max 0 (R - cnt (w_ext ?s') ?k)"
      using Cons.IH [OF Allow_frame(2) [OF assms(1) Cons.prems(1)]] Cons.prems(2) by simp
    have run: "result (rl_run E st (x # ops)) s = (u', ?m, ?a) # result (rl_run E st ops) ?s'"
      using Do_allow by simp
    show ?thesis
    proof (cases "u' = u \<and> ?m = m \<and> ?a")
      case True
      then have "cnt (w_ext s) ?k < R" "cnt (w_ext ?s') ?k = cnt (w_ext s) ?k + 1"
        using let_through_counted [OF assms(1) _ _ assms(2), of u s] Cons.prems(1) by auto
      then show ?thesis using ih True unfolding run admitted_Cons by simp
    next
      case False
      have "cnt (w_ext s) ?k \<le> cnt (w_ext ?s') ?k" by (rule Allow_frame(1) [OF assms(1)])
      then show ?thesis using ih False unfolding run admitted_Cons by auto
    qed
  qed
qed (simp add: admitted_def)

definition store0 :: Store where
  "store0 = NewStore True True \<lparr>RPM = 2, RPH = 10, RPD = 20\<rparr>"

theorem minute_quota_holds_witness:
  "int (admitted ''u'' 0 (result (rl_run mem_env store0
     [Do_allow ''u'', Do_allow ''v'', Do_allow ''u'', Do_clear ''u'', Do_allow ''u'']) world0)) \<le> max 0 (2 - 0)"
  using minute_quota_holds [OF mem_lawful, of store0 2 "''u''" world0
     "[Do_allow ''u'', Do_allow ''v'', Do_allow ''u'', Do_clear ''u'', Do_allow ''u'']" 0]
  by (simp add: store0_def NewStore_def rpm_within_def world0_def empty_db_def mem0_def)

text \<open>
  C26: When the quota and the counters can be read, a request is refused exactly if one of its three
  windows already holds as many requests as the quota allows, the minute being looked at first; and
  it is counted in all three windows whether it is let through or refused.
\<close>

theorem allow_decision:
  assumes "vk_lawful E view cnt"
    and "result (Effective E st u) s = Inr (l, b)" and "allow_pipe E st u s = ((True, incrs), v)"
  defines "t \<equiv> w_clk s 0" and "c \<equiv> cnt (w_ext s)"
  shows "result (Allow E st u) s =
      Inr (if c (minute_key u t) \<ge> RPM l then (False, (60 - second_of_minute t) * second)
           else if c (hour_key u t) \<ge> RPH l then (False, 7200 * second)
           else if c (day_key u t) \<ge> RPD l then (False, 172800 * second)
           else (True, 0))
    \<and> cnt (w_ext (after (Allow E st u) s)) =
      (\<lambda>k. if k \<in> {minute_key u t, hour_key u t, day_key u t} then c k + 1 else c k)"
  unfolding t_def c_def using Allow_decides [OF assms(1-3)] by blast

theorem allow_decision_witness:
  "result (Allow mem_env store0 ''u'') world0 = Inr (True, 0)
   \<and> m_counts (w_ext (after (Allow mem_env store0 ''u'') world0)) (minute_key ''u'' 0) = 1"
proof -
  have e: "result (Effective mem_env store0 ''u'') world0 = Inr (st_defaults store0, False)"
    by (simp add: Effective_def store0_def NewStore_def mem_env_def world0_def mem0_def cached_limits_def
        result_pg select_limits_def empty_db_def)
  have up: "w_ext (after (Effective mem_env store0 ''u'') world0) = mem_step mem0"
    by (simp add: Effective_def store0_def NewStore_def mem_env_def world0_def mem0_def cached_limits_def
        result_pg select_limits_def empty_db_def)
  obtain incrs v where p: "allow_pipe mem_env store0 ''u'' world0 = ((True, incrs), v)"
    by (simp add: allow_pipe_def up mem_pipe mem0_def mem_step_def)
  show ?thesis using allow_decision [OF mem_lawful e p]
    by (simp add: world0_def mem0_def store0_def NewStore_def)
qed

text \<open>
  The refusals: a request over the minute quota is told to retry after the 1 to 60 seconds left
  of the minute, one over the hour or day quota after the fixed two hours or two days; the header is
  never zero, negative or fractional.
\<close>

lemma retry_after_header:
  assumes "vk_lawful E view cnt"
    and "result (Allow E st u) s = Inr (False, d)"
  shows "\<exists>n. RetryAfterHeader d = itoa n \<and> (1 \<le> n \<and> n \<le> 60 \<or> n = 7200 \<or> n = 172800)"
proof -
  obtain l b where e: "result (Effective E st u) s = Inr (l, b)"
    using assms(2) Allow_run(1) [OF assms(1), of st u s] by (cases "result (Effective E st u) s") auto
  obtain ok incrs v where p: "allow_pipe E st u s = ((ok, incrs), v)" by (metis surj_pair)
  have "ok" using assms(2) by (auto simp: Allow_run(2) [OF assms(1) e] p split: if_splits)
  then have p': "allow_pipe E st u s = ((True, incrs), v)" using p by simp
  have "\<exists>n. d = n * second \<and> (1 \<le> n \<and> n \<le> 60 \<or> n = 7200 \<or> n = 172800)"
    using assms(2) second_of_minute_bounds [of "w_clk s 0"]
    by (auto simp: Allow_decides(1) [OF assms(1) e p'] split: if_splits)
  then obtain n where n: "d = n * second" "1 \<le> n \<and> n \<le> 60 \<or> n = 7200 \<or> n = 172800" by blast
  have "dur_seconds d = Fin (of_int n)" using n by (auto intro!: dur_seconds_whole)
  moreover have "0 < d" using n by (auto simp: second_def)
  ultimately have "RetryAfterHeader d = itoa n"
    using n(2) by (auto simp: RetryAfterHeader_def in_int64_def)
  then show ?thesis using n(2) by blast
qed

text \<open>
  Withdrawing an override is reported as done although the cached copy could not be deleted;
  requests are then still judged by the withdrawn quota for as long as the copy is visible.
\<close>

theorem cleared_override_still_effective:
  assumes "st_redis st" and "st_pool st" and "w_orc s 0 = 0" and "valid l"
    and "unmarshal limits_step limits0 d = Some l"
    and "vk_del E (cacheKey u) (w_ext s) = (False, v)" and "fst (vk_get E (cacheKey u) v) = Hit d"
  shows "result (ClearOverride E st u) s = None
    \<and> user_rate_limits (w_db (after (ClearOverride E st u) s)) u = None
    \<and> result (Effective E st u) (after (ClearOverride E st u) s) = Inr (l, True)"
  using assms by (simp add: ClearOverride_def result_pg w_db_after_pg delete_limits_def Effective_def cached_limits_def)

theorem cleared_override_still_effective_witness:
  "\<exists>s. result (ClearOverride mem_env store0 ''u'') s = None
    \<and> result (Effective mem_env store0 ''u'') (after (ClearOverride mem_env store0 ''u'') s) =
        Inr (\<lparr>RPM = 5, RPH = 6, RPD = 7\<rparr>, True)"
proof -
  let ?l = "\<lparr>RPM = 5, RPH = 6, RPD = 7\<rparr>"
  let ?m = "mem0\<lparr>m_keys := [cacheKey ''u'' \<mapsto> Some (enc_limits ?l)], m_down := (\<lambda>n. n = 0)\<rparr>"
  let ?s = "world0\<lparr>w_ext := ?m\<rparr>"
  have "result (ClearOverride mem_env store0 ''u'') ?s = None
    \<and> user_rate_limits (w_db (after (ClearOverride mem_env store0 ''u'') ?s)) ''u'' = None
    \<and> result (Effective mem_env store0 ''u'') (after (ClearOverride mem_env store0 ''u'') ?s) = Inr (?l, True)"
    by (rule cleared_override_still_effective [where d = "Some (enc_limits ?l)" and v = "mem_step ?m"])
      (simp_all only: unmarshal_enc_limits, simp_all add: store0_def NewStore_def world0_def valid_def in_int64_def
        mem_env_def mem_step_def)
  then show ?thesis by blast
qed

end
