(* ===== verification/ReadThrough.thy ===== *)
theory ReadThrough
  imports Prelude
begin

text \<open>
  The contract of a read-through cache, which the wallet cache and the quota store share: a value
  is answered from the copies the tiers show or from the origin, reading changes the origin not at
  all and shows nothing that was neither shown nor in the origin.  Its clients get: as long as the
  copies agree with the origin, every successful read answers the origin, and they go on agreeing.
\<close>

locale read_through =
  fixes lawful :: bool
    and shown :: "'s \<Rightarrow> 'a set"
    and origin :: "'s \<Rightarrow> 'a option"
    and read :: "('s, 'e + 'a) state"
  assumes answer: "lawful \<Longrightarrow> result read s = Inr x \<Longrightarrow> x \<in> shown s \<or> origin s = Some x"
    and origin_kept: "lawful \<Longrightarrow> origin (after read s) = origin s"
    and shown_kept: "lawful \<Longrightarrow> x \<in> shown (after read s) \<Longrightarrow> x \<in> shown s \<or> origin s = Some x"
begin

definition coherent :: "'s \<Rightarrow> bool" where
  "coherent s \<longleftrightarrow> (\<forall>x \<in> shown s. origin s = Some x)"

lemma coherent_answer: "lawful \<Longrightarrow> coherent s \<Longrightarrow> result read s = Inr x \<Longrightarrow> origin s = Some x"
  using answer [of s x] unfolding coherent_def by blast

lemma coherent_read: "lawful \<Longrightarrow> coherent s \<Longrightarrow> coherent (after read s)"
  using shown_kept origin_kept unfolding coherent_def by metis

lemma coherent_if_empty: "shown s = {} \<Longrightarrow> coherent s"
  by (simp add: coherent_def)

lemma reads_agree:
  "lawful \<Longrightarrow> coherent s \<Longrightarrow> Inr x \<in> set (result (repeat_io n read) s) \<Longrightarrow> origin s = Some x"
proof (induction n arbitrary: s)
  case (Suc n)
  from Suc.prems(3) consider "result read s = Inr x" | "Inr x \<in> set (result (repeat_io n read) (after read s))"
    by auto
  then show ?case
  proof cases
    case 1
    then show ?thesis using coherent_answer Suc.prems by simp
  next
    case 2
    then show ?thesis
      using Suc.IH [OF Suc.prems(1) coherent_read [OF Suc.prems(1,2)]] origin_kept [OF Suc.prems(1)] by simp
  qed
qed simp

text \<open>Without coherence a success is still one of the values shown or the origin's.\<close>

lemma reads_known:
  "lawful \<Longrightarrow> Inr x \<in> set (result (repeat_io n read) s) \<Longrightarrow> x \<in> shown s \<or> origin s = Some x"
proof (induction n arbitrary: s)
  case (Suc n)
  from Suc.prems(2) consider "result read s = Inr x" | "Inr x \<in> set (result (repeat_io n read) (after read s))"
    by auto
  then show ?case
  proof cases
    case 1
    then show ?thesis using answer [OF Suc.prems(1)] by simp
  next
    case 2
    then have "x \<in> shown (after read s) \<or> origin (after read s) = Some x"
      by (rule Suc.IH [OF Suc.prems(1)])
    then show ?thesis using shown_kept [OF Suc.prems(1)] origin_kept [OF Suc.prems(1)] by auto
  qed
qed simp

end

end
