(* ===== verification/Quota.thy ===== *)
theory Quota
  imports RateLimit ReadThrough
begin

text \<open>
  What the store of \<open>api/internal/ratelimit/store.go\<close> promises its callers: it reads through the cached
  copy to the table, which is the contract of \<open>ReadThrough\<close>, and, however the
  calls of concurrent changes, look-ups and requests interleave, it refines a register that holds the
  quotas a user may be answered.
\<close>

section \<open>The store as a read-through cache\<close>

text \<open>
  The store reads through: the copy in the cache, read as \<open>Effective\<close> reads it, over the table
  with its defaults.
\<close>

definition shown_quota :: "('v \<Rightarrow> string \<rightharpoonup> doc) \<Rightarrow> Store \<Rightarrow> uuid \<Rightarrow> 'v world \<Rightarrow> (Limits \<times> bool) set" where
  "shown_quota view st u s =
     {(l, True) | l d. st_redis st \<and> view (w_ext s) (cacheKey u) = Some d
        \<and> unmarshal limits_step limits0 d = Some l \<and> valid l}"

definition quota_of :: "Store \<Rightarrow> uuid \<Rightarrow> db \<Rightarrow> (Limits \<times> bool) option" where
  "quota_of st u d =
     (case (if st_pool st then user_rate_limits d u else None) of
        Some r \<Rightarrow> Some (\<lparr>RPM = rl_rpm r, RPH = rl_rph r, RPD = rl_rpd r\<rparr>, True)
      | None \<Rightarrow> Some (st_defaults st, False))"

lemma shown_quota_fades:
  "x \<in> shown_quota view st u s' \<Longrightarrow> fades (view (w_ext s)) (view (w_ext s')) \<Longrightarrow> x \<in> shown_quota view st u s"
  unfolding shown_quota_def by (auto dest: fadesD)

lemma shown_quota_cache:
  assumes "vk_lawful E view cnt" and "x \<in> shown_quota view st u' (after (cache E st u l) s)"
  shows "x \<in> shown_quota view st u' s \<or> u' = u \<and> x = (l, True)"
proof (cases "st_redis st")
  case True
  obtain ok v where k: "vk_set E (cacheKey u) (Some (enc_limits l)) (5 * 60 * second) (w_ext s) = (ok, v)"
    by (cases "vk_set E (cacheKey u) (Some (enc_limits l)) (5 * 60 * second) (w_ext s)")
  obtain l' d where x: "x = (l', True)" and d: "view v (cacheKey u') = Some d"
    and l': "unmarshal limits_step limits0 d = Some l'" "valid l'"
    using assms(2) True k by (auto simp: shown_quota_def cache_def)
  have "((view (w_ext s))(cacheKey u \<mapsto> Some (enc_limits l))) (cacheKey u') = Some d
      \<or> view (w_ext s) (cacheKey u') = Some d"
    using vk_setD(3) [OF assms(1) k] d by (blast dest: fadesD)
  then consider "u' = u" "d = Some (enc_limits l)" | "view (w_ext s) (cacheKey u') = Some d"
    by (cases "u' = u") auto
  then show ?thesis
  proof cases
    case 1
    then have "l' = l" using l'(1) by (simp only: unmarshal_enc_limits) (simp split: if_splits)
    then show ?thesis using x 1 by simp
  next
    case 2
    then show ?thesis using x l' True by (auto simp: shown_quota_def)
  qed
qed (use assms(2) in \<open>simp add: shown_quota_def\<close>)

lemma lookup_table_read:
  assumes "vk_lawful E view cnt"
  shows "result (lookup_table E st u) s = Inr x \<Longrightarrow> quota_of st u (w_db s) = Some x"
    and "x \<in> shown_quota view st u' (after (lookup_table E st u) s) \<Longrightarrow>
      x \<in> shown_quota view st u' s \<or> u' = u \<and> quota_of st u (w_db s) = Some x"
proof -
  let ?q = "result (pg (select_limits u)) s" and ?t = "after (pg (select_limits u)) s"
  have q: "?q = Inr l \<Longrightarrow> st_pool st \<Longrightarrow> quota_of st u (w_db s) = Some (l, True)"
    and n: "?q = Inl NoRows \<Longrightarrow> user_rate_limits (w_db s) u = None" for l
    by (auto simp: result_pg select_limits_def quota_of_def split: if_splits option.splits)
  show "result (lookup_table E st u) s = Inr x \<Longrightarrow> quota_of st u (w_db s) = Some x"
    using q n by (auto simp: lookup_table_def quota_of_def split: if_splits sum.splits option.splits)
  have t: "shown_quota view st u' ?t = shown_quota view st u' s" by (simp add: shown_quota_def pg_readonly)
  assume "x \<in> shown_quota view st u' (after (lookup_table E st u) s)"
  then have "x \<in> shown_quota view st u' s
      \<or> (\<exists>l. st_pool st \<and> ?q = Inr l \<and> x \<in> shown_quota view st u' (after (cache E st u l) ?t))"
    using t by (auto simp: lookup_table_def split: if_splits sum.splits)
  then show "x \<in> shown_quota view st u' s \<or> u' = u \<and> quota_of st u (w_db s) = Some x"
    using shown_quota_cache [OF assms, of x st u' u _ ?t] t q by blast
qed

lemma Effective_read:
  assumes "vk_lawful E view cnt"
  shows "result (Effective E st u) s = Inr x \<Longrightarrow> x \<in> shown_quota view st u s \<or> quota_of st u (w_db s) = Some x"
    and "x \<in> shown_quota view st u' (after (Effective E st u) s) \<Longrightarrow>
      x \<in> shown_quota view st u' s \<or> u' = u \<and> quota_of st u (w_db s) = Some x"
proof -
  let ?h = "result (lookup_cached E st u) s" and ?t = "after (lookup_cached E st u) s"
  note c = lookup_cached_frame [OF assms, where st = st and u = u and s = s]
    and t = lookup_table_read [OF assms, where st = st and u = u and s = "?t"]
  note older = shown_quota_fades [OF _ c(5), where x = x and u = u' and st = st]
  have redis: "st_redis st" if "?h \<noteq> None" using that by (auto simp: lookup_cached_def split: if_splits)
  show "x \<in> shown_quota view st u s \<or> quota_of st u (w_db s) = Some x"
    if r: "result (Effective E st u) s = Inr x"
  proof -
    consider l where "?h = Some (Inr l)" "x = (l, True)" | "?h = None" "result (lookup_table E st u) ?t = Inr x"
      using r by (auto simp: Effective_eq split: option.splits sum.splits)
    then show ?thesis
    proof cases
      case 1
      then show ?thesis using c(6) [of "fst x"] redis by (auto simp: shown_quota_def)
    next
      case 2
      then show ?thesis using t(1) [of x] c(1) by simp
    qed
  qed
  assume "x \<in> shown_quota view st u' (after (Effective E st u) s)"
  then have "x \<in> shown_quota view st u' ?t \<or> x \<in> shown_quota view st u' (after (lookup_table E st u) ?t)"
    by (auto simp: Effective_eq split: option.splits sum.splits)
  then show "x \<in> shown_quota view st u' s \<or> u' = u \<and> quota_of st u (w_db s) = Some x"
    using t(2) [of x u'] older c(1) by auto
qed

interpretation quotas: read_through
  "vk_lawful E view cnt" "shown_quota view st u" "\<lambda>s. quota_of st u (w_db s)" "Effective E st u"
proof (unfold_locales, goal_cases)
  case (1 s x)
  then show ?case by (rule Effective_read(1))
next
  case (2 s)
  then show ?case using Effective_frame(1) by metis
next
  case (3 x s)
  then show ?case using Effective_read(2) by blast
qed

section \<open>Changes take effect\<close>

text \<open>
  A successful change of a user's quota leaves the copy and the table in agreement, so it is what
  every later look-up finds until the next change: each of any number of look-ups answers the new
  quota as an override or reports an error, never an older one.
\<close>

lemma override_coherent:
  assumes "vk_lawful E view cnt" and "st_pool st" and "result (SetOverride E st u l) s = None"
  shows "quota_of st u (w_db (after (SetOverride E st u l) s)) = Some (l, True)"
    and "quotas.coherent view st u (after (SetOverride E st u l) s)"
proof -
  let ?p = "pg (upsert_limits u l)"
  let ?t = "after ?p s" and ?s' = "after (SetOverride E st u l) s"
  have q: "result ?p s = Inr ()" and c: "result (cache E st u l) ?t = None"
    using assms(2,3) by (auto simp: SetOverride_def split: if_splits sum.splits)
  have s': "?s' = after (cache E st u l) ?t"
    using assms(2,3) q by (auto simp: SetOverride_def split: if_splits)
  have row: "int4 (RPM l)" "int4 (RPH l)" "int4 (RPD l)" "user_rate_limits (w_db ?t) u =
      Some \<lparr>rl_rpm = RPM l, rl_rph = RPH l, rl_rpd = RPD l\<rparr>"
    using q by (auto simp: result_pg w_db_after_pg upsert_limits_def split: if_splits)
  show o: "quota_of st u (w_db ?s') = Some (l, True)" using row(4) assms(2) by (simp add: s' quota_of_def)
  have dec: "unmarshal limits_step limits0 (Some (enc_limits l)) = Some l"
    using row(1-3) by (simp only: unmarshal_enc_limits int4_in_int64 simp_thms if_True)
  have "st_redis st \<Longrightarrow> view (w_ext ?s') (cacheKey u) = Some (Some (enc_limits l))"
    using c vk_setD(2) [OF assms(1) prod.collapse [symmetric]] by (auto simp: s' cache_def split: if_splits)
  then show "quotas.coherent view st u ?s'"
    unfolding quotas.coherent_def using o dec by (auto simp: shown_quota_def)
qed

lemma override_takes_effect:
  assumes "vk_lawful E view cnt" and "st_pool st" and "result (SetOverride E st u l) s = None"
    and "Inr x \<in> set (result (repeat_io n (Effective E st u)) (after (SetOverride E st u l) s))"
  shows "x = (l, True)"
  using quotas.reads_agree [OF assms(1) override_coherent(2) [OF assms(1-3)] assms(4)]
    override_coherent(1) [OF assms(1-3)] by simp

text \<open>
  A withdrawn override is gone at once where the cached copy was deleted: the defaults apply again.
\<close>

lemma cleared_override_is_gone:
  assumes "vk_lawful E view cnt" and "st_pool st" and "result (ClearOverride E st u) s = None"
    and "\<not> st_redis st \<or> view (w_ext (after (ClearOverride E st u) s)) (cacheKey u) = None"
    and "Inr x \<in> set (result (repeat_io n (Effective E st u)) (after (ClearOverride E st u) s))"
  shows "x = (st_defaults st, False)"
proof -
  let ?s' = "after (ClearOverride E st u) s"
  have "user_rate_limits (w_db ?s') u = None"
    using assms(2,3) by (auto simp: ClearOverride_def result_pg w_db_after_pg delete_limits_def split: sum.splits if_splits)
  then have "quota_of st u (w_db ?s') = Some (st_defaults st, False)" by (simp add: quota_of_def)
  moreover have "shown_quota view st u ?s' = {}" using assms(4) by (auto simp: shown_quota_def)
  then have "quotas.coherent view st u ?s'" by (simp add: quotas.coherent_def)
  ultimately show ?thesis using quotas.reads_agree [OF assms(1) _ assms(5)] by simp
qed

section \<open>Handlers that overlap\<close>

text \<open>
  Handlers run concurrently, and each of their calls to Postgres or Valkey is atomic, the handler is
  not.  A task is what is left of a call of the store: the store is about to read the copy, read the
  table, write the copy back, and so on.  A look-up for a request (\<open>True\<close>) goes on to count the
  request against the quota it found.
\<close>

datatype quota_op = Q_set uuid Limits | Q_clear uuid | Q_get uuid | Q_request uuid

datatype quota_task =
    Set_table uuid Limits
  | Set_cache uuid Limits
  | Clear_table uuid
  | Clear_cache uuid
  | Look_cache bool uuid
  | Look_table bool uuid
  | Look_fill bool uuid Limits
  | Count uuid "Limits \<times> bool"

datatype quota_answer =
    Was_set "error option"
  | Was_cleared "error option"
  | Found "error + Limits \<times> bool"
  | Judged "Limits \<times> bool" "error + bool \<times> duration"

fun start :: "quota_op \<Rightarrow> quota_task" where
  "start (Q_set u l) = Set_table u l"
| "start (Q_clear u) = Clear_table u"
| "start (Q_get u) = Look_cache False u"
| "start (Q_request u) = Look_cache True u"

definition found :: "bool \<Rightarrow> uuid \<Rightarrow> Limits \<times> bool \<Rightarrow> quota_task + quota_answer" where
  "found k u x = (if k then Inl (Count u x) else Inr (Found (Inr x)))"

text \<open>One step of a task: up to and with its next call, and what the code does with the reply.\<close>

fun task_step :: "'v env \<Rightarrow> Store \<Rightarrow> quota_task \<Rightarrow> ('v, quota_task + quota_answer) io" where
  "task_step E st (Set_table u lims) =
     (if \<not> valid lims then ret (Inr (Was_set (Some (Msg ''rpm, rph, and rpd must be positive''))))
      else if \<not> st_pool st then ret (Inr (Was_set (Some (Msg ''database not configured''))))
      else do {
        q \<leftarrow> pg (upsert_limits u lims);
        ret (case q of Inl err \<Rightarrow> Inr (Was_set (Some (PgError err))) | Inr _ \<Rightarrow> Inl (Set_cache u lims))
      })"
| "task_step E st (Set_cache u lims) = do {
     e \<leftarrow> cache E st u lims;
     ret (Inr (Was_set e))
   }"
| "task_step E st (Clear_table u) =
     (if \<not> st_pool st then ret (Inl (Clear_cache u))
      else do {
        q \<leftarrow> pg (delete_limits u);
        ret (case q of Inl err \<Rightarrow> Inr (Was_cleared (Some (PgError err))) | Inr _ \<Rightarrow> Inl (Clear_cache u))
      })"
| "task_step E st (Clear_cache u) =
     (if \<not> st_redis st then ret (Inr (Was_cleared None))
      else do { _ \<leftarrow> ext (vk_del E (cacheKey u)); ret (Inr (Was_cleared None)) })"
| "task_step E st (Look_cache k u) =
     (if \<not> st_redis st then ret (Inl (Look_table k u))
      else do {
        r \<leftarrow> ext (vk_get E (cacheKey u));
        ret (case cached_limits r of
               Some (Inr lims) \<Rightarrow> found k u (lims, True)
             | Some (Inl err) \<Rightarrow> Inr (Found (Inl err))
             | None \<Rightarrow> Inl (Look_table k u))
      })"
| "task_step E st (Look_table k u) =
     (if \<not> st_pool st then ret (found k u (st_defaults st, False))
      else do {
        q \<leftarrow> pg (select_limits u);
        ret (case q of
               Inr lims \<Rightarrow> Inl (Look_fill k u lims)
             | Inl err \<Rightarrow> if err \<noteq> NoRows then Inr (Found (Inl (PgError err))) else found k u (st_defaults st, False))
      })"
| "task_step E st (Look_fill k u lims) = do {
     _ \<leftarrow> cache E st u lims;
     ret (found k u (lims, True))
   }"
| "task_step E st (Count u x) = do {
     t \<leftarrow> now;
     (ok, incrs) \<leftarrow> ext (vk_pipe E (zip (rate_keys u t) expiries));
     ret (Inr (Judged x (if \<not> ok then Inl VkError
       else check_incrs t 0 incrs [RPM (fst x), RPH (fst x), RPD (fst x)] expiries)))
   }"

text \<open>A task that nothing interrupts is the code of the store: at most four calls.\<close>

fun task_alone :: "'v env \<Rightarrow> Store \<Rightarrow> nat \<Rightarrow> quota_task \<Rightarrow> ('v, quota_answer option) io" where
  "task_alone E st 0 t = ret None"
| "task_alone E st (Suc n) t = do {
     r \<leftarrow> task_step E st t;
     case r of Inl t' \<Rightarrow> task_alone E st n t' | Inr a \<Rightarrow> ret (Some a)
   }"

lemma set_alone:
  "result (task_alone E st 4 (start (Q_set u l))) s = Some (Was_set (result (SetOverride E st u l) s))"
  "after (task_alone E st 4 (start (Q_set u l))) s = after (SetOverride E st u l) s"
  by (simp_all add: SetOverride_def numeral_eq_Suc split: sum.splits)

lemma clear_alone:
  "result (task_alone E st 4 (start (Q_clear u))) s = Some (Was_cleared (result (ClearOverride E st u) s))"
  "after (task_alone E st 4 (start (Q_clear u))) s = after (ClearOverride E st u) s"
  by (simp_all add: ClearOverride_def numeral_eq_Suc split: sum.splits)

lemma count_alone:
  "result (task_alone E st (Suc n) (Count u x)) s =
     (let ((ok, incrs), _) = vk_pipe E (zip (rate_keys u (w_clk s 0)) expiries) (w_ext s)
      in Some (Judged x (if ok then check_incrs (w_clk s 0) 0 incrs [RPM (fst x), RPH (fst x), RPD (fst x)] expiries else Inl VkError)))"
  "after (task_alone E st (Suc n) (Count u x)) s =
     s\<lparr>w_clk := (\<lambda>n. w_clk s (Suc n)), w_ext := snd (vk_pipe E (zip (rate_keys u (w_clk s 0)) expiries) (w_ext s))\<rparr>"
  by (simp_all add: split_beta)

text \<open>A look-up that misses goes to the table.\<close>

lemma look_cache_alone:
  fixes E :: "'v env" and st :: Store and u :: uuid and s :: "'v world"
  defines "h \<equiv> result (lookup_cached E st u) s" and "t \<equiv> after (lookup_cached E st u) s"
  shows "h = None \<Longrightarrow> result (task_alone E st (Suc n) (Look_cache k u)) s = result (task_alone E st n (Look_table k u)) t"
    and "h = None \<Longrightarrow> after (task_alone E st (Suc n) (Look_cache k u)) s = after (task_alone E st n (Look_table k u)) t"
    and "h = Some (Inl e) \<Longrightarrow> result (task_alone E st (Suc n) (Look_cache k u)) s = Some (Found (Inl e))"
    and "h = Some (Inl e) \<Longrightarrow> after (task_alone E st (Suc n) (Look_cache k u)) s = t"
    and "h = Some (Inr l) \<Longrightarrow> result (task_alone E st (Suc n) (Look_cache False u)) s = Some (Found (Inr (l, True)))"
    and "h = Some (Inr l) \<Longrightarrow> after (task_alone E st (Suc n) (Look_cache False u)) s = t"
    and "h = Some (Inr l) \<Longrightarrow> result (task_alone E st (Suc n) (Look_cache True u)) s = result (task_alone E st n (Count u (l, True))) t"
    and "h = Some (Inr l) \<Longrightarrow> after (task_alone E st (Suc n) (Look_cache True u)) s = after (task_alone E st n (Count u (l, True))) t"
  unfolding h_def t_def by (auto simp: lookup_cached_def found_def split: if_splits)

lemma look_table_alone:
  fixes E :: "'v env" and st :: Store and u :: uuid and s :: "'v world"
  defines "r \<equiv> result (lookup_table E st u) s" and "t \<equiv> after (lookup_table E st u) s"
  shows "result (task_alone E st (Suc (Suc n)) (Look_table False u)) s = Some (Found r)"
    and "after (task_alone E st (Suc (Suc n)) (Look_table False u)) s = t"
    and "r = Inl e \<Longrightarrow> result (task_alone E st (Suc (Suc n)) (Look_table True u)) s = Some (Found r)"
    and "r = Inl e \<Longrightarrow> after (task_alone E st (Suc (Suc n)) (Look_table True u)) s = t"
    and "r = Inr x \<Longrightarrow> result (task_alone E st (Suc (Suc (Suc n))) (Look_table True u)) s = result (task_alone E st 1 (Count u x)) t"
    and "r = Inr x \<Longrightarrow> after (task_alone E st (Suc (Suc (Suc n))) (Look_table True u)) s = after (task_alone E st 1 (Count u x)) t"
  unfolding r_def t_def One_nat_def
  by (cases "st_pool st"; cases "result (pg (select_limits u)) s"; cases "result (pg (select_limits u)) s = Inl NoRows";
      simp add: lookup_table_def found_def split_beta)+

lemma get_alone:
  "result (task_alone E st 4 (start (Q_get u))) s = Some (Found (result (Effective E st u) s))"
  "after (task_alone E st 4 (start (Q_get u))) s = after (Effective E st u) s"
proof -
  let ?h = "result (lookup_cached E st u) s" and ?t = "after (lookup_cached E st u) s"
  consider "?h = None" | e where "?h = Some (Inl e)" | l where "?h = Some (Inr l)"
    by (cases ?h; cases "the ?h") auto
  then show "result (task_alone E st 4 (start (Q_get u))) s = Some (Found (result (Effective E st u) s))"
      and "after (task_alone E st 4 (start (Q_get u))) s = after (Effective E st u) s"
    by (cases; simp add: Effective_eq numeral_eq_Suc look_cache_alone look_table_alone del: task_alone.simps)+
qed

lemma request_alone:
  "result (task_alone E st 4 (start (Q_request u))) s =
     Some (case result (Effective E st u) s of Inl err \<Rightarrow> Found (Inl err) | Inr x \<Rightarrow> Judged x (result (Allow E st u) s))"
  "after (task_alone E st 4 (start (Q_request u))) s = after (Allow E st u) s"
proof -
  let ?h = "result (lookup_cached E st u) s" and ?t = "after (lookup_cached E st u) s"
  let ?goal = "result (task_alone E st 4 (start (Q_request u))) s =
      Some (case result (Effective E st u) s of Inl err \<Rightarrow> Found (Inl err) | Inr x \<Rightarrow> Judged x (result (Allow E st u) s))
    \<and> after (task_alone E st 4 (start (Q_request u))) s = after (Allow E st u) s"
  note run = Allow_def Effective_eq count_alone numeral_eq_Suc look_cache_alone look_table_alone Let_def split_beta
  consider "?h = None" | e where "?h = Some (Inl e)" | l where "?h = Some (Inr l)"
    by (cases ?h; cases "the ?h") auto
  then have ?goal
  proof cases
    case 1
    let ?r = "result (lookup_table E st u) ?t"
    show ?thesis
    proof (cases ?r)
      case (Inl e)
      then show ?thesis using 1 by (simp add: run del: task_alone.simps)
    next
      case (Inr x)
      then show ?thesis using 1 by (simp add: run del: task_alone.simps)
    qed
  qed (simp_all add: run del: task_alone.simps)
  then show "result (task_alone E st 4 (start (Q_request u))) s =
      Some (case result (Effective E st u) s of Inl err \<Rightarrow> Found (Inl err) | Inr x \<Rightarrow> Judged x (result (Allow E st u) s))"
    and "after (task_alone E st 4 (start (Q_request u))) s = after (Allow E st u) s" by blast+
qed

text \<open>
  A run: calls come in, each under a number of its own, and the tasks take their steps, in any order.
  What the callers see is when a call began and what it answered.
\<close>

datatype quota_move = Call nat quota_op | Step nat

datatype quota_event = Called nat quota_op | Returned nat quota_answer

fun quota_run ::
  "'v env \<Rightarrow> Store \<Rightarrow> (nat \<rightharpoonup> quota_task) \<Rightarrow> quota_move list \<Rightarrow> ('v, quota_event list) io" where
  "quota_run E st pool [] = ret []"
| "quota_run E st pool (Call i q # ms) =
     (case pool i of
        Some _ \<Rightarrow> quota_run E st pool ms
      | None \<Rightarrow> do {
          es \<leftarrow> quota_run E st (pool(i \<mapsto> start q)) ms;
          ret (Called i q # es)
        })"
| "quota_run E st pool (Step i # ms) =
     (case pool i of
        None \<Rightarrow> quota_run E st pool ms
      | Some t \<Rightarrow> do {
          r \<leftarrow> task_step E st t;
          case r of
            Inl t' \<Rightarrow> quota_run E st (pool(i \<mapsto> t')) ms
          | Inr a \<Rightarrow> do {
              es \<leftarrow> quota_run E st (pool(i := None)) ms;
              ret (Returned i a # es)
            }
        })"

section \<open>The register\<close>

text \<open>
  Per user the answers that are possible, and the calls in flight: a look-up, or a change with the
  values of the changes it overlapped.  A change makes its value possible from its call on.  A look-up
  answers a possible value.  An override that was set settles the register on its own value and those of
  the changes it overlapped, unless a look-up of the user is in flight: that one may have read an
  older quota and may still write it back.
\<close>

datatype in_flight = Looking uuid | Changing uuid "(Limits \<times> bool) set"

definition overlapping :: "uuid \<Rightarrow> (nat \<rightharpoonup> in_flight) \<Rightarrow> (Limits \<times> bool) set" where
  "overlapping u fl = \<Union> {X. Changing u X \<in> ran fl}"

fun overlaps :: "uuid \<Rightarrow> Limits \<times> bool \<Rightarrow> in_flight \<Rightarrow> in_flight" where
  "overlaps u x (Changing u' X) = Changing u' (if u' = u then insert x X else X)"
| "overlaps u x (Looking u') = Looking u'"

definition change_called ::
  "uuid \<Rightarrow> Limits \<times> bool \<Rightarrow> nat \<Rightarrow> (nat \<rightharpoonup> in_flight) \<Rightarrow> (nat \<rightharpoonup> in_flight)" where
  "change_called u x i fl =
     (\<lambda>j. map_option (overlaps u x) (fl j))(i \<mapsto> Changing u (insert x (overlapping u fl)))"

fun register_allows ::
  "Limits \<Rightarrow> (uuid \<Rightarrow> (Limits \<times> bool) set) \<Rightarrow> (nat \<rightharpoonup> in_flight) \<Rightarrow> quota_event list \<Rightarrow> bool" where
  "register_allows dflt reg fl [] \<longleftrightarrow> True"
| "register_allows dflt reg fl (Called i (Q_set u l) # es) \<longleftrightarrow>
     register_allows dflt (reg(u := insert (l, True) (reg u))) (change_called u (l, True) i fl) es"
| "register_allows dflt reg fl (Called i (Q_clear u) # es) \<longleftrightarrow>
     register_allows dflt (reg(u := insert (dflt, False) (reg u))) (change_called u (dflt, False) i fl) es"
| "register_allows dflt reg fl (Called i (Q_get u) # es) \<longleftrightarrow> register_allows dflt reg (fl(i \<mapsto> Looking u)) es"
| "register_allows dflt reg fl (Called i (Q_request u) # es) \<longleftrightarrow> register_allows dflt reg (fl(i \<mapsto> Looking u)) es"
| "register_allows dflt reg fl (Returned i a # es) \<longleftrightarrow>
     (case fl i of
        None \<Rightarrow> False
      | Some (Looking u) \<Rightarrow>
          (case a of Found (Inl _) \<Rightarrow> True | Found (Inr x) \<Rightarrow> x \<in> reg u | Judged x _ \<Rightarrow> x \<in> reg u | _ \<Rightarrow> False) \<and>
          register_allows dflt reg (fl(i := None)) es
      | Some (Changing u X) \<Rightarrow>
          (case a of Was_set _ \<Rightarrow> True | Was_cleared _ \<Rightarrow> True | _ \<Rightarrow> False) \<and>
          register_allows dflt
            (if a = Was_set None \<and> Looking u \<notin> ran fl then reg(u := overlapping u fl) else reg)
            (fl(i := None)) es)"

section \<open>The store refines the register\<close>

text \<open>What may be answered about a user's quota in a state: the copy that is shown and the table.\<close>

definition possible :: "('v \<Rightarrow> string \<rightharpoonup> doc) \<Rightarrow> Store \<Rightarrow> uuid \<Rightarrow> 'v world \<Rightarrow> (Limits \<times> bool) set" where
  "possible view st u s = shown_quota view st u s \<union> {x. quota_of st u (w_db s) = Some x}"

text \<open>The user of a task, and the value a task may bring.\<close>

fun task_user :: "quota_task \<Rightarrow> uuid" where
  "task_user (Set_table u l) = u"
| "task_user (Set_cache u l) = u"
| "task_user (Clear_table u) = u"
| "task_user (Clear_cache u) = u"
| "task_user (Look_cache k u) = u"
| "task_user (Look_table k u) = u"
| "task_user (Look_fill k u l) = u"
| "task_user (Count u x) = u"

fun brings :: "Limits \<Rightarrow> quota_task \<Rightarrow> (Limits \<times> bool) option" where
  "brings dflt (Set_table u l) = Some (l, True)"
| "brings dflt (Set_cache u l) = Some (l, True)"
| "brings dflt (Clear_table u) = Some (dflt, False)"
| "brings dflt (Clear_cache u) = Some (dflt, False)"
| "brings dflt (Look_fill k u l) = Some (l, True)"
| "brings dflt (Count u x) = Some x"
| "brings dflt _ = None"

fun changes :: "quota_task \<Rightarrow> bool" where
  "changes (Set_table u l) = True"
| "changes (Set_cache u l) = True"
| "changes (Clear_table u) = True"
| "changes (Clear_cache u) = True"
| "changes _ = False"

fun in_table :: "quota_task \<Rightarrow> bool" where
  "in_table (Set_cache u l) = True"
| "in_table (Clear_cache u) = True"
| "in_table _ = False"

lemma possible_keywise:
  assumes "w_db s' = w_db s" and "\<And>d. view (w_ext s') (cacheKey u) = Some d \<Longrightarrow> view (w_ext s) (cacheKey u) = Some d"
  shows "possible view st u s' \<subseteq> possible view st u s"
  using assms unfolding possible_def shown_quota_def by auto

lemma possible_fades:
  "w_db s' = w_db s \<Longrightarrow> fades (view (w_ext s)) (view (w_ext s')) \<Longrightarrow> possible view st u s' \<subseteq> possible view st u s"
  by (rule possible_keywise) (auto dest: fadesD)

lemma possible_cache:
  assumes "vk_lawful E view cnt"
  shows "possible view st u' (after (cache E st u l) s) \<subseteq> possible view st u' s \<union> {x. u' = u \<and> x = (l, True)}"
  using shown_quota_cache [OF assms, of _ st u' u l s] by (auto simp: possible_def)

text \<open>Writing the copy shows the new value and no other.\<close>

lemma shown_after_cache:
  assumes "vk_lawful E view cnt" and "result (cache E st u l) s = None"
  shows "shown_quota view st u (after (cache E st u l) s) \<subseteq> {(l, True)}"
proof (cases "st_redis st")
  case True
  let ?k = "vk_set E (cacheKey u) (Some (enc_limits l)) (5 * 60 * second) (w_ext s)"
  have "fst ?k" using assms(2) True by (auto simp: cache_def split: if_splits)
  then have v: "view (snd ?k) (cacheKey u) = Some (Some (enc_limits l))"
    by (rule vk_setD(2) [OF assms(1) prod.collapse [symmetric]])
  have "l' = l" if "unmarshal limits_step limits0 (Some (enc_limits l)) = Some l'" for l'
    using that by (simp only: unmarshal_enc_limits) (simp split: if_splits)
  then show ?thesis using True v by (auto simp: shown_quota_def cache_def)
qed (simp add: shown_quota_def)

text \<open>What a step does to the table and to what may be answered.\<close>

lemma upsert_table:
  "quota_of st u' (w_db (after (pg (upsert_limits u l)) s)) = Some x \<Longrightarrow>
     quota_of st u' (w_db s) = Some x \<or> u' = u \<and> x = (l, True)"
  "st_pool st \<Longrightarrow> result (pg (upsert_limits u l)) s = Inr y \<Longrightarrow>
     quota_of st u (w_db (after (pg (upsert_limits u l)) s)) = Some (l, True)"
  by (auto simp: quota_of_def result_pg w_db_after_pg upsert_limits_def split: if_splits option.splits)

lemma delete_table:
  "quota_of st u' (w_db (after (pg (delete_limits u)) s)) = Some x \<Longrightarrow>
     quota_of st u' (w_db s) = Some x \<or> u' = u \<and> x = (st_defaults st, False)"
  "result (pg (delete_limits u)) s = Inr y \<Longrightarrow>
     quota_of st u (w_db (after (pg (delete_limits u)) s)) = Some (st_defaults st, False)"
  by (auto simp: quota_of_def result_pg w_db_after_pg delete_limits_def split: if_splits option.splits)

lemma select_table:
  "w_db (after (pg (select_limits u)) s) = w_db s"
  "st_pool st \<Longrightarrow> result (pg (select_limits u)) s = Inr l \<Longrightarrow> quota_of st u (w_db s) = Some (l, True)"
  "result (pg (select_limits u)) s = Inl NoRows \<Longrightarrow> quota_of st u (w_db s) = Some (st_defaults st, False)"
  by (auto simp: quota_of_def result_pg pg_readonly select_limits_def split: if_splits option.splits)

lemma no_pool: "\<not> st_pool st \<Longrightarrow> quota_of st u d = Some (st_defaults st, False)"
  by (simp add: quota_of_def)

lemma quota_known: "\<exists>x. quota_of st u d = Some x"
  by (cases "if st_pool st then user_rate_limits d u else None") (auto simp: quota_of_def)

lemma w_db_cache [simp]: "w_db (after (cache E st u l) s) = w_db s"
  by (simp add: cache_def)

lemma step_table:
  "quota_of st u' (w_db (after (task_step E st t) s)) = Some x \<Longrightarrow>
     quota_of st u' (w_db s) = Some x \<or> u' = task_user t \<and> changes t \<and> brings (st_defaults st) t = Some x"
  using upsert_table(1) [of st u' _ _ s x] delete_table(1) [of st u' _ s x]
  by (cases t) (auto simp: select_table(1) split: if_splits prod.splits)

lemma step_possible:
  assumes "vk_lawful E view cnt"
  shows "possible view st u' (after (task_step E st t) s)
    \<subseteq> possible view st u' s \<union> {x. u' = task_user t \<and> brings (st_defaults st) t = Some x}"
proof -
  have table: "possible view st u' (after (task_step E st t) s)
    \<subseteq> possible view st u' s \<union> {x. u' = task_user t \<and> brings (st_defaults st) t = Some x}"
    if "changes t" "w_ext (after (task_step E st t) s) = w_ext s"
    using that step_table [of st u' E t s] unfolding possible_def shown_quota_def by auto
  show ?thesis
  proof (cases t)
    case (Set_table u l)
    then show ?thesis by (intro table) simp_all
  next
    case (Set_cache u l)
    then show ?thesis using possible_cache [OF assms, of st u' u l s] by auto
  next
    case (Clear_table u)
    then show ?thesis by (intro table) simp_all
  next
    case (Clear_cache u)
    have "fades (view (w_ext s)) (view (snd (vk_del E (cacheKey u) (w_ext s))))"
      by (rule vk_delD(1) [OF assms prod.collapse [symmetric]])
    then have "possible view st u' (after (task_step E st t) s) \<subseteq> possible view st u' s"
      by (intro possible_fades) (simp_all add: Clear_cache)
    then show ?thesis by blast
  next
    case (Look_cache k u)
    have "fades (view (w_ext s)) (view (snd (vk_get E (cacheKey u) (w_ext s))))"
      by (rule vk_getD(1) [OF assms prod.collapse [symmetric]])
    then have "possible view st u' (after (task_step E st t) s) \<subseteq> possible view st u' s"
      by (intro possible_fades) (simp_all add: Look_cache)
    then show ?thesis by blast
  next
    case (Look_table k u)
    then show ?thesis by (auto simp: possible_def shown_quota_def select_table(1))
  next
    case (Look_fill k u l)
    then show ?thesis using possible_cache [OF assms, of st u' u l s] by auto
  next
    case (Count u x)
    let ?ks = "zip (rate_keys u (w_clk s 0)) expiries"
    have "view (snd (vk_pipe E ?ks (w_ext s))) (cacheKey u') = None
        \<or> view (snd (vk_pipe E ?ks (w_ext s))) (cacheKey u') = view (w_ext s) (cacheKey u')"
      by (rule vk_pipe_mono(2) [OF assms prod.collapse [symmetric] counter_rate_keys]) simp
    then have "view (snd (vk_pipe E ?ks (w_ext s))) (cacheKey u') = Some d \<Longrightarrow> view (w_ext s) (cacheKey u') = Some d" for d
      by auto
    then have "possible view st u' (after (task_step E st t) s) \<subseteq> possible view st u' s"
      by (intro possible_keywise) (simp_all add: Count split_beta)
    then show ?thesis by blast
  qed
qed

text \<open>What a task goes on with, and what it answers.\<close>

lemma get_shown:
  assumes "vk_lawful E view cnt" and "st_redis st"
    and "cached_limits (fst (vk_get E (cacheKey u) (w_ext s))) = Some (Inr l)"
  shows "(l, True) \<in> shown_quota view st u s"
  using assms(2) cached_limits_Inr [OF assms(3)] vk_getD(5) [OF assms(1) prod.collapse [symmetric]]
  unfolding shown_quota_def by fastforce

lemma step_goes_on:
  assumes "vk_lawful E view cnt" and "result (task_step E st t) s = Inl t'"
  shows "task_user t' = task_user t" and "changes t' = changes t"
    and "changes t \<Longrightarrow> brings d t' = brings d t"
    and "in_table t' \<Longrightarrow> quota_of st (task_user t) (w_db (after (task_step E st t) s)) = brings (st_defaults st) t"
    and "\<not> changes t \<Longrightarrow> brings d t' = Some x \<Longrightarrow> x \<in> possible view st (task_user t) s \<or> brings d t = Some x"
proof -
  show "task_user t' = task_user t" and "changes t' = changes t" and "changes t \<Longrightarrow> brings d t' = brings d t"
    using assms(2) by (cases t; auto simp: found_def split: if_splits sum.splits option.splits prod.splits)+
  show "in_table t' \<Longrightarrow> quota_of st (task_user t) (w_db (after (task_step E st t) s)) = brings (st_defaults st) t"
    using assms(2) by (cases t)
      (auto simp: found_def no_pool upsert_table(2) delete_table(2) split: if_splits sum.splits option.splits prod.splits)
  show "\<not> changes t \<Longrightarrow> brings d t' = Some x \<Longrightarrow> x \<in> possible view st (task_user t) s \<or> brings d t = Some x"
    using assms(2) get_shown [OF assms(1), of st _ s] by (cases t)
      (auto simp: found_def possible_def no_pool select_table(2,3) split: if_splits sum.splits option.splits prod.splits)
qed

lemma step_answers:
  assumes "vk_lawful E view cnt" and "result (task_step E st t) s = Inr a"
  shows "\<not> changes t \<Longrightarrow> (\<exists>e. a = Found (Inl e)) \<or>
      (\<exists>x. (a = Found (Inr x) \<or> (\<exists>r. a = Judged x r)) \<and> (x \<in> possible view st (task_user t) s \<or> brings d t = Some x))"
    and "changes t \<Longrightarrow> \<exists>e. a = Was_set e \<or> a = Was_cleared e"
    and "a = Was_set None \<Longrightarrow> in_table t \<and> changes t \<and> (\<exists>x. brings d t = Some x \<and>
      shown_quota view st (task_user t) (after (task_step E st t) s) \<subseteq> {x})"
proof -
  show "changes t \<Longrightarrow> \<exists>e. a = Was_set e \<or> a = Was_cleared e"
    using assms(2) by (cases t) (auto simp: found_def split: if_splits sum.splits option.splits prod.splits)
  show "a = Was_set None \<Longrightarrow> in_table t \<and> changes t \<and> (\<exists>x. brings d t = Some x \<and>
      shown_quota view st (task_user t) (after (task_step E st t) s) \<subseteq> {x})"
    using assms(2) shown_after_cache [OF assms(1)] by (cases t)
      (auto simp: found_def split: if_splits sum.splits option.splits prod.splits)
  show "\<not> changes t \<Longrightarrow> (\<exists>e. a = Found (Inl e)) \<or>
      (\<exists>x. (a = Found (Inr x) \<or> (\<exists>r. a = Judged x r)) \<and> (x \<in> possible view st (task_user t) s \<or> brings d t = Some x))"
    using assms(2) get_shown [OF assms(1), of st _ s] by (cases t)
      (auto simp: found_def possible_def no_pool select_table(2,3) split: if_splits sum.splits option.splits prod.splits)
qed

text \<open>
  The register and the state of a run agree: what may be answered is in the register, every task
  is the call in flight under its number, a look-up holds a value of the register, a change
  counts every change it overlaps, and what the table holds once it has written there.
\<close>

definition tracked ::
  "Store \<Rightarrow> 'v world \<Rightarrow> (uuid \<Rightarrow> (Limits \<times> bool) set) \<Rightarrow> (nat \<rightharpoonup> quota_task) \<Rightarrow> quota_task \<Rightarrow> in_flight \<Rightarrow> bool" where
  "tracked st s reg pool t f \<longleftrightarrow>
     (if changes t then \<exists>X. f = Changing (task_user t) X \<and> X \<subseteq> reg (task_user t) \<and>
        (in_table t \<longrightarrow> quota_of st (task_user t) (w_db s) \<in> Some ` X) \<and>
        (\<forall>t' \<in> ran pool. changes t' \<longrightarrow> task_user t' = task_user t \<longrightarrow> brings (st_defaults st) t' \<in> Some ` X)
      else f = Looking (task_user t) \<and> (\<forall>x. brings (st_defaults st) t = Some x \<longrightarrow> x \<in> reg (task_user t)))"

definition tracks ::
  "('v \<Rightarrow> string \<rightharpoonup> doc) \<Rightarrow> Store \<Rightarrow> 'v world \<Rightarrow> (uuid \<Rightarrow> (Limits \<times> bool) set) \<Rightarrow> (nat \<rightharpoonup> quota_task) \<Rightarrow>
     (nat \<rightharpoonup> in_flight) \<Rightarrow> bool" where
  "tracks view st s reg pool fl \<longleftrightarrow>
     (\<forall>u. possible view st u s \<subseteq> reg u) \<and> (\<forall>i. rel_option (tracked st s reg pool) (pool i) (fl i))"

lemma tracksD:
  assumes "tracks view st s reg pool fl"
  shows "possible view st u s \<subseteq> reg u"
    and "pool i = None \<longleftrightarrow> fl i = None"
    and "pool i = Some t \<Longrightarrow> \<exists>f. fl i = Some f \<and> tracked st s reg pool t f"
    and "fl i = Some f \<Longrightarrow> \<exists>t. pool i = Some t \<and> tracked st s reg pool t f"
proof -
  show "possible view st u s \<subseteq> reg u" using assms unfolding tracks_def by blast
  have r: "rel_option (tracked st s reg pool) (pool i) (fl i)" using assms unfolding tracks_def by blast
  then show "pool i = None \<longleftrightarrow> fl i = None" by (cases "pool i"; cases "fl i") simp_all
  show "pool i = Some t \<Longrightarrow> \<exists>f. fl i = Some f \<and> tracked st s reg pool t f"
    and "fl i = Some f \<Longrightarrow> \<exists>t. pool i = Some t \<and> tracked st s reg pool t f"
    using r by (auto simp: option_rel_Some1 option_rel_Some2)
qed

lemma tracked_brings:
  assumes "tracked st s reg pool t f" and "t \<in> ran pool" and "brings (st_defaults st) t = Some x"
  shows "x \<in> reg (task_user t)" and "f = Changing u X \<Longrightarrow> changes t \<Longrightarrow> x \<in> X"
proof -
  have c: "\<exists>X. f = Changing (task_user t) X \<and> X \<subseteq> reg (task_user t) \<and> x \<in> X" if "changes t"
    using assms that unfolding tracked_def by (metis (mono_tags, lifting) imageE option.inject)
  then show "f = Changing u X \<Longrightarrow> changes t \<Longrightarrow> x \<in> X" by auto
  show "x \<in> reg (task_user t)" using c assms by (cases "changes t") (auto simp: tracked_def)
qed

text \<open>A task stays tracked while the changes around it stay those it knows.\<close>

lemma tracked_keep:
  assumes t: "tracked st s reg pool t f"
    and reg: "\<And>X. f = Changing (task_user t) X \<Longrightarrow> X \<subseteq> reg' (task_user t)"
      "f = Looking (task_user t) \<Longrightarrow> reg (task_user t) \<subseteq> reg' (task_user t)"
    and table: "quota_of st (task_user t) (w_db s') = quota_of st (task_user t) (w_db s) \<or>
      (\<exists>t' \<in> ran pool. changes t' \<and> task_user t' = task_user t \<and> quota_of st (task_user t) (w_db s') = brings (st_defaults st) t')"
    and pool: "\<And>t''. t'' \<in> ran pool' \<Longrightarrow> changes t'' \<Longrightarrow> \<exists>t' \<in> ran pool. changes t' \<and> task_user t' = task_user t'' \<and>
      brings (st_defaults st) t' = brings (st_defaults st) t''"
  shows "tracked st s' reg' pool' t f"
proof (cases "changes t")
  case True
  then obtain X where X: "f = Changing (task_user t) X" "in_table t \<Longrightarrow> quota_of st (task_user t) (w_db s) \<in> Some ` X"
    "\<And>t'. t' \<in> ran pool \<Longrightarrow> changes t' \<Longrightarrow> task_user t' = task_user t \<Longrightarrow> brings (st_defaults st) t' \<in> Some ` X"
    using t by (auto simp: tracked_def)
  have "in_table t \<Longrightarrow> quota_of st (task_user t) (w_db s') \<in> Some ` X" using table X(2,3) by metis
  moreover have "brings (st_defaults st) t'' \<in> Some ` X" if "t'' \<in> ran pool'" "changes t''" "task_user t'' = task_user t" for t''
    using pool [OF that(1,2)] X(3) that(3) by metis
  ultimately show ?thesis using True X(1) reg(1) by (auto simp: tracked_def)
next
  case False
  then show ?thesis using t reg(2) by (auto simp: tracked_def)
qed

lemma tracks_possible:
  assumes "vk_lawful E view cnt" and tr: "tracks view st s reg pool fl" and t: "pool i = Some t"
  shows "possible view st u (after (task_step E st t) s) \<subseteq> reg u"
proof -
  obtain f where "tracked st s reg pool t f" using tracksD(3) [OF tr t] by blast
  then show ?thesis
    using step_possible [OF assms(1), of st u t s] tracksD(1) [OF tr, of u] tracked_brings(1) [of st s reg pool t f] ranI [of pool i t] t
    by blast
qed

lemma tracks_goes_on:
  assumes "vk_lawful E view cnt" and tr: "tracks view st s reg pool fl" and t: "pool i = Some t"
    and r: "result (task_step E st t) s = Inl t'"
  shows "tracks view st (after (task_step E st t) s) reg (pool(i \<mapsto> t')) fl"
proof -
  let ?s' = "after (task_step E st t) s" and ?pool = "pool(i \<mapsto> t')"
  note on = step_goes_on [OF assms(1) r]
  have ran: "t \<in> ran pool" using t by (rule ranI)
  have pool: "\<exists>t2 \<in> ran pool. changes t2 \<and> task_user t2 = task_user t'' \<and>
      brings (st_defaults st) t2 = brings (st_defaults st) t''" if "t'' \<in> ran ?pool" "changes t''" for t''
    using that on(1-3) ran by (cases "t'' = t'") (auto simp: ran_def split: if_splits)
  have table: "quota_of st u (w_db ?s') = quota_of st u (w_db s) \<or>
      (\<exists>t2 \<in> ran pool. changes t2 \<and> task_user t2 = u \<and> quota_of st u (w_db ?s') = brings (st_defaults st) t2)" for u
    using step_table [of st u E t s] ran quota_known [of st u "w_db ?s'"] by metis
  have keep: "tracked st s reg pool t2 f \<Longrightarrow> tracked st ?s' reg ?pool t2 f" for t2 f
    by (rule tracked_keep [OF _ _ _ table pool]) (auto simp: tracked_def split: if_splits)
  obtain f where f: "fl i = Some f" "tracked st s reg pool t f" using tracksD(3) [OF tr t] by blast
  have "tracked st ?s' reg ?pool t' f"
  proof (cases "changes t")
    case True
    obtain X where X: "f = Changing (task_user t) X" using f(2) True by (auto simp: tracked_def)
    have "in_table t' \<Longrightarrow> quota_of st (task_user t) (w_db ?s') \<in> Some ` X"
      using on(4) tracked_brings(2) [OF f(2) ran _ X True] quota_known [of st "task_user t" "w_db ?s'"] by (metis imageI)
    then show ?thesis using keep [OF f(2)] True on(1,2) X by (auto simp: tracked_def)
  next
    case False
    then have "x \<in> reg (task_user t)" if "brings (st_defaults st) t' = Some x" for x
      using on(5) [OF False that] tracked_brings(1) [OF f(2) ran] tracksD(1) [OF tr, of "task_user t"] by blast
    then show ?thesis using f(2) False on(1,2) by (auto simp: tracked_def)
  qed
  then have "rel_option (tracked st ?s' reg ?pool) (?pool j) (fl j)" for j
    using tr keep f(1) option.rel_mono_strong [of "tracked st s reg pool" "pool j" "fl j" "tracked st ?s' reg ?pool"]
    unfolding tracks_def by auto
  then show ?thesis using tracks_possible [OF assms(1) tr t] unfolding tracks_def by blast
qed

lemma tracks_answers:
  fixes a :: quota_answer
  assumes "vk_lawful E view cnt" and tr: "tracks view st s reg pool fl" and t: "pool i = Some t"
    and r: "result (task_step E st t) s = Inr a"
  obtains f reg' where "fl i = Some f" and "tracks view st (after (task_step E st t) s) reg' (pool(i := None)) (fl(i := None))"
    and "case f of
        Looking u \<Rightarrow> reg' = reg \<and>
          (case a of Found (Inl _) \<Rightarrow> True | Found (Inr x) \<Rightarrow> x \<in> reg u | Judged x _ \<Rightarrow> x \<in> reg u | _ \<Rightarrow> False)
      | Changing u X \<Rightarrow> (case a of Was_set _ \<Rightarrow> True | Was_cleared _ \<Rightarrow> True | _ \<Rightarrow> False) \<and>
          reg' = (if a = Was_set None \<and> Looking u \<notin> ran fl then reg(u := overlapping u fl) else reg)"
proof -
  let ?s' = "after (task_step E st t) s" and ?u = "task_user t"
  note answer = step_answers [OF assms(1) r]
  have ran: "t \<in> ran pool" using t by (rule ranI)
  obtain f where f: "fl i = Some f" "tracked st s reg pool t f" using tracksD(3) [OF tr t] by blast
  define settles where "settles \<longleftrightarrow> changes t \<and> a = Was_set None \<and> Looking ?u \<notin> ran fl"
  define reg' where "reg' = (if settles then reg(?u := overlapping ?u fl) else reg)"
  have table: "quota_of st u (w_db ?s') = quota_of st u (w_db s) \<or>
      (\<exists>t2 \<in> ran pool. changes t2 \<and> task_user t2 = u \<and> quota_of st u (w_db ?s') = brings (st_defaults st) t2)" for u
    using step_table [of st u E t s] ran quota_known [of st u "w_db ?s'"] by metis
  have over: "Changing u X \<in> ran fl \<Longrightarrow> X \<subseteq> overlapping u fl" for u X by (auto simp: overlapping_def)
  have keep: "tracked st ?s' reg' (pool(i := None)) t2 f2" if "fl j = Some f2" "tracked st s reg pool t2 f2" for j t2 f2
  proof (rule tracked_keep [OF that(2) _ _ table])
    show "X \<subseteq> reg' (task_user t2)" if "f2 = Changing (task_user t2) X" for X
    proof -
      have "X \<subseteq> overlapping (task_user t2) fl" using over ranI [of fl j f2] \<open>fl j = Some f2\<close> that by simp
      moreover have "X \<subseteq> reg (task_user t2)"
        using \<open>tracked st s reg pool t2 f2\<close> that by (auto simp: tracked_def split: if_splits)
      ultimately show ?thesis by (cases "task_user t2 = ?u") (simp_all add: reg'_def)
    qed
    show "reg (task_user t2) \<subseteq> reg' (task_user t2)" if "f2 = Looking (task_user t2)"
      using ranI [of fl j f2] \<open>fl j = Some f2\<close> that by (auto simp: reg'_def settles_def)
  qed (auto simp: ran_def split: if_splits)
  have "rel_option (tracked st ?s' reg' (pool(i := None))) ((pool(i := None)) j) ((fl(i := None)) j)" for j
  proof (cases "j = i \<or> fl j = None")
    case False
    then obtain f2 where "fl j = Some f2" by blast
    moreover from tracksD(4) [OF tr this] obtain t2 where "pool j = Some t2" "tracked st s reg pool t2 f2" by blast
    ultimately show ?thesis using keep False by simp
  qed (use tracksD(2) [OF tr] in auto)
  moreover have "possible view st u ?s' \<subseteq> reg' u" for u
  proof (cases "settles \<and> u = ?u")
    case True
    obtain x where x: "in_table t" "brings (st_defaults st) t = Some x" "shown_quota view st ?u ?s' \<subseteq> {x}"
      using answer(3) True unfolding settles_def by blast
    obtain X where X: "f = Changing ?u X" "quota_of st ?u (w_db s) \<in> Some ` X"
      using f(2) True x(1) by (auto simp: tracked_def settles_def)
    have "x \<in> X" using tracked_brings(2) [OF f(2) ran x(2) X(1)] True by (simp add: settles_def)
    moreover from this have "quota_of st ?u (w_db ?s') \<in> Some ` X"
      using step_table [of st ?u E t s] X(2) x(2) quota_known [of st ?u "w_db ?s'"] by (metis imageI option.inject)
    ultimately have "possible view st ?u ?s' \<subseteq> X" using x(3) by (auto simp: possible_def)
    then show ?thesis using True over ranI [of fl i f] f(1) X(1) by (auto simp: reg'_def)
  qed (use tracks_possible [OF assms(1) tr t] in \<open>auto simp: reg'_def\<close>)
  ultimately have "tracks view st ?s' reg' (pool(i := None)) (fl(i := None))" unfolding tracks_def by blast
  then show thesis
  proof (rule that [OF f(1)])
    show "case f of
        Looking u \<Rightarrow> reg' = reg \<and>
          (case a of Found (Inl _) \<Rightarrow> True | Found (Inr x) \<Rightarrow> x \<in> reg u | Judged x _ \<Rightarrow> x \<in> reg u | _ \<Rightarrow> False)
      | Changing u X \<Rightarrow> (case a of Was_set _ \<Rightarrow> True | Was_cleared _ \<Rightarrow> True | _ \<Rightarrow> False) \<and>
          reg' = (if a = Was_set None \<and> Looking u \<notin> ran fl then reg(u := overlapping u fl) else reg)"
    proof (cases "changes t")
      case True
      then show ?thesis using answer(2) f(2) by (auto simp: tracked_def reg'_def settles_def)
    next
      case False
      have "x \<in> reg ?u" if "x \<in> possible view st ?u s \<or> brings (st_defaults st) t = Some x" for x
        using that tracked_brings(1) [OF f(2) ran] tracksD(1) [OF tr, of ?u] by blast
      then show ?thesis using False answer(1) [OF False, of "st_defaults st"] f(2) by (auto simp: tracked_def reg'_def settles_def)
    qed
  qed
qed

lemma tracks_change_called:
  assumes tr: "tracks view st s reg pool fl" and new: "pool i = None"
    and t0: "changes t0" "\<not> in_table t0" "task_user t0 = u" "brings (st_defaults st) t0 = Some x"
  shows "tracks view st s (reg(u := insert x (reg u))) (pool(i \<mapsto> t0)) (change_called u x i fl)"
proof -
  let ?reg = "reg(u := insert x (reg u))" and ?pool = "pool(i \<mapsto> t0)" and ?fl = "change_called u x i fl"
  have old: "tracked st s ?reg ?pool t f'" if "pool j = Some t" "tracked st s reg pool t f" "f' = overlaps u x f" for j t f f'
  proof (cases "changes t")
    case True
    then obtain X where X: "f = Changing (task_user t) X" "X \<subseteq> reg (task_user t)"
        "in_table t \<longrightarrow> quota_of st (task_user t) (w_db s) \<in> Some ` X"
        "\<And>t'. t' \<in> ran pool \<Longrightarrow> changes t' \<Longrightarrow> task_user t' = task_user t \<Longrightarrow> brings (st_defaults st) t' \<in> Some ` X"
      using \<open>tracked st s reg pool t f\<close> by (auto simp: tracked_def)
    let ?X = "if task_user t = u then insert x X else X"
    have "brings (st_defaults st) t' \<in> Some ` ?X" if "t' \<in> ran ?pool" "changes t'" "task_user t' = task_user t" for t'
      using that X(4) t0 new by (cases "t' = t0") (auto simp: ran_def split: if_splits)
    then show ?thesis using True that(3) X(1-3) by (auto simp: tracked_def)
  next
    case False
    then show ?thesis using that by (auto simp: tracked_def)
  qed
  have below: "overlapping u fl \<subseteq> reg u"
  proof (unfold overlapping_def, rule Union_least)
    fix X
    assume "X \<in> {X. Changing u X \<in> ran fl}"
    then obtain j where "fl j = Some (Changing u X)" by (auto simp: ran_def)
    then show "X \<subseteq> reg u" using tracksD(4) [OF tr] by (fastforce simp: tracked_def split: if_splits)
  qed
  have first: "tracked st s ?reg ?pool t0 (Changing u (insert x (overlapping u fl)))"
  proof -
    have "brings (st_defaults st) t' \<in> Some ` insert x (overlapping u fl)"
      if t': "t' \<in> ran ?pool" "changes t'" "task_user t' = u" for t'
    proof (cases "t' = t0")
      case False
      then obtain j where j: "pool j = Some t'" using t' by (auto simp: ran_def split: if_splits)
      then obtain f where "fl j = Some f" "tracked st s reg pool t' f" using tracksD(3) [OF tr] by blast
      moreover have "t' \<in> ran pool" using j by (rule ranI)
      ultimately obtain X where "fl j = Some (Changing u X)" "brings (st_defaults st) t' \<in> Some ` X"
        using t' unfolding tracked_def by auto
      moreover from this(1) have "Changing u X \<in> ran fl" by (rule ranI)
      ultimately have "Changing u X \<in> ran fl" "brings (st_defaults st) t' \<in> Some ` X" by simp_all
      then show ?thesis by (auto simp: overlapping_def)
    qed (use t0 in simp)
    then show ?thesis using t0 below by (auto simp: tracked_def)
  qed
  have "rel_option (tracked st s ?reg ?pool) (?pool j) (?fl j)" for j
  proof (cases "j = i")
    case True
    then show ?thesis using first by (simp add: change_called_def)
  next
    case False
    then show ?thesis using old tracksD(2) [OF tr, of j] tracksD(3) [OF tr, of j]
      by (cases "pool j") (auto simp: change_called_def)
  qed
  moreover have "possible view st u' s \<subseteq> ?reg u'" for u' using tracksD(1) [OF tr, of u'] by auto
  ultimately show ?thesis unfolding tracks_def by blast
qed

lemma tracks_look_called:
  assumes tr: "tracks view st s reg pool fl" and new: "pool i = None"
    and t0: "\<not> changes t0" "task_user t0 = u" "brings (st_defaults st) t0 = None"
  shows "tracks view st s reg (pool(i \<mapsto> t0)) (fl(i \<mapsto> Looking u))"
proof -
  let ?pool = "pool(i \<mapsto> t0)"
  have keep: "tracked st s reg ?pool t f" if "tracked st s reg pool t f" for t f
  proof (rule tracked_keep [OF that])
    show "X \<subseteq> reg (task_user t)" if "f = Changing (task_user t) X" for X
      using \<open>tracked st s reg pool t f\<close> that by (simp add: tracked_def split: if_splits)
    fix t''
    assume "t'' \<in> ran ?pool" "changes t''"
    then have "t'' \<in> ran pool" using t0(1) by (auto simp: ran_def split: if_splits)
    then show "\<exists>t' \<in> ran pool. changes t' \<and> task_user t' = task_user t'' \<and> brings (st_defaults st) t' = brings (st_defaults st) t''"
      using \<open>changes t''\<close> by blast
  qed simp_all
  have first: "tracked st s reg ?pool t0 (Looking u)" using t0 by (simp add: tracked_def)
  have "rel_option (tracked st s reg ?pool) (?pool j) ((fl(i \<mapsto> Looking u)) j)" for j
  proof (cases "j = i")
    case False
    have "rel_option (tracked st s reg pool) (pool j) (fl j)" using tr unfolding tracks_def by blast
    then have "rel_option (tracked st s reg ?pool) (pool j) (fl j)" by (rule option.rel_mono_strong) (rule keep)
    then show ?thesis using False by simp
  qed (use first in simp)
  then show ?thesis using tracksD(1) [OF tr] unfolding tracks_def by blast
qed

lemma quota_run_tracked:
  assumes "vk_lawful E view cnt"
  shows "tracks view st s reg pool fl \<Longrightarrow> register_allows (st_defaults st) reg fl (result (quota_run E st pool moves) s)"
proof (induction moves arbitrary: s reg pool fl)
  case (Cons m moves)
  show ?case
  proof (cases m)
    case (Call i q)
    show ?thesis
    proof (cases "pool i")
      case None
      note change = Cons.IH [OF tracks_change_called [OF Cons.prems None]] and look = Cons.IH [OF tracks_look_called [OF Cons.prems None]]
      show ?thesis
        by (cases q) (simp_all add: Call None change look)
    qed (use Cons in \<open>simp add: Call\<close>)
  next
    case (Step i)
    show ?thesis
    proof (cases "pool i")
      case (Some t)
      show ?thesis
      proof (cases "result (task_step E st t) s")
        case (Inl t')
        then show ?thesis using Cons.IH [OF tracks_goes_on [OF assms Cons.prems Some Inl]]
          by (simp add: Step Some del: fun_upd_apply)
      next
        case (Inr a)
        show ?thesis
        proof (rule tracks_answers [OF assms Cons.prems Some Inr])
          fix f reg'
          assume f: "fl i = Some f" and tr: "tracks view st (after (task_step E st t) s) reg' (pool(i := None)) (fl(i := None))"
            and "case f of
              Looking u \<Rightarrow> reg' = reg \<and>
                (case a of Found (Inl _) \<Rightarrow> True | Found (Inr x) \<Rightarrow> x \<in> reg u | Judged x _ \<Rightarrow> x \<in> reg u | _ \<Rightarrow> False)
            | Changing u X \<Rightarrow> (case a of Was_set _ \<Rightarrow> True | Was_cleared _ \<Rightarrow> True | _ \<Rightarrow> False) \<and>
                reg' = (if a = Was_set None \<and> Looking u \<notin> ran fl then reg(u := overlapping u fl) else reg)"
          then show ?thesis using Cons.IH [OF tr] by (cases f) (simp_all add: Step Some Inr del: fun_upd_apply)
        qed
      qed
    qed (use Cons in \<open>simp add: Step\<close>)
  qed
qed simp

text \<open>
  C14: The quota store refines a register per user.  Handlers overlap as they like: the reads of the
  copy and of the table, the statements and the writes of the copy of changes, look-ups and requests of
  all users take place in any order, and any call to Postgres or Valkey may fail.  A look-up, and the
  decision on a request, then uses a value of the user's register or reports an error: a value the
  register began with, or that of a change of this user that had been called.  After an override was
  reported as set it is the new quota, or that of a change that overlapped this one, and nothing older,
  unless a look-up of the same user was in flight at that moment.  No user's change is seen by another
  user.
\<close>

theorem quota_store_is_a_register:
  assumes "vk_lawful E view cnt" and "\<forall>u. possible view st u s \<subseteq> reg u"
  shows "register_allows (st_defaults st) reg (\<lambda>_. None) (result (quota_run E st (\<lambda>_. None) moves) s)"
  by (rule quota_run_tracked [OF assms(1)]) (simp add: tracks_def assms(2))

text \<open>
  The exception is real.  A look-up reads the table, then an override is changed and reported as set,
  then the look-up writes back what it has read: the next look-up answers the old quota, and so does
  every one until the copy expires.
\<close>

abbreviation "quota5 \<equiv> \<lparr>RPM = 5, RPH = 6, RPD = 7\<rparr>"

abbreviation "quota9 \<equiv> \<lparr>RPM = 9, RPH = 9, RPD = 9\<rparr>"

definition world_quota :: "mem world" where
  "world_quota = world0\<lparr>w_db := (w_db world0)\<lparr>
     users := [\<lparr>u_id = ''u'', u_username = ''n'', u_password_hash = [], u_price = None\<rparr>],
     user_rate_limits := [''u'' \<mapsto> \<lparr>rl_rpm = 5, rl_rph = 6, rl_rpd = 7\<rparr>]\<rparr>\<rparr>"

definition stale_moves :: "quota_move list" where
  "stale_moves = [Call 0 (Q_get ''u''), Step 0, Step 0, Call 1 (Q_set ''u'' quota9), Step 1, Step 1, Step 0,
     Call 2 (Q_request ''u''), Step 2, Step 2]"

lemma stale_quota_returns:
  "result (quota_run mem_env store0 (\<lambda>_. None) stale_moves) world_quota =
     [Called 0 (Q_get ''u''), Called 1 (Q_set ''u'' quota9), Returned 1 (Was_set None), Returned 0 (Found (Inr (quota5, True))),
      Called 2 (Q_request ''u''), Returned 2 (Judged (quota5, True) (Inr (True, 0)))]"
  by code_simp

theorem quota_store_is_a_register_witness:
  "register_allows (st_defaults store0) (\<lambda>u. if u = ''u'' then {(quota5, True)} else {(st_defaults store0, False)}) (\<lambda>_. None)
     (result (quota_run mem_env store0 (\<lambda>_. None) stale_moves) world_quota)"
  by (rule quota_store_is_a_register [OF mem_lawful])
    (auto simp: possible_def shown_quota_def quota_of_def world_quota_def world0_def mem0_def empty_db_def store0_def NewStore_def)

end
