(* ===== verification/Metrics.thy ===== *)
theory Metrics
  imports World
begin

text \<open>
  \<open>api/internal/metrics\<close>: the declared instruments, their registration, and the operations on
  them.  The Prometheus client is not under \<open>src/\<close>: an instrument is the declaration the client is
  given, bucket bounds as the calls that compute them, and a registry is the list of what it holds.
  A use of an instrument is an output of the world that names it, with the values of its labels.
\<close>

section \<open>Instruments\<close>

datatype buckets =
    Bounds "float64 list"
  | ExponentialBuckets float64 float64 int
  | DefBuckets
  | Joined buckets buckets

datatype instrument_kind = Histogram buckets | Counter | Gauge

record instrument =
  i_Name :: string
  i_Help :: string
  i_kind :: instrument_kind
  i_labels :: "string list"

definition TTFB :: instrument where
  "TTFB = \<lparr>i_Name = ''tts_time_to_first_byte_seconds'', i_Help = ''Time to first audio byte delivered to client'',
     i_kind = Histogram (Joined (Bounds [f64 (1 / 100), f64 (25 / 1000)]) (ExponentialBuckets (f64 (5 / 100)) (Fin 2) 10)),
     i_labels = [''transport'']\<rparr>"

definition RequestDuration :: instrument where
  "RequestDuration = \<lparr>i_Name = ''tts_request_duration_seconds'', i_Help = ''End-to-end TTS request duration'',
     i_kind = Histogram (ExponentialBuckets (f64 (1 / 10)) (Fin 2) 12), i_labels = [''route'', ''transport'']\<rparr>"

definition RTF :: instrument where
  "RTF = \<lparr>i_Name = ''tts_realtime_factor'', i_Help = ''Processing time divided by audio duration'',
     i_kind = Histogram (Bounds [f64 (1 / 10), f64 (1 / 4), f64 (1 / 2), Fin 1, Fin 2, Fin 5, Fin 10]),
     i_labels = [''transport'']\<rparr>"

definition ActiveStreams :: instrument where
  "ActiveStreams = \<lparr>i_Name = ''tts_active_streams'',
     i_Help = ''In-flight TTS requests (from admission through last PCM byte)'', i_kind = Gauge, i_labels = []\<rparr>"

definition AudioSeconds :: instrument where
  "AudioSeconds = \<lparr>i_Name = ''tts_audio_seconds_generated_total'', i_Help = ''Audio seconds delivered to clients'',
     i_kind = Counter, i_labels = [''transport'']\<rparr>"

definition HTTPDuration :: instrument where
  "HTTPDuration = \<lparr>i_Name = ''http_request_duration_seconds'', i_Help = ''HTTP request latency'',
     i_kind = Histogram DefBuckets, i_labels = [''method'', ''route'', ''status'']\<rparr>"

definition CacheL2Miss :: instrument where
  "CacheL2Miss = \<lparr>i_Name = ''cache_l2_miss_total'', i_Help = ''Valkey/Postgres wallet cache loads'',
     i_kind = Counter, i_labels = []\<rparr>"

definition WalletBalance :: instrument where
  "WalletBalance = \<lparr>i_Name = ''wallet_balance_usd'', i_Help = ''Per-user wallet balance (METRICS_WALLET_PER_USER)'',
     i_kind = Gauge, i_labels = [''user_id'']\<rparr>"

text \<open>\<open>MustRegister\<close> panics (\<open>None\<close>) on a name the registry holds already.\<close>

type_synonym registry = "instrument list"

definition MustRegister :: "instrument \<Rightarrow> registry \<Rightarrow> registry option" where
  "MustRegister i reg = (if i_Name i \<in> i_Name ` set reg then None else Some (reg @ [i]))"

text \<open>The instruments made with \<open>promauto\<close> are registered when the package is loaded, in this order.\<close>

definition declared :: registry where
  "declared = [TTFB, RequestDuration, RTF, ActiveStreams, AudioSeconds, HTTPDuration, CacheL2Miss]"

definition promauto :: "registry option" where
  "promauto = fold (\<lambda>i reg. Option.bind reg (MustRegister i)) declared (Some [])"

definition RegisterWalletBalance :: "registry \<Rightarrow> registry option" where
  "RegisterWalletBalance = MustRegister WalletBalance"

section \<open>Operations\<close>

definition TrackActiveStream :: "('v, ('v, unit) io) io" where
  "TrackActiveStream = do { _ \<leftarrow> emit Gauge_inc; ret (emit Gauge_dec) }"

definition ObserveWalletBalance :: "bool \<Rightarrow> uuid \<Rightarrow> float64 \<Rightarrow> ('v, unit) io" where
  "ObserveWalletBalance enabled userID balance =
     (if \<not> enabled then ret () else emit (Wallet_gauge userID balance))"

text \<open>\<open>WithLabelValues(ls...)\<close> with the \<open>Observe\<close>, or the \<open>Add\<close>, that follows it.\<close>

definition observe :: "instrument \<Rightarrow> string list \<Rightarrow> float64 \<Rightarrow> ('v, unit) io" where
  "observe i ls v = emit (Observed (i_Name i) ls v)"

lemma after_observe [run_simps, simp]:
  "after (observe i ls v) s = s\<lparr>w_out := w_out s @ [Observed (i_Name i) ls v]\<rparr>"
  by (simp add: observe_def)

lemmas instrument_defs = TTFB_def RequestDuration_def RTF_def ActiveStreams_def AudioSeconds_def HTTPDuration_def
  CacheL2Miss_def WalletBalance_def

lemma promauto_simp [simp]: "promauto = Some declared"
  by (simp add: promauto_def declared_def MustRegister_def instrument_defs)

lemma RegisterWalletBalance_declared [simp]: "RegisterWalletBalance declared = Some (declared @ [WalletBalance])"
  by (simp add: RegisterWalletBalance_def declared_def MustRegister_def instrument_defs)

lemma TrackActiveStream_run [run_simps, simp]:
  "result TrackActiveStream s = emit Gauge_dec"
  "after TrackActiveStream s = s\<lparr>w_out := w_out s @ [Gauge_inc]\<rparr>"
  by (simp_all add: TrackActiveStream_def)

text \<open>The decrement is what the increment returned.\<close>

lemma track_bind: "State_Monad.bind TrackActiveStream f = do { _ \<leftarrow> emit Gauge_inc; f (emit Gauge_dec) }"
  by (simp add: TrackActiveStream_def)

lemma after_ObserveWalletBalance [run_simps, simp]:
  "after (ObserveWalletBalance b u v) s =
     (if b then s\<lparr>w_out := w_out s @ [Wallet_gauge u v]\<rparr> else s)"
  by (simp add: ObserveWalletBalance_def)

text \<open>
  What the Prometheus client accepts without a panic of a use of the instruments of a registry: a
  value for every label, each of them valid UTF-8, and nothing negative added to a counter.  (The
  user identifiers of the wallet gauge are the text of a UUID.)
\<close>

definition labelled :: "registry \<Rightarrow> effect \<Rightarrow> bool" where
  "labelled reg e =
     (case e of
        Observed n ls v \<Rightarrow>
          list_ex (\<lambda>i. i_Name i = n \<and> length ls = length (i_labels i) \<and> (i_kind i = Counter \<longrightarrow> \<not> flt_less v f0)) reg
      | _ \<Rightarrow> True)"

definition accepted :: "registry \<Rightarrow> effect \<Rightarrow> bool" where
  "accepted reg e \<longleftrightarrow> labelled reg e \<and> (case e of Observed n ls v \<Rightarrow> list_all valid_utf8 ls | _ \<Rightarrow> True)"

text \<open>The number of streams in flight: increments less decrements.\<close>

fun gauge_of :: "effect list \<Rightarrow> int" where
  "gauge_of [] = 0"
| "gauge_of (Gauge_inc # es) = 1 + gauge_of es"
| "gauge_of (Gauge_dec # es) = gauge_of es - 1"
| "gauge_of (_ # es) = gauge_of es"

lemma gauge_of_append [simp]: "gauge_of (xs @ ys) = gauge_of xs + gauge_of ys"
  by (induction xs rule: gauge_of.induct) simp_all

end
