(* ===== verification/Wallet.thy ===== *)
theory Wallet
  imports Http Metrics ReadThrough
begin

text \<open>
  \<open>api/internal/cache/wallet.go\<close>: the wallet snapshot of a user, read through the process cache
  (groupcache, L1), Valkey (L2) and Postgres.
\<close>

section \<open>Snapshots\<close>

definition walletTTL :: duration where
  "walletTTL = 45 * second"

record WalletSnapshot =
  BalanceUSD :: float64
  PricePerAudioMinuteUSD :: float64

definition snap0 :: WalletSnapshot where
  "snap0 = \<lparr>BalanceUSD = f0, PricePerAudioMinuteUSD = f0\<rparr>"

definition enc_snap :: "WalletSnapshot \<Rightarrow> json option" where
  "enc_snap w =
     (case (enc_f64 (BalanceUSD w), enc_f64 (PricePerAudioMinuteUSD w)) of
        (Some b, Some p) \<Rightarrow> Some (JObj [(''balance_usd'', b), (''price_per_audio_minute_usd'', p)])
      | _ \<Rightarrow> None)"

definition snap_step :: "WalletSnapshot \<Rightarrow> string \<Rightarrow> json \<Rightarrow> WalletSnapshot option" where
  "snap_step w k v =
     (if key_is ''balance_usd'' k then map_option (\<lambda>x. w\<lparr>BalanceUSD := x\<rparr>) (dec_f64 (BalanceUSD w) v)
      else if key_is ''price_per_audio_minute_usd'' k
      then map_option (\<lambda>x. w\<lparr>PricePerAudioMinuteUSD := x\<rparr>) (dec_f64 (PricePerAudioMinuteUSD w) v)
      else Some w)"

definition walletKey :: "uuid \<Rightarrow> string" where
  "walletKey userID = ''user:'' @ userID @ '':wallet''"

section \<open>The cache\<close>

record WalletCache =
  defPPM :: float64

definition NewWalletCache :: "float64 \<Rightarrow> WalletCache" where
  "NewWalletCache defaultPricePerMinute = \<lparr>defPPM = defaultPricePerMinute\<rparr>"

text \<open>The join of \<open>wallets\<close> and \<open>users\<close>; the price column may be null.\<close>

definition select_wallet :: "uuid \<Rightarrow> db \<Rightarrow> (pg_error + rat \<times> rat option) \<times> db" where
  "select_wallet uid d =
     (case (wallets d uid, find (\<lambda>u. u_id u = uid) (users d)) of
        (Some bal, Some u) \<Rightarrow> (Inr (bal, u_price u), d)
      | _ \<Rightarrow> (Inl NoRows, d))"

definition loadDB :: "'v env \<Rightarrow> WalletCache \<Rightarrow> uuid \<Rightarrow> ('v, error + WalletSnapshot) io" where
  "loadDB E c userID = do {
     q \<leftarrow> pg (select_wallet userID);
     case q of
       Inl err \<Rightarrow> ret (Inl (PgError err))
     | Inr (balance, price) \<Rightarrow>
         let ppm = (case price of Some p \<Rightarrow> num_scan E p | None \<Rightarrow> defPPM c)
         in ret (Inr \<lparr>BalanceUSD = num_scan E balance, PricePerAudioMinuteUSD = ppm\<rparr>)
   }"

definition cached_snap :: "get_reply \<Rightarrow> WalletSnapshot option" where
  "cached_snap r = (case r of Hit val \<Rightarrow> unmarshal snap_step snap0 val | _ \<Rightarrow> None)"

definition loadL2OrDB :: "'v env \<Rightarrow> WalletCache \<Rightarrow> uuid \<Rightarrow> ('v, error + WalletSnapshot) io" where
  "loadL2OrDB E c userID = do {
     let k = walletKey userID;
     r \<leftarrow> ext (vk_get E k);
     case cached_snap r of
       Some snap \<Rightarrow> ret (Inr snap)
     | None \<Rightarrow> do {
         _ \<leftarrow> emit L2_miss;
         q \<leftarrow> loadDB E c userID;
         case q of
           Inl err \<Rightarrow> ret (Inl err)
         | Inr snap \<Rightarrow> do {
             _ \<leftarrow> ext (vk_set E k (enc_snap snap) walletTTL);
             ret (Inr snap)
           }
       }
   }"

text \<open>
  The getter of the group fills the sink: its result is the document set, which \<open>SetBytes\<close> also
  stores in the group until the time to live is over.
\<close>

definition getter :: "'v env \<Rightarrow> WalletCache \<Rightarrow> string \<Rightarrow> ('v, error + doc) io" where
  "getter E c key =
     (case uuid_parse E key of
        None \<Rightarrow> ret (Inl (Msg ''invalid UUID''))
      | Some userID \<Rightarrow> do {
          q \<leftarrow> loadL2OrDB E c userID;
          case q of
            Inl err \<Rightarrow> ret (Inl err)
          | Inr snap \<Rightarrow>
              (case enc_snap snap of
                 None \<Rightarrow> ret (Inl JsonError)
               | Some b \<Rightarrow> do {
                   t \<leftarrow> now;
                   ok \<leftarrow> ext (l1_put E key (Some b) (t + walletTTL));
                   ret (if ok then Inr (Some b) else Inl (Msg ''sink''))
                 })
        })"

definition group_get :: "'v env \<Rightarrow> WalletCache \<Rightarrow> string \<Rightarrow> ('v, error + doc) io" where
  "group_get E c key = do {
     r \<leftarrow> ext (l1_get E key);
     case r of Some d \<Rightarrow> ret (Inr d) | None \<Rightarrow> getter E c key
   }"

definition Get :: "'v env \<Rightarrow> WalletCache \<Rightarrow> uuid \<Rightarrow> ('v, error + WalletSnapshot) io" where
  "Get E c userID = do {
     data \<leftarrow> group_get E c userID;
     case data of
       Inl err \<Rightarrow> ret (Inl err)
     | Inr d \<Rightarrow> ret (case unmarshal snap_step snap0 d of None \<Rightarrow> Inl JsonError | Some snap \<Rightarrow> Inr snap)
   }"

definition Invalidate :: "'v env \<Rightarrow> uuid \<Rightarrow> ('v, unit) io" where
  "Invalidate E userID = do {
     _ \<leftarrow> ext (l1_del E userID);
     _ \<leftarrow> ext (vk_del E (walletKey userID));
     ret ()
   }"

definition HasBalance :: "'v env \<Rightarrow> WalletCache \<Rightarrow> uuid \<Rightarrow> ('v, error + bool \<times> WalletSnapshot) io" where
  "HasBalance E c userID = do {
     r \<leftarrow> Get E c userID;
     ret (case r of Inl err \<Rightarrow> Inl err | Inr snap \<Rightarrow> Inr (flt_less f0 (BalanceUSD snap), snap))
   }"

definition Refresh :: "'v env \<Rightarrow> WalletCache \<Rightarrow> uuid \<Rightarrow> ('v, error + WalletSnapshot) io" where
  "Refresh E c userID = do { _ \<leftarrow> Invalidate E userID; loadL2OrDB E c userID }"

text \<open>
  \<open>observeWallet\<close>, which the HTTP server and the live handler each declare: the per-user gauge,
  when it is enabled and the snapshot can be had.
\<close>

definition observeWallet :: "'v env \<Rightarrow> WalletCache \<Rightarrow> bool \<Rightarrow> uuid \<Rightarrow> ('v, unit) io" where
  "observeWallet E c enabled userID =
     (if \<not> enabled then ret ()
      else do {
        r \<leftarrow> Get E c userID;
        case r of Inl _ \<Rightarrow> ret () | Inr snap \<Rightarrow> ObserveWalletBalance True userID (BalanceUSD snap)
      })"

section \<open>The codec\<close>

lemma snap_keys [simp]:
  "\<not> key_is ''balance_usd'' ''price_per_audio_minute_usd''"
  "\<not> key_is ''price_per_audio_minute_usd'' ''balance_usd''"
  by (simp_all add: key_is_def has_prefix_def upper_def)

definition snap64 :: "WalletSnapshot \<Rightarrow> bool" where
  "snap64 w \<longleftrightarrow> is64 (BalanceUSD w) \<and> is64 (PricePerAudioMinuteUSD w)"

lemma unmarshal_enc_snap:
  assumes "snap64 w" and "enc_snap w = Some j"
  shows "unmarshal snap_step snap0 (Some j) = Some w"
proof -
  obtain b p where e: "enc_f64 (BalanceUSD w) = Some b" "enc_f64 (PricePerAudioMinuteUSD w) = Some p"
    and j: "j = JObj [(''balance_usd'', b), (''price_per_audio_minute_usd'', p)]"
    using assms(2) by (auto simp: enc_snap_def split: option.splits)
  have "dec_f64 x b = Some (BalanceUSD w)" "dec_f64 x p = Some (PricePerAudioMinuteUSD w)" for x
    using assms(1) e by (auto simp: snap64_def intro: dec_enc_f64)
  then show ?thesis by (simp add: j snap_step_def snap0_def)
qed

lemma walletKey_inject [simp]: "walletKey u = walletKey v \<longleftrightarrow> u = v"
  by (simp add: walletKey_def)

section \<open>What a read answers\<close>

text \<open>The snapshot Postgres holds: the reference every tier is a copy of.\<close>

definition db_snapshot :: "'v env \<Rightarrow> WalletCache \<Rightarrow> db \<Rightarrow> uuid \<Rightarrow> WalletSnapshot option" where
  "db_snapshot E c d u =
     (case select_wallet u d of
        (Inr (bal, price), _) \<Rightarrow>
          Some \<lparr>BalanceUSD = num_scan E bal,
                PricePerAudioMinuteUSD = (case price of Some p \<Rightarrow> num_scan E p | None \<Rightarrow> defPPM c)\<rparr>
      | _ \<Rightarrow> None)"

lemma select_wallet_readonly [simp]: "snd (select_wallet u d) = d"
  by (simp add: select_wallet_def split: option.splits)

lemma loadDB_result:
  "result (loadDB E c u) s = Inr w \<longleftrightarrow> w_orc s 0 = 0 \<and> db_snapshot E c (w_db s) u = Some w"
  by (auto simp: loadDB_def db_snapshot_def result_pg Let_def split: sum.splits prod.splits)

lemma loadDB_frame [simp]:
  "w_db (after (loadDB E c u) s) = w_db s" "w_ext (after (loadDB E c u) s) = w_ext s"
  "w_clk (after (loadDB E c u) s) = w_clk s" "w_out (after (loadDB E c u) s) = w_out s"
  by (auto simp: loadDB_def pg_readonly Let_def split: sum.splits prod.splits)

text \<open>
  What the code relies on of the process cache beside Valkey: it shows a value put under a key or
  nothing, and neither store touches the other.  \<open>l1\<close> is the view of the process cache.
\<close>

definition l1_lawful ::
  "'v env \<Rightarrow> ('v \<Rightarrow> string \<rightharpoonup> doc) \<Rightarrow> ('v \<Rightarrow> string \<rightharpoonup> doc) \<Rightarrow> bool" where
  "l1_lawful E view l1 \<longleftrightarrow>
     (\<forall>k s. view (snd (l1_get E k s)) = view s \<and> fades (l1 s) (l1 (snd (l1_get E k s))) \<and>
        (\<forall>d. fst (l1_get E k s) = Some d \<longrightarrow> l1 s k = Some d)) \<and>
     (\<forall>k d t s. view (snd (l1_put E k d t s)) = view s \<and>
        fades ((l1 s)(k \<mapsto> d)) (l1 (snd (l1_put E k d t s)))) \<and>
     (\<forall>k s. view (snd (l1_del E k s)) = view s \<and> fades (l1 s) (l1 (snd (l1_del E k s)))) \<and>
     (\<forall>k s. fades (l1 s) (l1 (snd (vk_get E k s)))) \<and>
     (\<forall>k d t s. fades (l1 s) (l1 (snd (vk_set E k d t s)))) \<and>
     (\<forall>k s. fades (l1 s) (l1 (snd (vk_del E k s))))"

text \<open>The snapshots the two tiers show for a user.\<close>

definition shown_in :: "('v \<Rightarrow> string \<rightharpoonup> doc) \<Rightarrow> string \<Rightarrow> 'v world \<Rightarrow> WalletSnapshot set" where
  "shown_in view k s = {w. \<exists>d. view (w_ext s) k = Some d \<and> unmarshal snap_step snap0 d = Some w}"

lemma shown_in_fades:
  "fades (view (w_ext s)) (view (w_ext s')) \<Longrightarrow> shown_in view k s' \<subseteq> shown_in view k s"
  unfolding shown_in_def by (auto dest: fadesD)

definition shown_l2 :: "('v \<Rightarrow> string \<rightharpoonup> doc) \<Rightarrow> uuid \<Rightarrow> 'v world \<Rightarrow> WalletSnapshot set" where
  "shown_l2 view u = shown_in view (walletKey u)"

definition shown_any ::
  "('v \<Rightarrow> string \<rightharpoonup> doc) \<Rightarrow> ('v \<Rightarrow> string \<rightharpoonup> doc) \<Rightarrow> uuid \<Rightarrow> 'v world \<Rightarrow> WalletSnapshot set" where
  "shown_any view l1 u s = shown_in view (walletKey u) s \<union> shown_in l1 u s"

text \<open>The values Postgres and the configuration supply are double precision numbers.\<close>

definition scans64 :: "'v env \<Rightarrow> WalletCache \<Rightarrow> bool" where
  "scans64 E c \<longleftrightarrow> (\<forall>x. is64 (num_scan E x)) \<and> is64 (defPPM c)"

lemma db_snapshot_64: "scans64 E c \<Longrightarrow> db_snapshot E c d u = Some w \<Longrightarrow> snap64 w"
  by (auto simp: scans64_def db_snapshot_def snap64_def split: sum.splits prod.splits option.splits)

lemma unmarshal_snap64: "unmarshal snap_step snap0 d = Some w \<Longrightarrow> snap64 w"
proof -
  have step: "snap64 w \<Longrightarrow> snap_step w k v = Some w' \<Longrightarrow> snap64 w'" for w k v w'
    by (auto simp: snap_step_def snap64_def intro: dec_f64_is64 split: if_splits)
  have fields: "snap64 w \<Longrightarrow> dec_fields snap_step w kvs = Some w' \<Longrightarrow> snap64 w'" for w kvs w'
    by (induction snap_step w kvs rule: dec_fields.induct) (auto split: option.splits dest: step)
  have z: "snap64 snap0" by (simp add: snap64_def snap0_def)
  show "unmarshal snap_step snap0 d = Some w \<Longrightarrow> snap64 w"
  proof (cases d)
    case (Some j)
    then show "unmarshal snap_step snap0 d = Some w \<Longrightarrow> snap64 w"
      using fields [OF z] z by (cases j) auto
  qed simp
qed

lemma shown_64: "w \<in> shown_in view k s \<Longrightarrow> snap64 w"
  by (auto simp: shown_in_def intro: unmarshal_snap64)

text \<open>A put of a snapshot shows that snapshot or what was shown before.\<close>

lemma shown_after_put:
  assumes "fades ((view (w_ext s))(k \<mapsto> enc_snap w)) (view (w_ext s')) \<or> fades (view (w_ext s)) (view (w_ext s'))"
    and "snap64 w" and "x \<in> shown_in view k' s'"
  shows "x \<in> shown_in view k' s \<or> k' = k \<and> x = w"
proof -
  obtain d where d: "view (w_ext s') k' = Some d" "unmarshal snap_step snap0 d = Some x"
    using assms(3) by (auto simp: shown_in_def)
  have "((view (w_ext s))(k \<mapsto> enc_snap w)) k' = Some d \<or> view (w_ext s) k' = Some d"
    using assms(1) d(1) by (blast dest: fadesD)
  then consider "k' = k" "d = enc_snap w" | "view (w_ext s) k' = Some d"
    by (cases "k' = k") auto
  then show ?thesis
  proof cases
    case 1
    then obtain j where "enc_snap w = Some j" using d(2) by (cases "enc_snap w") auto
    then show ?thesis using unmarshal_enc_snap [OF assms(2)] 1 d(2) by simp
  next
    case 2
    then show ?thesis using d(2) by (auto simp: shown_in_def)
  qed
qed

lemma loadL2OrDB_steps:
  fixes E :: "'v env" and u :: uuid
  defines "s1 \<equiv> \<lambda>s :: 'v world. after (ext (vk_get E (walletKey u))) s"
  shows "result (loadL2OrDB E c u) s =
      (case cached_snap (fst (vk_get E (walletKey u) (w_ext s))) of
         Some w \<Rightarrow> Inr w
       | None \<Rightarrow> result (loadDB E c u) (after (emit L2_miss) (s1 s)))"
    and "after (loadL2OrDB E c u) s =
      (case cached_snap (fst (vk_get E (walletKey u) (w_ext s))) of
         Some w \<Rightarrow> s1 s
       | None \<Rightarrow> (let t = after (emit L2_miss) (s1 s); t' = after (loadDB E c u) t
                  in case result (loadDB E c u) t of
                       Inl err \<Rightarrow> t'
                     | Inr w \<Rightarrow> after (ext (vk_set E (walletKey u) (enc_snap w) walletTTL)) t'))"
  by (simp_all add: loadL2OrDB_def s1_def Let_def split: sum.splits option.splits)

lemma loadL2OrDB_frame:
  assumes "vk_lawful E view cnt" and "scans64 E c"
  shows "w_db (after (loadL2OrDB E c u) s) = w_db s"
    and "result (loadL2OrDB E c u) s = Inr x \<Longrightarrow> x \<in> shown_l2 view u s \<or> db_snapshot E c (w_db s) u = Some x"
    and "x \<in> shown_in view k (after (loadL2OrDB E c u) s) \<Longrightarrow>
      x \<in> shown_in view k s \<or> k = walletKey u \<and> db_snapshot E c (w_db s) u = Some x"
proof -
  let ?k = "walletKey u"
  obtain r v where g: "vk_get E ?k (w_ext s) = (r, v)" by (cases "vk_get E ?k (w_ext s)")
  let ?t = "after (emit L2_miss) (s\<lparr>w_ext := v\<rparr>)"
  have hit: "cached_snap r = Some w \<Longrightarrow> w \<in> shown_l2 view u s" for w
    using vk_getD(5) [OF assms(1) g]
    by (auto simp: cached_snap_def shown_l2_def shown_in_def split: get_reply.splits)
  have shown1: "x \<in> shown_in view k (s\<lparr>w_ext := v\<rparr>) \<Longrightarrow> x \<in> shown_in view k s"
    using shown_in_fades [of view s "s\<lparr>w_ext := v\<rparr>" k] vk_getD(1) [OF assms(1) g] by auto
  show "w_db (after (loadL2OrDB E c u) s) = w_db s"
    using g by (simp add: loadL2OrDB_steps(2) Let_def split: option.splits sum.splits)
  show "result (loadL2OrDB E c u) s = Inr x \<Longrightarrow> x \<in> shown_l2 view u s \<or> db_snapshot E c (w_db s) u = Some x"
    using g hit by (auto simp: loadL2OrDB_steps(1) loadDB_result split: option.splits)
  assume x: "x \<in> shown_in view k (after (loadL2OrDB E c u) s)"
  show "x \<in> shown_in view k s \<or> k = walletKey u \<and> db_snapshot E c (w_db s) u = Some x"
  proof (cases "cached_snap r")
    case (Some w)
    then show ?thesis using x g shown1 by (simp add: loadL2OrDB_steps(2))
  next
    case None
    let ?t' = "after (loadDB E c u) ?t"
    have t': "shown_in view k ?t' = shown_in view k (s\<lparr>w_ext := v\<rparr>)" by (simp add: shown_in_def)
    show ?thesis
    proof (cases "result (loadDB E c u) ?t")
      case (Inl err)
      then show ?thesis using x g None t' shown1 by (simp add: loadL2OrDB_steps(2) Let_def)
    next
      case (Inr w)
      then have w: "db_snapshot E c (w_db s) u = Some w" by (simp add: loadDB_result)
      obtain ok v' where p: "vk_set E ?k (enc_snap w) walletTTL (w_ext ?t') = (ok, v')"
        by (cases "vk_set E ?k (enc_snap w) walletTTL (w_ext ?t')")
      have x': "x \<in> shown_in view k (?t'\<lparr>w_ext := v'\<rparr>)"
        using x g None Inr p by (simp add: loadL2OrDB_steps(2) Let_def)
      have "x \<in> shown_in view k ?t' \<or> k = ?k \<and> x = w"
        by (rule shown_after_put [OF _ db_snapshot_64 [OF assms(2) w] x'])
          (use vk_setD(3) [OF assms(1) p] in simp)
      then show ?thesis using t' shown1 w by auto
    qed
  qed
qed

lemma l1_fades:
  assumes "l1_lawful E view l1"
  shows "fades (l1 v) (l1 (snd (vk_get E k v)))" and "fades (l1 v) (l1 (snd (vk_set E k d t v)))"
    and "fades (l1 v) (l1 (snd (vk_del E k v)))" and "fades (l1 v) (l1 (snd (l1_get E k v)))"
    and "fades (l1 v) (l1 (snd (l1_del E k v)))" and "view (snd (l1_get E k v)) = view v"
    and "view (snd (l1_put E k d' t v)) = view v" and "view (snd (l1_del E k v)) = view v"
    and "fst (l1_get E k v) = Some d' \<Longrightarrow> l1 v k = Some d'"
    and "fades ((l1 v)(k \<mapsto> d')) (l1 (snd (l1_put E k d' t v)))"
  using assms unfolding l1_lawful_def by blast+

lemma loadL2OrDB_l1:
  assumes "l1_lawful E view l1"
  shows "fades (l1 (w_ext s)) (l1 (w_ext (after (loadL2OrDB E c u) s)))"
  using l1_fades(1,2) [OF assms] fades_trans
  by (auto simp: loadL2OrDB_steps(2) Let_def split: option.splits sum.splits) blast

text \<open>What a \<open>Get\<close> amounts to when groupcache asks the getter for the key itself.\<close>

lemma Get_steps:
  fixes s :: "'v world" and c :: WalletCache
  assumes "uuid_parse E u = Some u" and g: "l1_get E u (w_ext s) = (r, v)"
  defines "q \<equiv> result (loadL2OrDB E c u) (s\<lparr>w_ext := v\<rparr>)" and "s2 \<equiv> after (loadL2OrDB E c u) (s\<lparr>w_ext := v\<rparr>)"
  shows "after (Get E c u) s =
      (case r of Some d \<Rightarrow> s\<lparr>w_ext := v\<rparr> | None \<Rightarrow> (case q of Inl err \<Rightarrow> s2 | Inr w \<Rightarrow>
         (case enc_snap w of None \<Rightarrow> s2 | Some b \<Rightarrow>
            s2\<lparr>w_clk := (\<lambda>n. w_clk s2 (Suc n)),
               w_ext := snd (l1_put E u (Some b) (w_clk s2 0 + walletTTL) (w_ext s2))\<rparr>)))"
    and "result (Get E c u) s =
      (case r of Some d \<Rightarrow> (case unmarshal snap_step snap0 d of None \<Rightarrow> Inl JsonError | Some w \<Rightarrow> Inr w)
       | None \<Rightarrow> (case q of Inl err \<Rightarrow> Inl err | Inr w \<Rightarrow>
         (case enc_snap w of None \<Rightarrow> Inl JsonError | Some b \<Rightarrow>
            if fst (l1_put E u (Some b) (w_clk s2 0 + walletTTL) (w_ext s2))
            then (case unmarshal snap_step snap0 (Some b) of None \<Rightarrow> Inl JsonError | Some w \<Rightarrow> Inr w)
            else Inl (Msg ''sink''))))"
  using assms by (simp_all add: Get_def group_get_def getter_def split: option.splits sum.splits)

lemma shown_after_fill:
  assumes "l1_lawful E view l1" and "snap64 w"
    and "y \<in> shown_any view l1 u (s\<lparr>w_clk := k, w_ext := snd (l1_put E u (enc_snap w) t (w_ext s))\<rparr>)"
  shows "y \<in> shown_any view l1 u s \<or> y = w"
proof -
  let ?t = "s\<lparr>w_clk := k, w_ext := snd (l1_put E u (enc_snap w) t (w_ext s))\<rparr>"
  have l2: "shown_in view k' ?t = shown_in view k' s" for k'
    by (simp add: shown_in_def l1_fades(7) [OF assms(1)])
  have "y \<in> shown_in l1 u s \<or> u = u \<and> y = w" if "y \<in> shown_in l1 u ?t"
    by (rule shown_after_put [OF _ assms(2) that]) (simp add: l1_fades(10) [OF assms(1)])
  then show ?thesis using assms(3) unfolding shown_any_def l2 by blast
qed

lemma Get_frame:
  assumes "vk_lawful E view cnt" and "l1_lawful E view l1" and "scans64 E c" and "uuid_parse E u = Some u"
  shows "w_db (after (Get E c u) s) = w_db s"
    and "result (Get E c u) s = Inr x \<Longrightarrow> x \<in> shown_any view l1 u s \<or> db_snapshot E c (w_db s) u = Some x"
    and "x \<in> shown_any view l1 u (after (Get E c u) s) \<Longrightarrow>
      x \<in> shown_any view l1 u s \<or> db_snapshot E c (w_db s) u = Some x"
proof -
  obtain r v where g: "l1_get E u (w_ext s) = (r, v)" by (cases "l1_get E u (w_ext s)")
  let ?s1 = "s\<lparr>w_ext := v\<rparr>"
  let ?q = "result (loadL2OrDB E c u) ?s1" and ?s2 = "after (loadL2OrDB E c u) ?s1"
  let ?known = "\<lambda>y. y \<in> shown_any view l1 u s \<or> db_snapshot E c (w_db s) u = Some y"
  note steps = Get_steps [OF assms(4) g, where c = c]
    and load = loadL2OrDB_frame [OF assms(1,3), where u = u and s = "?s1"]
  have v: "view v = view (w_ext s)" "fades (l1 (w_ext s)) (l1 v)"
    using l1_fades(4,6) [OF assms(2), where v = "w_ext s" and k = u] g by simp_all
  have same: "shown_in view k ?s1 = shown_in view k s" for k by (simp add: shown_in_def v)
  have sub1: "shown_in l1 u ?s1 \<subseteq> shown_in l1 u s" by (rule shown_in_fades) (simp add: v)
  then have sub2: "shown_in l1 u ?s2 \<subseteq> shown_in l1 u s"
    using shown_in_fades [OF loadL2OrDB_l1 [OF assms(2)]] by blast
  have loaded: "?known w" "snap64 w" if "?q = Inr w" for w
    using load(2) [OF that] same db_snapshot_64 [OF assms(3)] shown_64
    by (auto simp: shown_any_def shown_l2_def)
  have shown2: "?known y" if "y \<in> shown_any view l1 u ?s2" for y
    using that load(3) [of y "walletKey u"] same sub2 by (auto simp: shown_any_def)
  show "w_db (after (Get E c u) s) = w_db s"
    using load(1) by (simp add: steps(1) split: option.splits sum.splits)
  show "?known x" if a: "result (Get E c u) s = Inr x"
  proof (cases r)
    case (Some d)
    then have "l1 (w_ext s) u = Some d" using l1_fades(9) [OF assms(2)] g by (metis fst_conv)
    then show ?thesis using a Some by (auto simp: steps(2) shown_any_def shown_in_def split: option.splits)
  next
    case None
    then obtain w b where w: "?q = Inr w" "enc_snap w = Some b" "unmarshal snap_step snap0 (Some b) = Some x"
      using a by (auto simp: steps(2) split: sum.splits option.splits if_splits)
    then show ?thesis using unmarshal_enc_snap [OF loaded(2)] loaded(1) [OF w(1)] by fastforce
  qed
  assume x: "x \<in> shown_any view l1 u (after (Get E c u) s)"
  consider d where "r = Some d" | w where "r = None" "?q = Inr w" "enc_snap w \<noteq> None"
    | "r = None" "\<And>w. ?q = Inr w \<Longrightarrow> enc_snap w = None"
    by (cases r) blast+
  then show "?known x"
  proof cases
    case 1
    then show ?thesis using x sub1 same by (auto simp: steps(1) shown_any_def)
  next
    case 2
    then have "x \<in> shown_any view l1 u ?s2 \<or> x = w"
      by (intro shown_after_fill [OF assms(2) loaded(2) [OF 2(2)]]) (use x in \<open>auto simp: steps(1)\<close>)
    then show ?thesis using shown2 loaded(1) 2 by blast
  next
    case 3
    then have "after (Get E c u) s = ?s2" by (simp add: steps(1) split: sum.splits)
    then show ?thesis using x shown2 by simp
  qed
qed

interpretation tiers: read_through
  "vk_lawful E view cnt \<and> l1_lawful E view l1 \<and> scans64 E c \<and> uuid_parse E u = Some u"
  "shown_any view l1 u" "\<lambda>s. db_snapshot E c (w_db s) u" "Get E c u"
proof (unfold_locales, goal_cases)
  case (1 s x)
  then show ?case using Get_frame(2) by blast
next
  case (2 s)
  then show ?case using Get_frame(1) by metis
next
  case (3 x s)
  then show ?case using Get_frame(3) by blast
qed

interpretation valkey: read_through
  "vk_lawful E view cnt \<and> scans64 E c" "shown_l2 view u" "\<lambda>s. db_snapshot E c (w_db s) u" "loadL2OrDB E c u"
proof (unfold_locales, goal_cases)
  case (1 s x)
  then show ?case using loadL2OrDB_frame(2) by blast
next
  case (2 s)
  then show ?case using loadL2OrDB_frame(1) by metis
next
  case (3 x s)
  then show ?case using loadL2OrDB_frame(3) unfolding shown_l2_def by blast
qed

section \<open>Properties\<close>

text \<open>A concrete environment in which the hypotheses of the properties hold.\<close>

lemma mem_l1_lawful: "l1_lawful mem_env m_keys m_l1"
  unfolding l1_lawful_def by (auto simp: mem_env_def fades_def mem_step_def split: option.splits)

definition wc0 :: WalletCache where
  "wc0 = NewWalletCache (Fin 1)"

lemma mem_scans64: "scans64 mem_env wc0"
  by (simp add: scans64_def mem_env_simps wc0_def NewWalletCache_def del: is64.simps)

lemma mem_nothing_shown: "shown_any m_keys m_l1 u world_u = {}"
  by (simp add: shown_any_def shown_in_def mem0_def)

definition snap_u :: WalletSnapshot where
  "snap_u = \<lparr>BalanceUSD = Fin 20, PricePerAudioMinuteUSD = Fin 1\<rparr>"

lemma snap_u_64: "snap64 snap_u"
  by (simp add: snap64_def snap_u_def is64_numeral del: is64.simps)

lemma Get_world_u: "result (Get mem_env wc0 ''u'') world_u = Inr snap_u"
proof -
  obtain j where j: "enc_snap snap_u = Some j" by (simp add: enc_snap_def snap_u_def)
  have "result (loadL2OrDB mem_env wc0 ''u'') (world_u\<lparr>w_ext := mem0\<rparr>) = Inr snap_u"
    by (simp add: loadL2OrDB_def mem_env_simps mem0_def mem_step_def cached_snap_def loadDB_def result_pg
        select_wallet_def wc0_def NewWalletCache_def snap_u_def Let_def)
  moreover have "l1_get mem_env ''u'' mem0 = (None, mem0)" by (simp add: mem_env_def mem0_def)
  moreover have "uuid_parse mem_env ''u'' = Some ''u''" "fst (l1_put mem_env k d t m)" for k d t m
    by (simp_all add: mem_env_def)
  ultimately show ?thesis
    using unmarshal_enc_snap [OF snap_u_64 j] j by (simp add: Get_def group_get_def getter_def)
qed

text \<open>
  C15: While the copies shown by the process cache and by Valkey agree with Postgres and nobody
  writes the wallet, every successful read of the wallet, however many there are, answers the
  balance and the price Postgres holds (with the default price for a user without one).
\<close>

theorem wallet_reads_current:
  assumes "vk_lawful E view cnt" and "l1_lawful E view l1" and "scans64 E c" and "uuid_parse E u = Some u"
    and "\<forall>w \<in> shown_any view l1 u s. db_snapshot E c (w_db s) u = Some w"
    and "Inr w \<in> set (result (repeat_io n (Get E c u)) s)"
  shows "db_snapshot E c (w_db s) u = Some w"
  by (rule tiers.reads_agree [of E view cnt l1 c u]) (use assms tiers.coherent_def in blast)+

theorem wallet_reads_current_witness:
  "\<exists>w. Inr w \<in> set (result (repeat_io 1 (Get mem_env wc0 ''u'')) world_u)
     \<and> db_snapshot mem_env wc0 (w_db world_u) ''u'' = Some w"
proof -
  have i: "Inr snap_u \<in> set (result (repeat_io 1 (Get mem_env wc0 ''u'')) world_u)"
    using Get_world_u by simp
  have "db_snapshot mem_env wc0 (w_db world_u) ''u'' = Some snap_u"
    by (rule wallet_reads_current [OF mem_lawful mem_l1_lawful mem_scans64 _ _ i])
      (simp_all only: mem_nothing_shown, simp_all add: mem_env_def)
  then show ?thesis using i by blast
qed

text \<open>
  A refresh whose DEL reached Valkey answers what Postgres holds at that moment, whatever stale
  copies the caches showed before.
\<close>

theorem refresh_bypasses_copies:
  assumes "vk_lawful E view cnt" and "scans64 E c"
    and "fst (vk_del E (walletKey u) (snd (l1_del E u (w_ext s))))"
    and "result (Refresh E c u) s = Inr w"
  shows "db_snapshot E c (w_db s) u = Some w"
proof -
  let ?v = "snd (l1_del E u (w_ext s))"
  obtain v' where d: "vk_del E (walletKey u) ?v = (True, v')"
    using assms(3) by (cases "vk_del E (walletKey u) ?v") simp
  have r: "result (loadL2OrDB E c u) (s\<lparr>w_ext := v'\<rparr>) = Inr w"
    using assms(4) d by (simp add: Refresh_def Invalidate_def)
  have none: "shown_l2 view u (s\<lparr>w_ext := v'\<rparr>) = {}"
    using vk_delD(3) [OF assms(1) d] by (simp add: shown_l2_def shown_in_def)
  have "db_snapshot E c (w_db (s\<lparr>w_ext := v'\<rparr>)) u = Some w"
    by (rule valkey.coherent_answer [of E view cnt c u])
      (use assms(1,2) valkey.coherent_if_empty [OF none] r in simp_all)
  then show ?thesis by simp
qed

theorem refresh_bypasses_copies_witness:
  "\<exists>w. result (Refresh mem_env wc0 ''u'') world_u = Inr w
     \<and> db_snapshot mem_env wc0 (w_db world_u) ''u'' = Some w"
proof -
  have r: "result (Refresh mem_env wc0 ''u'') world_u = Inr snap_u"
    by (simp add: Refresh_def Invalidate_def loadL2OrDB_def mem_env_simps mem0_def mem_step_def cached_snap_def
        loadDB_def result_pg select_wallet_def wc0_def NewWalletCache_def snap_u_def Let_def)
  have "db_snapshot mem_env wc0 (w_db world_u) ''u'' = Some snap_u"
    by (rule refresh_bypasses_copies [OF mem_lawful mem_scans64 _ r]) (simp add: mem_env_def mem0_def)
  then show ?thesis using r by blast
qed

text \<open>
  With copies that agree with Postgres, admission asks for a balance above zero: a user is said
  to have balance exactly if the wallet in Postgres holds more than nothing.
\<close>

lemma has_balance_iff_positive:
  assumes "vk_lawful E view cnt" and "l1_lawful E view l1" and "scans64 E c" and "uuid_parse E u = Some u"
    and "\<forall>w \<in> shown_any view l1 u s. db_snapshot E c (w_db s) u = Some w"
    and "result (HasBalance E c u) s = Inr (b, w)"
  shows "\<exists>bal price. wallets (w_db s) u = Some bal \<and> (b \<longleftrightarrow> flt_less f0 (num_scan E bal))
    \<and> w = \<lparr>BalanceUSD = num_scan E bal, PricePerAudioMinuteUSD = price\<rparr>"
proof -
  have g: "result (Get E c u) s = Inr w" "b \<longleftrightarrow> flt_less f0 (BalanceUSD w)"
    using assms(6) by (auto simp: HasBalance_def split: sum.splits)
  have "db_snapshot E c (w_db s) u = Some w"
    by (rule tiers.coherent_answer [of E view cnt l1 c u]) (use assms g(1) tiers.coherent_def in blast)+
  then show ?thesis using g(2)
    by (auto simp: db_snapshot_def select_wallet_def split: sum.splits option.splits prod.splits)
qed

text \<open>
  A snapshot of finite amounts written to a cache is read back from it unchanged, and one with
  an infinite or undefined amount is never written.
\<close>

lemma snapshot_roundtrip:
  assumes "snap64 w"
  shows "(enc_snap w = None \<longleftrightarrow> \<not> (\<exists>b p. w = \<lparr>BalanceUSD = Fin b, PricePerAudioMinuteUSD = Fin p\<rparr>))
    \<and> (enc_snap w \<noteq> None \<longrightarrow> unmarshal snap_step snap0 (enc_snap w) = Some w)"
proof -
  have "enc_snap w = None \<longleftrightarrow> \<not> (\<exists>b p. w = \<lparr>BalanceUSD = Fin b, PricePerAudioMinuteUSD = Fin p\<rparr>)"
    by (cases w; cases "BalanceUSD w"; cases "PricePerAudioMinuteUSD w") (auto simp: enc_snap_def)
  then show ?thesis using unmarshal_enc_snap [OF assms] by fastforce
qed

end
