(* ===== verification/Auth.thy ===== *)
theory Auth
  imports Http
begin

text \<open>
  \<open>api/internal/auth\<close>: accounts and API keys in Postgres (\<open>auth.go\<close>), the browser cookie and the
  token of a request (\<open>cookie.go\<close>), and the middleware that admits a request with a key
  (\<open>middleware.go\<close>; the context accessors are in theory Http).
\<close>

section \<open>Secrets\<close>

definition APIKeyPrefix :: string where
  "APIKeyPrefix = ''sk-''"

record APIKeyRecord =
  r_ID :: uuid
  r_UserID :: uuid
  r_Prefix :: string
  r_KeyHash :: string
  r_Revoked :: bool

definition HashPassword :: "'v env \<Rightarrow> string \<Rightarrow> ('v, error + string) io" where
  "HashPassword E password = do {
     salt \<leftarrow> rand_bytes 16;
     ret (case bcrypt_gen E password salt of None \<Rightarrow> Inl HashError | Some b \<Rightarrow> Inr b)
   }"

definition CheckPassword :: "'v env \<Rightarrow> string \<Rightarrow> string \<Rightarrow> bool" where
  "CheckPassword E hash password = bcrypt_ok E hash password"

definition HashAPIKey :: "'v env \<Rightarrow> string \<Rightarrow> string" where
  "HashAPIKey E secret = hex_encode (sha256 E secret)"

definition GenerateAPIKey :: "('v, error + string \<times> string) io" where
  "GenerateAPIKey = do {
     n \<leftarrow> draw;
     if n \<noteq> 0 then ret (Inl RandError)
     else do {
       raw \<leftarrow> rand_bytes 24;
       let body = hex_encode raw;
       ret (Inr (take 8 body, APIKeyPrefix @ body))
     }
   }"

section \<open>The statements\<close>

text \<open>
  Identifiers are the table's default, a random UUID; columns not listed are null.  A user name may hold a
  zero byte, which Postgres refuses; the other texts cannot: the hash of a password is bcrypt's, the prefix
  of a key comes from a header, where \<open>net/http\<close> refuses it, and its hash is hexadecimal.
\<close>

definition insert_user ::
  "uuid \<Rightarrow> string \<Rightarrow> string \<Rightarrow> rat option \<Rightarrow> db \<Rightarrow> (pg_error + User) \<times> db" where
  "insert_user i username hash price d =
     (if \<not> pg_text username then (Inl Constraint, d)
      else if has_user d i \<or> (\<exists>u \<in> set (users d). u_username u = username) then (Inl Constraint, d)
      else (Inr \<lparr>ID = i, Username = username\<rparr>,
            d\<lparr>users := users d @ [\<lparr>u_id = i, u_username = username, u_password_hash = hash, u_price = price\<rparr>]\<rparr>))"

definition insert_wallet :: "'v env \<Rightarrow> uuid \<Rightarrow> float64 \<Rightarrow> db \<Rightarrow> (pg_error + unit) \<times> db" where
  "insert_wallet E uid amount d =
     (case Option.bind (num_param E amount) (num_fit E 14 6) of
        None \<Rightarrow> (Inl Constraint, d)
      | Some x \<Rightarrow>
          if has_user d uid \<and> wallets d uid = None
          then (Inr (), d\<lparr>wallets := (wallets d)(uid \<mapsto> x)\<rparr>) else (Inl Constraint, d))"

definition select_login :: "string \<Rightarrow> db \<Rightarrow> (pg_error + User \<times> string) \<times> db" where
  "select_login username d =
     (if \<not> pg_text username then (Inl Constraint, d)
      else case find (\<lambda>u. u_username u = username) (users d) of
        None \<Rightarrow> (Inl NoRows, d)
      | Some u \<Rightarrow> (Inr (\<lparr>ID = u_id u, Username = u_username u\<rparr>, u_password_hash u), d))"

definition live_key :: "string \<Rightarrow> string \<Rightarrow> api_key_row \<Rightarrow> bool" where
  "live_key pfx hash k \<longleftrightarrow> k_prefix k = pfx \<and> k_hash k = hash \<and> k_revoked_at k = None"

definition select_key :: "string \<Rightarrow> string \<Rightarrow> db \<Rightarrow> (pg_error + User) \<times> db" where
  "select_key pfx hash d =
     (case [u. k \<leftarrow> filter (live_key pfx hash) (api_keys d), u \<leftarrow> users d, u_id u = k_user k] of
        [] \<Rightarrow> (Inl NoRows, d)
      | u # _ \<Rightarrow> (Inr \<lparr>ID = u_id u, Username = u_username u\<rparr>, d))"

definition insert_key ::
  "uuid \<Rightarrow> instant \<Rightarrow> uuid \<Rightarrow> string \<Rightarrow> string \<Rightarrow> db \<Rightarrow> (pg_error + uuid) \<times> db" where
  "insert_key i t uid pfx hash d =
     (if i \<in> k_id ` set (api_keys d) \<or> \<not> has_user d uid then (Inl Constraint, d)
      else (Inr i, d\<lparr>api_keys := api_keys d @
        [\<lparr>k_id = i, k_user = uid, k_prefix = pfx, k_hash = hash, k_revoked_at = None, k_created_at = t\<rparr>]\<rparr>))"

text \<open>Rows of equal creation time come in the order of the table.\<close>

definition select_keys :: "uuid \<Rightarrow> db \<Rightarrow> (pg_error + APIKeyRecord list) \<times> db" where
  "select_keys uid d =
     (Inr (map (\<lambda>k. \<lparr>r_ID = k_id k, r_UserID = k_user k, r_Prefix = k_prefix k, r_KeyHash = k_hash k,
                    r_Revoked = (k_revoked_at k \<noteq> None)\<rparr>)
        (sort_key (\<lambda>k. - k_created_at k) (filter (\<lambda>k. k_user k = uid) (api_keys d)))), d)"

definition revocable :: "uuid \<Rightarrow> uuid \<Rightarrow> api_key_row \<Rightarrow> bool" where
  "revocable keyID uid k \<longleftrightarrow> k_id k = keyID \<and> k_user k = uid \<and> k_revoked_at k = None"

definition set_revoked :: "uuid \<Rightarrow> uuid \<Rightarrow> instant \<Rightarrow> api_key_row \<Rightarrow> api_key_row" where
  "set_revoked keyID uid t k = (if revocable keyID uid k then k\<lparr>k_revoked_at := Some t\<rparr> else k)"

definition update_revoked :: "uuid \<Rightarrow> uuid \<Rightarrow> instant \<Rightarrow> db \<Rightarrow> (pg_error + nat) \<times> db" where
  "update_revoked keyID uid t d =
     (Inr (length (filter (revocable keyID uid) (api_keys d))),
      d\<lparr>api_keys := map (set_revoked keyID uid t) (api_keys d)\<rparr>)"

lemma set_revoked_frame [simp]:
  "k_id (set_revoked kid uid t k) = k_id k" "k_user (set_revoked kid uid t k) = k_user k"
  "k_hash (set_revoked kid uid t k) = k_hash k" "k_prefix (set_revoked kid uid t k) = k_prefix k"
  by (simp_all add: set_revoked_def)

lemma set_revoked_revoked: "k_revoked_at k \<noteq> None \<Longrightarrow> k_revoked_at (set_revoked kid uid t k) \<noteq> None"
  by (auto simp: set_revoked_def)

lemma map_k_id_set_revoked [simp]: "map (k_id \<circ> set_revoked kid uid t) ks = map k_id ks"
  by simp

definition select_user_id :: "string \<Rightarrow> db \<Rightarrow> (pg_error + uuid) \<times> db" where
  "select_user_id username d =
     (if \<not> pg_text username then (Inl Constraint, d)
      else case find (\<lambda>u. u_username u = username) (users d) of
        None \<Rightarrow> (Inl NoRows, d) | Some u \<Rightarrow> (Inr (u_id u), d))"

section \<open>Accounts and keys\<close>

definition Register ::
  "'v env \<Rightarrow> string \<Rightarrow> string \<Rightarrow> float64 \<Rightarrow> ('v, error + User) io" where
  "Register E username password initialWalletUSD = do {
     h \<leftarrow> HashPassword E password;
     case h of
       Inl err \<Rightarrow> ret (Inl err)
     | Inr hash \<Rightarrow> do {
         i \<leftarrow> new_uuid;
         q \<leftarrow> pg (insert_user i username hash None);
         case q of
           Inl err \<Rightarrow> ret (Inl (PgError err))
         | Inr u \<Rightarrow> do {
             q \<leftarrow> pg (insert_wallet E (ID u) initialWalletUSD);
             ret (case q of Inl err \<Rightarrow> Inl (PgError err) | Inr _ \<Rightarrow> Inr u)
           }
       }
   }"

definition AuthenticatePassword :: "'v env \<Rightarrow> string \<Rightarrow> string \<Rightarrow> ('v, error + User) io" where
  "AuthenticatePassword E username password = do {
     q \<leftarrow> pg (select_login username);
     ret (case q of
            Inl err \<Rightarrow> if err = NoRows then Inl (Msg ''invalid credentials'') else Inl (PgError err)
          | Inr (u, hash) \<Rightarrow>
              if \<not> CheckPassword E hash password then Inl (Msg ''invalid credentials'') else Inr u)
   }"

definition ResolveAPIKey :: "'v env \<Rightarrow> string \<Rightarrow> ('v, error + User) io" where
  "ResolveAPIKey E bearer =
     (let secret = trim_space bearer
      in if secret = [] then ret (Inl (Msg ''missing token''))
         else
           let secret = (if \<not> has_prefix secret APIKeyPrefix then APIKeyPrefix @ secret else secret)
           in if length secret < length APIKeyPrefix + 8 then ret (Inl (Msg ''invalid key''))
              else do {
                let pfx = take 8 (drop (length APIKeyPrefix) secret);
                let keyHash = HashAPIKey E secret;
                q \<leftarrow> pg (select_key pfx keyHash);
                ret (case q of
                       Inl err \<Rightarrow> if err = NoRows then Inl (Msg ''invalid key'') else Inl (PgError err)
                     | Inr u \<Rightarrow> Inr u)
              })"

definition CreateAPIKey :: "'v env \<Rightarrow> uuid \<Rightarrow> ('v, error + uuid \<times> string \<times> string) io" where
  "CreateAPIKey E userID = do {
     g \<leftarrow> GenerateAPIKey;
     case g of
       Inl err \<Rightarrow> ret (Inl err)
     | Inr (pfx, secret) \<Rightarrow> do {
         let keyHash = HashAPIKey E secret;
         i \<leftarrow> new_uuid;
         t \<leftarrow> now;
         q \<leftarrow> pg (insert_key i t userID pfx keyHash);
         ret (case q of Inl err \<Rightarrow> Inl (PgError err) | Inr i \<Rightarrow> Inr (i, pfx, secret))
       }
   }"

definition ListAPIKeys :: "uuid \<Rightarrow> ('v, error + APIKeyRecord list) io" where
  "ListAPIKeys userID = do {
     q \<leftarrow> pg (select_keys userID);
     ret (case q of Inl err \<Rightarrow> Inl (PgError err) | Inr rows \<Rightarrow> Inr rows)
   }"

definition RevokeAPIKey :: "uuid \<Rightarrow> uuid \<Rightarrow> ('v, error option) io" where
  "RevokeAPIKey userID keyID = do {
     t \<leftarrow> now;
     q \<leftarrow> pg (update_revoked keyID userID t);
     ret (case q of
            Inl err \<Rightarrow> Some (PgError err)
          | Inr n \<Rightarrow> if n = 0 then Some (PgError NoRows) else None)
   }"

text \<open>The result is the identifier with the error, if any, and the secret of a key just made.\<close>

definition EnsureDefaultUser ::
  "'v env \<Rightarrow> string \<Rightarrow> string \<Rightarrow> float64 \<Rightarrow> float64 \<Rightarrow> ('v, error + uuid \<times> string) io" where
  "EnsureDefaultUser E username password walletUSD pricePerMinute = do {
     q \<leftarrow> pg (select_user_id username);
     case q of
       Inr i \<Rightarrow> ret (Inr (i, []))
     | Inl err \<Rightarrow>
         if err \<noteq> NoRows then ret (Inl (PgError err))
         else do {
           h \<leftarrow> HashPassword E password;
           case h of
             Inl err \<Rightarrow> ret (Inl err)
           | Inr hash \<Rightarrow> do {
               i \<leftarrow> new_uuid;
               q \<leftarrow> (case Option.bind (num_param E pricePerMinute) (num_fit E 12 6) of
                       None \<Rightarrow> ret (Inl Constraint)
                     | Some p \<Rightarrow> pg (insert_user i username hash (Some p)));
               case q of
                 Inl err \<Rightarrow> ret (Inl (PgError err))
               | Inr u \<Rightarrow> do {
                   q \<leftarrow> pg (insert_wallet E (ID u) walletUSD);
                   case q of
                     Inl err \<Rightarrow> ret (Inl (PgError err))
                   | Inr _ \<Rightarrow> do {
                       k \<leftarrow> CreateAPIKey E (ID u);
                       ret (case k of Inl err \<Rightarrow> Inl err | Inr (_, _, secret) \<Rightarrow> Inr (ID u, secret))
                     }
                 }
             }
         }
   }"

section \<open>Cookie, token and middleware\<close>

definition AuthCookieName :: string where
  "AuthCookieName = ''tts_token''"

definition authCookieMaxAge :: int where
  "authCookieMaxAge = 60 * 60 * 24 * 30"

text \<open>The header \<open>http.SetCookie\<close> writes for a cookie with these attributes.\<close>

definition cookie_text :: "string \<Rightarrow> string \<Rightarrow> int \<Rightarrow> string" where
  "cookie_text name value maxAge =
     name @ ''='' @ value @ ''; Path=/; Max-Age='' @ itoa (if maxAge < 0 then 0 else maxAge) @
     ''; HttpOnly; SameSite=Lax''"

definition SetAuthCookie :: "string \<Rightarrow> response \<Rightarrow> response" where
  "SetAuthCookie token = set_header ''Set-Cookie'' (cookie_text AuthCookieName token authCookieMaxAge)"

definition ClearAuthCookie :: "response \<Rightarrow> response" where
  "ClearAuthCookie = set_header ''Set-Cookie'' (cookie_text AuthCookieName [] (- 1))"

definition TokenFromRequest :: "request \<Rightarrow> string" where
  "TokenFromRequest r =
     (let h = rq_header r ''Authorization''
      in if has_prefix h ''Bearer '' then trim_space (trim_prefix h ''Bearer '')
         else (case rq_cookie r AuthCookieName of Some v \<Rightarrow> trim_space v | None \<Rightarrow> []))"

definition publicPaths :: "string list" where
  "publicPaths = [''/health'', ''/v1/auth/register'', ''/v1/auth/login'', ''/v1/auth/logout'']"

definition unauthorized :: response where
  "unauthorized = http_error ''{\"error\":\"unauthorized\"}'' 401"

definition BearerMiddleware :: "'v env \<Rightarrow> 'v handler \<Rightarrow> 'v handler" where
  "BearerMiddleware E next r =
     (if rq_path r \<in> set publicPaths then next r
      else
        let token = TokenFromRequest r
        in if token = [] then ret unauthorized
           else do {
             q \<leftarrow> ResolveAPIKey E token;
             case q of
               Inl err \<Rightarrow> ret unauthorized
             | Inr u \<Rightarrow> next (WithUser r u)
           })"

section \<open>Accounts that hang together\<close>

text \<open>
  The constraints of the schema on accounts and keys, and sequences of the operations above on
  any arguments.
\<close>

definition accounts_ok :: "db \<Rightarrow> bool" where
  "accounts_ok d \<longleftrightarrow>
     distinct (map u_id (users d)) \<and> distinct (map u_username (users d)) \<and>
     distinct (map k_id (api_keys d)) \<and> (\<forall>k \<in> set (api_keys d). has_user d (k_user k)) \<and>
     (\<forall>u \<in> dom (wallets d). has_user d u)"

datatype auth_op =
    Op_register string string float64
  | Op_login string string
  | Op_resolve string
  | Op_create uuid
  | Op_list uuid
  | Op_revoke uuid uuid
  | Op_default string string float64 float64

fun auth_step :: "'v env \<Rightarrow> auth_op \<Rightarrow> ('v, unit) io" where
  "auth_step E (Op_register n p w) = do { _ \<leftarrow> Register E n p w; ret () }"
| "auth_step E (Op_login n p) = do { _ \<leftarrow> AuthenticatePassword E n p; ret () }"
| "auth_step E (Op_resolve b) = do { _ \<leftarrow> ResolveAPIKey E b; ret () }"
| "auth_step E (Op_create u) = do { _ \<leftarrow> CreateAPIKey E u; ret () }"
| "auth_step E (Op_list u) = do { _ \<leftarrow> ListAPIKeys u; ret () }"
| "auth_step E (Op_revoke u k) = do { _ \<leftarrow> RevokeAPIKey u k; ret () }"
| "auth_step E (Op_default n p w r) = do { _ \<leftarrow> EnsureDefaultUser E n p w r; ret () }"

fun auth_run :: "'v env \<Rightarrow> auth_op list \<Rightarrow> ('v, unit) io" where
  "auth_run E [] = ret ()"
| "auth_run E (op # ops) = do { _ \<leftarrow> auth_step E op; auth_run E ops }"

lemma select_readonly [simp]:
  "snd (select_login n d) = d" "snd (select_key p h d) = d" "snd (select_keys u d) = d"
  "snd (select_user_id n d) = d"
  by (simp_all add: select_login_def select_key_def select_keys_def select_user_id_def
      split: option.splits list.splits)

text \<open>
  A predicate that the four writing statements keep is kept by every operation, whichever of its
  calls fail.
\<close>

definition writes_keep :: "'v env \<Rightarrow> (db \<Rightarrow> bool) \<Rightarrow> bool" where
  "writes_keep E I \<longleftrightarrow>
     (\<forall>i n h p d. I d \<longrightarrow> I (snd (insert_user i n h p d))) \<and>
     (\<forall>u a d. I d \<longrightarrow> I (snd (insert_wallet E u a d))) \<and>
     (\<forall>i t u p h d. I d \<longrightarrow> I (snd (insert_key i t u p h d))) \<and>
     (\<forall>k u t d. I d \<longrightarrow> I (snd (update_revoked k u t d)))"

lemma keeps_HashPassword [keeps_intros]: "keeps (\<lambda>s. I (w_db s)) (HashPassword E p)"
  unfolding HashPassword_def by (intro keeps_intros)

lemma keeps_GenerateAPIKey [keeps_intros]: "keeps (\<lambda>s. I (w_db s)) GenerateAPIKey"
  unfolding GenerateAPIKey_def by (intro keeps_intros)

lemma keeps_CreateAPIKey:
  assumes "writes_keep E I"
  shows "keeps (\<lambda>s. I (w_db s)) (CreateAPIKey E u)"
  unfolding CreateAPIKey_def
  by (intro keeps_intros) (use assms in \<open>simp_all add: writes_keep_def\<close>)

lemma keeps_auth_step:
  assumes "writes_keep E I"
  shows "keeps (\<lambda>s. I (w_db s)) (auth_step E op)"
proof (cases op)
  case (Op_register n p w)
  show ?thesis unfolding Op_register auth_step.simps Register_def
    by (intro keeps_intros) (use assms in \<open>simp_all add: writes_keep_def\<close>)
next
  case (Op_login n p)
  show ?thesis unfolding Op_login auth_step.simps AuthenticatePassword_def
    by (intro keeps_intros) simp_all
next
  case (Op_resolve b)
  show ?thesis unfolding Op_resolve auth_step.simps ResolveAPIKey_def
    by (intro keeps_intros) simp_all
next
  case (Op_create u)
  show ?thesis unfolding Op_create auth_step.simps
    by (intro keeps_intros keeps_CreateAPIKey assms)
next
  case (Op_list u)
  show ?thesis unfolding Op_list auth_step.simps ListAPIKeys_def
    by (intro keeps_intros) simp_all
next
  case (Op_revoke u k)
  show ?thesis unfolding Op_revoke auth_step.simps RevokeAPIKey_def
    by (intro keeps_intros) (use assms in \<open>simp_all add: writes_keep_def\<close>)
next
  case (Op_default n p w r)
  show ?thesis unfolding Op_default auth_step.simps EnsureDefaultUser_def
    by (intro keeps_intros keeps_CreateAPIKey assms) (use assms in \<open>simp_all add: writes_keep_def\<close>)
qed

lemma keeps_auth_run: "writes_keep E I \<Longrightarrow> keeps (\<lambda>s. I (w_db s)) (auth_run E ops)"
  by (induction ops) (auto intro!: keeps_intros keeps_auth_step)

lemma has_user_snoc: "has_user d u \<Longrightarrow> has_user (d\<lparr>users := users d @ us\<rparr>) u"
  by (auto simp: has_user_def)

lemma has_user_frame [simp]:
  "has_user (d\<lparr>wallets := x\<rparr>) = has_user d" "has_user (d\<lparr>api_keys := y\<rparr>) = has_user d"
  by (auto simp: has_user_def fun_eq_iff)

lemma writes_keep_accounts: "writes_keep E accounts_ok"
  unfolding writes_keep_def
proof (intro conjI allI impI)
  fix d i n h p assume a: "accounts_ok d"
  show "accounts_ok (snd (insert_user i n h p d))"
    using a by (auto simp: insert_user_def accounts_ok_def has_user_def image_iff)
next
  fix d u x assume a: "accounts_ok d"
  show "accounts_ok (snd (insert_wallet E u x d))"
    using a by (auto simp: insert_wallet_def accounts_ok_def split: option.splits)
next
  fix d i t u p h assume a: "accounts_ok d"
  show "accounts_ok (snd (insert_key i t u p h d))"
    using a by (auto simp: insert_key_def accounts_ok_def)
next
  fix d k u t assume a: "accounts_ok d"
  show "accounts_ok (snd (update_revoked k u t d))"
    using a unfolding accounts_ok_def update_revoked_def by auto
qed

text \<open>
  Whatever accounts and keys are created, listed, used or revoked, and whichever calls fail, user
  names and identifiers stay unique and every key and every wallet belongs to a user there is.
\<close>

theorem accounts_stay_consistent:
  assumes "accounts_ok (w_db s)"
  shows "accounts_ok (w_db (after (auth_run E ops) s))"
  using keepsD [OF keeps_auth_run [OF writes_keep_accounts]] assms .

lemma accounts_ok_u: "accounts_ok (w_db world_u)"
  by (simp add: accounts_ok_def has_user_def)

theorem accounts_stay_consistent_witness:
  "accounts_ok (w_db (after (auth_run mem_env
     [Op_register ''eve'' ''x'' (Fin 5), Op_create ''u'', Op_revoke ''u'' ''k'', Op_login ''dev'' ''pw'']) world_u))"
  using accounts_stay_consistent [OF accounts_ok_u] .

section \<open>The life of a key\<close>

text \<open>The secret a token stands for: trimmed, with the common prefix put back when it is missing.\<close>

definition full_secret :: "string \<Rightarrow> string" where
  "full_secret bearer =
     (let t = trim_space bearer in if has_prefix t APIKeyPrefix then t else APIKeyPrefix @ t)"

lemma select_key_result:
  "fst (select_key p h d) = Inr usr \<Longrightarrow>
     \<exists>k u. k \<in> set (api_keys d) \<and> live_key p h k \<and> u \<in> set (users d) \<and> u_id u = k_user k \<and>
       usr = \<lparr>ID = u_id u, Username = u_username u\<rparr>"
proof -
  assume a: "fst (select_key p h d) = Inr usr"
  let ?us = "[u. k \<leftarrow> filter (live_key p h) (api_keys d), u \<leftarrow> users d, u_id u = k_user k]"
  obtain u us where us: "?us = u # us" "usr = \<lparr>ID = u_id u, Username = u_username u\<rparr>"
    using a unfolding select_key_def by (cases ?us) auto
  then have "u \<in> set ?us" by simp
  then show ?thesis using us(2) by auto
qed

lemma select_key_unique:
  assumes "k \<in> set (api_keys d)" and "live_key p h k" and "u \<in> set (users d)" and "u_id u = k_user k"
    and "\<And>k'. k' \<in> set (api_keys d) \<Longrightarrow> live_key p h k' \<Longrightarrow> k_user k' = k_user k"
    and "\<And>x. x \<in> set (users d) \<Longrightarrow> u_id x = k_user k \<Longrightarrow> x = u"
  shows "fst (select_key p h d) = Inr \<lparr>ID = u_id u, Username = u_username u\<rparr>"
proof -
  let ?us = "[u. k \<leftarrow> filter (live_key p h) (api_keys d), u \<leftarrow> users d, u_id u = k_user k]"
  have mem: "x \<in> set ?us \<longleftrightarrow>
      (\<exists>k \<in> set (api_keys d). live_key p h k \<and> x \<in> set (users d) \<and> u_id x = k_user k)" for x
    by auto
  have "u \<in> set ?us" unfolding mem using assms(1-4) by blast
  then obtain v vs where v: "?us = v # vs" by (cases ?us) auto
  then have "v \<in> set ?us" by simp
  then have "v = u" unfolding mem using assms(5,6) by metis
  then show ?thesis using v unfolding select_key_def by simp
qed

text \<open>A token resolves to the owner of a live key with the secret's hash, and only to one.\<close>

lemma ResolveAPIKey_sound:
  assumes "result (ResolveAPIKey E bearer) s = Inr usr"
  shows "\<exists>k u. k \<in> set (api_keys (w_db s)) \<and> k_revoked_at k = None \<and>
    k_hash k = HashAPIKey E (full_secret bearer) \<and> u \<in> set (users (w_db s)) \<and> u_id u = k_user k \<and>
    usr = \<lparr>ID = u_id u, Username = u_username u\<rparr>"
proof -
  obtain p where "fst (select_key p (HashAPIKey E (full_secret bearer)) (w_db s)) = Inr usr"
    using assms
    by (auto simp: ResolveAPIKey_def Let_def full_secret_def result_pg split: if_splits sum.splits)
  from select_key_result [OF this] show ?thesis by (auto simp: live_key_def)
qed

definition revoked_for_good :: "uuid \<Rightarrow> db \<Rightarrow> bool" where
  "revoked_for_good kid d \<longleftrightarrow>
     kid \<in> k_id ` set (api_keys d) \<and> (\<forall>k \<in> set (api_keys d). k_id k = kid \<longrightarrow> k_revoked_at k \<noteq> None)"

lemma writes_keep_revoked: "writes_keep E (revoked_for_good kid)"
proof -
  have "revoked_for_good kid (snd (update_revoked k u t d))" if "revoked_for_good kid d" for k u t d
    using that set_revoked_revoked unfolding revoked_for_good_def update_revoked_def
    by (simp add: image_image)
  moreover have "revoked_for_good kid (snd (insert_key i t u p h d))" if "revoked_for_good kid d" for i t u p h d
    using that by (auto simp: revoked_for_good_def insert_key_def)
  moreover have "api_keys (snd (insert_user i n h p d)) = api_keys d" "api_keys (snd (insert_wallet E u a d)) = api_keys d"
    for i n h p u a d
    by (simp_all add: insert_user_def insert_wallet_def split: option.splits)
  then have "revoked_for_good kid (snd (insert_user i n h p d)) = revoked_for_good kid d"
    "revoked_for_good kid (snd (insert_wallet E u a d)) = revoked_for_good kid d" for i n h p u a d
    unfolding revoked_for_good_def by metis+
  ultimately show ?thesis unfolding writes_keep_def by blast
qed

lemma RevokeAPIKey_run:
  "result (RevokeAPIKey uid kid) s = None \<longleftrightarrow>
     w_orc s 0 = 0 \<and> (\<exists>k \<in> set (api_keys (w_db s)). revocable kid uid k)"
  by (auto simp: RevokeAPIKey_def result_pg update_revoked_def filter_empty_conv)

lemma w_db_after_Revoke:
  "w_db (after (RevokeAPIKey uid kid) s) =
     (if w_orc s 0 = 1 then w_db s else snd (update_revoked kid uid (w_clk s 0) (w_db s)))"
  by (simp add: RevokeAPIKey_def w_db_after_pg)

text \<open>
  C8: Once a key has been revoked, no later state reached by any operations on accounts and keys
  accepts a token on its account: a token that is accepted then stands for another key, live and
  with the same hash, of the user it is accepted as.
\<close>

theorem revoked_key_stays_dead:
  assumes "accounts_ok (w_db s)" and "result (RevokeAPIKey uid kid) s = None"
    and "t = after (auth_run E ops) (after (RevokeAPIKey uid kid) s)"
    and "result (ResolveAPIKey E bearer) t = Inr usr"
  shows "\<exists>k \<in> set (api_keys (w_db t)). k_id k \<noteq> kid \<and> k_revoked_at k = None
    \<and> k_hash k = HashAPIKey E (full_secret bearer) \<and> k_user k = ID usr"
proof -
  let ?s' = "after (RevokeAPIKey uid kid) s"
  obtain k where k: "k \<in> set (api_keys (w_db s))" "revocable kid uid k" and o0: "w_orc s 0 = 0"
    using assms(2) RevokeAPIKey_run by blast
  have only: "r = k" if "r \<in> set (api_keys (w_db s))" "k_id r = kid" for r
    using that k assms(1) by (auto simp: accounts_ok_def distinct_map revocable_def inj_on_def)
  have "k_revoked_at (set_revoked kid uid (w_clk s 0) k) \<noteq> None" using k(2) by (simp add: set_revoked_def)
  then have dead: "k_revoked_at (set_revoked kid uid (w_clk s 0) r) \<noteq> None"
    if "r \<in> set (api_keys (w_db s))" "k_id r = kid" for r
    using only [OF that] by simp
  have "api_keys (w_db ?s') = map (set_revoked kid uid (w_clk s 0)) (api_keys (w_db s))"
    using o0 by (simp add: w_db_after_Revoke update_revoked_def)
  moreover have "kid \<in> k_id ` set (api_keys (w_db s))" using k by (auto simp: revocable_def)
  ultimately have "revoked_for_good kid (w_db ?s')"
    using dead by (simp add: revoked_for_good_def image_image)
  then have "revoked_for_good kid (w_db t)"
    unfolding assms(3) by (rule keepsD [OF keeps_auth_run [OF writes_keep_revoked]])
  moreover obtain k' u where k': "k' \<in> set (api_keys (w_db t))" "k_revoked_at k' = None"
    "k_hash k' = HashAPIKey E (full_secret bearer)" "k_user k' = ID usr"
    using ResolveAPIKey_sound [OF assms(4)] by auto
  ultimately have "k_id k' \<noteq> kid" by (auto simp: revoked_for_good_def)
  then show ?thesis using k' by blast
qed

definition row_k :: "uuid \<Rightarrow> string \<Rightarrow> api_key_row" where
  "row_k i secret = \<lparr>k_id = i, k_user = ''u'', k_prefix = take 8 (drop 3 secret),
     k_hash = HashAPIKey mem_env secret, k_revoked_at = None, k_created_at = 0\<rparr>"

definition world_k :: "mem world" where
  "world_k = world_u\<lparr>w_db := db_u\<lparr>api_keys := [row_k ''k1'' ''sk-11111111'', row_k ''k2'' ''sk-22222222'']\<rparr>\<rparr>"

theorem revoked_key_stays_dead_witness:
  "\<exists>usr t. t = after (auth_run mem_env [Op_list ''u'']) (after (RevokeAPIKey ''u'' ''k1'') world_k)
    \<and> result (ResolveAPIKey mem_env ''22222222'') t = Inr usr
    \<and> (\<exists>k \<in> set (api_keys (w_db t)). k_id k \<noteq> ''k1'' \<and> k_user k = ID usr)"
proof -
  define t where t: "t = after (auth_run mem_env [Op_list ''u'']) (after (RevokeAPIKey ''u'' ''k1'') world_k)"
  have ok: "accounts_ok (w_db world_k)"
    by (simp add: accounts_ok_def has_user_def world_k_def row_k_def)
  have r: "result (RevokeAPIKey ''u'' ''k1'') world_k = None"
    by (simp add: RevokeAPIKey_run world_k_def row_k_def revocable_def)
  have db: "w_db t = (w_db world_k)\<lparr>api_keys :=
      [(row_k ''k1'' ''sk-11111111'')\<lparr>k_revoked_at := Some 0\<rparr>, row_k ''k2'' ''sk-22222222'']\<rparr>"
    and o0: "w_orc t 0 = 0"
    by (simp_all add: t ListAPIKeys_def pg_readonly w_db_after_Revoke update_revoked_def set_revoked_def
        world_k_def row_k_def revocable_def) (simp add: RevokeAPIKey_def)
  have "trim_space ''22222222'' = ''22222222''"
    by (rule trim_space_graphic) (simp add: graphic_def)
  then obtain usr where u: "result (ResolveAPIKey mem_env ''22222222'') t = Inr usr"
    by (simp add: ResolveAPIKey_def result_pg db o0 APIKeyPrefix_def has_prefix_def select_key_def
        live_key_def row_k_def world_k_def Let_def)
  show ?thesis using revoked_key_stays_dead [OF ok r t u] u t by blast
qed

text \<open>
  Revoking succeeds exactly for a key that is the caller's own and still live, and whatever it
  answers, every other key, of this user or of another, is left as it was.
\<close>

theorem revoke_only_own_live_key:
  "(result (RevokeAPIKey uid kid) s = None \<longleftrightarrow>
      w_orc s 0 = 0 \<and> (\<exists>k \<in> set (api_keys (w_db s)). k_id k = kid \<and> k_user k = uid \<and> k_revoked_at k = None))
   \<and> filter (\<lambda>k. \<not> (k_id k = kid \<and> k_user k = uid)) (api_keys (w_db (after (RevokeAPIKey uid kid) s))) =
     filter (\<lambda>k. \<not> (k_id k = kid \<and> k_user k = uid)) (api_keys (w_db s))"
proof -
  have "filter (\<lambda>k. \<not> (k_id k = kid \<and> k_user k = uid)) (map (set_revoked kid uid t) xs) =
      filter (\<lambda>k. \<not> (k_id k = kid \<and> k_user k = uid)) xs" for xs t
    by (induction xs) (auto simp: revocable_def set_revoked_def)
  then show ?thesis
    by (auto simp: RevokeAPIKey_run revocable_def w_db_after_Revoke update_revoked_def)
qed

lemma GenerateAPIKey_result:
  "result GenerateAPIKey s = Inr (p, secret) \<Longrightarrow>
     \<exists>raw. length raw = 24 \<and> p = take 8 (hex_encode raw) \<and> secret = APIKeyPrefix @ hex_encode raw"
  by (auto simp: GenerateAPIKey_def Let_def hex_encode_inject split: if_splits)

lemma CreateAPIKey_result:
  assumes "result (CreateAPIKey E uid) s = Inr (i, p, secret)"
  shows "\<exists>raw row. length raw = 24 \<and> p = take 8 (hex_encode raw) \<and> secret = APIKeyPrefix @ hex_encode raw \<and>
    k_id row = i \<and> k_user row = uid \<and> live_key p (HashAPIKey E secret) row \<and>
    w_db (after (CreateAPIKey E uid) s) = (w_db s)\<lparr>api_keys := api_keys (w_db s) @ [row]\<rparr>"
proof -
  let ?g = "result GenerateAPIKey s" and ?s' = "after GenerateAPIKey s"
  have g: "?g = Inr (p, secret)"
    using assms by (auto simp: CreateAPIKey_def Let_def split: sum.splits)
  have d: "w_db ?s' = w_db s" by (simp add: GenerateAPIKey_def rand_bytes_def Let_def)
  let ?row = "\<lparr>k_id = i, k_user = uid, k_prefix = p, k_hash = HashAPIKey E secret, k_revoked_at = None,
    k_created_at = w_clk ?s' 0\<rparr>"
  have "w_db (after (CreateAPIKey E uid) s) = (w_db s)\<lparr>api_keys := api_keys (w_db s) @ [?row]\<rparr>"
    using assms g d
    by (auto simp: CreateAPIKey_def Let_def result_pg w_db_after_pg insert_key_def split: if_splits)
  moreover have "live_key p (HashAPIKey E secret) ?row" by (simp add: live_key_def)
  moreover have "k_id ?row = i" "k_user ?row = uid" by simp_all
  ultimately show ?thesis using GenerateAPIKey_result [OF g] by blast
qed

lemma full_secret_hex:
  assumes "secret = APIKeyPrefix @ hex_encode raw" and "bearer = secret \<or> bearer = hex_encode raw"
  shows "full_secret bearer = secret"
proof -
  have g: "list_all graphic (hex_encode raw)" using hex_encode_chars(1) by (auto simp: list_all_iff)
  have "list_all graphic secret" using g by (simp add: assms(1) APIKeyPrefix_def graphic_def)
  then have t: "trim_space bearer = bearer" using g assms(2) trim_space_graphic by auto
  have "\<not> has_prefix (hex_encode raw) APIKeyPrefix"
    using hex_encode_chars(2) [of "CHR ''s''" raw] by (auto simp: has_prefix_iff APIKeyPrefix_def)
  then show ?thesis using t assms by (auto simp: full_secret_def)
qed

text \<open>
  C32: A key just created opens the account it was created for, with its prefix or without, as long as
  no key of another user has the same hash.
\<close>

theorem created_key_resolves:
  assumes "accounts_ok (w_db s)" and "result (CreateAPIKey E uid) s = Inr (i, p, secret)"
    and "\<forall>k \<in> set (api_keys (w_db s)). k_hash k = HashAPIKey E secret \<longrightarrow> k_user k = uid"
    and "u \<in> set (users (w_db s))" and "u_id u = uid"
    and "bearer = secret \<or> bearer = drop (length APIKeyPrefix) secret"
    and "w_db t = w_db (after (CreateAPIKey E uid) s)" and "w_orc t 0 = 0"
  shows "result (ResolveAPIKey E bearer) t = Inr \<lparr>ID = uid, Username = u_username u\<rparr>"
proof -
  obtain raw row where r: "length raw = 24" "p = take 8 (hex_encode raw)" "secret = APIKeyPrefix @ hex_encode raw"
    "k_user row = uid" "live_key p (HashAPIKey E secret) row"
    and d: "w_db t = (w_db s)\<lparr>api_keys := api_keys (w_db s) @ [row]\<rparr>"
    using CreateAPIKey_result [OF assms(2)] assms(7) by auto
  have b: "bearer = secret \<or> bearer = hex_encode raw" using assms(6) r(3) by simp
  have full: "full_secret bearer = secret" by (rule full_secret_hex [OF r(3) b])
  have len: "length secret = 51" using r(1,3) by (simp add: APIKeyPrefix_def)
  have ne: "trim_space bearer \<noteq> []"
  proof
    assume "trim_space bearer = []"
    then have "full_secret bearer = APIKeyPrefix" by (simp add: full_secret_def has_prefix_def APIKeyPrefix_def)
    then show False using full len by (simp add: APIKeyPrefix_def)
  qed
  have res: "result (ResolveAPIKey E bearer) t =
      (case fst (select_key p (HashAPIKey E secret) (w_db t)) of
         Inl err \<Rightarrow> if err = NoRows then Inl (Msg ''invalid key'') else Inl (PgError err)
       | Inr u \<Rightarrow> Inr u)"
    using full ne len r(2,3) assms(8)
    by (simp add: ResolveAPIKey_def full_secret_def Let_def result_pg APIKeyPrefix_def
        split: if_splits)
  have "fst (select_key p (HashAPIKey E secret) (w_db t)) = Inr \<lparr>ID = u_id u, Username = u_username u\<rparr>"
  proof (rule select_key_unique [where k = row])
    show "k_user k = k_user row" if "k \<in> set (api_keys (w_db t))" "live_key p (HashAPIKey E secret) k" for k
      using that assms(3) r(4) by (auto simp: d live_key_def)
    show "x = u" if "x \<in> set (users (w_db t))" "u_id x = k_user row" for x
      using that assms(1,4,5) r(4) by (auto simp: d accounts_ok_def distinct_map inj_on_def)
  qed (use r assms(4,5) in \<open>simp_all add: d\<close>)
  then show ?thesis using res assms(5) by simp
qed

theorem created_key_resolves_witness:
  "\<exists>i p secret. result (CreateAPIKey mem_env ''u'') world_u = Inr (i, p, secret)
    \<and> result (ResolveAPIKey mem_env secret) (after (CreateAPIKey mem_env ''u'') world_u) =
        Inr \<lparr>ID = ''u'', Username = ''dev''\<rparr>"
proof -
  obtain i p secret where c: "result (CreateAPIKey mem_env ''u'') world_u = Inr (i, p, secret)"
    by (simp add: CreateAPIKey_def GenerateAPIKey_def result_pg insert_key_def has_user_def Let_def)
  let ?t = "after (CreateAPIKey mem_env ''u'') world_u"
  have o0: "w_orc ?t 0 = 0"
    by (simp add: CreateAPIKey_def GenerateAPIKey_def Let_def)
  have "result (ResolveAPIKey mem_env secret) ?t =
      Inr \<lparr>ID = ''u'', Username = u_username \<lparr>u_id = ''u'', u_username = ''dev'', u_password_hash = ''$pw'', u_price = None\<rparr>\<rparr>"
    by (rule created_key_resolves [OF accounts_ok_u c _ _ _ _ refl o0]) simp_all
  then show ?thesis using c by simp
qed

section \<open>Accounts\<close>

lemma HashPassword_run:
  "result (HashPassword E p) s =
     (case bcrypt_gen E p (result (rand_bytes 16) s) of None \<Rightarrow> Inl HashError | Some b \<Rightarrow> Inr b)"
  "after (HashPassword E p) s = after (rand_bytes 16) s"
  by (simp_all add: HashPassword_def)

lemma find_snoc: "find P (xs @ [x]) = (case find P xs of None \<Rightarrow> if P x then Some x else None | Some y \<Rightarrow> Some y)"
  by (induction xs) auto

text \<open>
  C37: A registration that is reported as done leaves a user with a wallet, and the same name and
  password then log in as that user.
\<close>

theorem register_then_login:
  assumes "\<forall>p salt h. bcrypt_gen E p salt = Some h \<longrightarrow> bcrypt_ok E h p"
    and "result (Register E name pw amount) s = Inr u"
    and "w_db t = w_db (after (Register E name pw amount) s)" and "w_orc t 0 = 0"
  shows "result (AuthenticatePassword E name pw) t = Inr u \<and> wallets (w_db t) (ID u) \<noteq> None \<and> Username u = name"
proof -
  obtain h where h: "bcrypt_gen E pw (result (rand_bytes 16) s) = Some h"
    using assms(2) by (auto simp: Register_def HashPassword_run split: option.splits sum.splits)
  let ?row = "\<lparr>u_id = w_ids s 0, u_username = name, u_password_hash = h, u_price = None\<rparr>"
  have n: "pg_text name" using assms(2) h
    by (auto simp: Register_def HashPassword_run result_pg insert_user_def split: if_splits)
  have r: "\<not> (\<exists>x \<in> set (users (w_db s)). u_username x = name)" "u = \<lparr>ID = w_ids s 0, Username = name\<rparr>"
    and d: "users (w_db t) = users (w_db s) @ [?row]" "wallets (w_db t) (w_ids s 0) \<noteq> None"
    using assms(2,3) h
    by (auto simp: Register_def HashPassword_run result_pg w_db_after_pg insert_user_def insert_wallet_def
        split: if_splits option.splits)
  have "find (\<lambda>x. u_username x = name) (users (w_db s)) = None"
    using r(1) by (auto simp: find_None_iff)
  then have "find (\<lambda>x. u_username x = name) (users (w_db t)) = Some ?row"
    by (simp add: d find_snoc)
  then show ?thesis using r(2) d(2) h n assms(1,4)
    by (simp add: AuthenticatePassword_def result_pg select_login_def CheckPassword_def)
qed

theorem register_then_login_witness:
  "\<exists>u. result (Register mem_env ''eve'' ''x'' (Fin 5)) world_u = Inr u
    \<and> result (AuthenticatePassword mem_env ''eve'' ''x'') (after (Register mem_env ''eve'' ''x'' (Fin 5)) world_u) = Inr u"
proof -
  have id0: "w_ids world_u 0 \<noteq> ''u''" by (simp add: world_u_def world0_def)
  obtain u where r: "result (Register mem_env ''eve'' ''x'' (Fin 5)) world_u = Inr u"
    using id0 by (simp add: Register_def HashPassword_run mem_env_simps result_pg w_db_after_pg insert_user_def
        insert_wallet_def has_user_def pg_text_def)
  have o0: "w_orc (after (Register mem_env ''eve'' ''x'' (Fin 5)) world_u) 0 = 0"
    by (simp add: Register_def HashPassword_run mem_env_simps result_pg insert_user_def has_user_def
        split: sum.splits)
  have "\<forall>p salt h. bcrypt_gen mem_env p salt = Some h \<longrightarrow> bcrypt_ok mem_env h p"
    by (simp add: mem_env_simps)
  from register_then_login [OF this r refl o0] show ?thesis using r by blast
qed

text \<open>
  C38: Registration is two separate statements: when the second fails, the caller gets an error, yet
  the account exists without a wallet, and no later attempt with that name can succeed.
\<close>

theorem register_failure_keeps_name:
  assumes "accounts_ok (w_db s)" and "w_orc s 0 = 0" and "w_orc s 1 = 1"
    and "bcrypt_gen E pw (result (rand_bytes 16) s) = Some h"
    and "\<not> has_user (w_db s) (w_ids s 0)" and "\<forall>x \<in> set (users (w_db s)). u_username x \<noteq> name" and "pg_text name"
    and t_def: "t = after (Register E name pw amount) s"
  shows "result (Register E name pw amount) s = Inl (PgError ConnFailed)
    \<and> has_user (w_db t) (w_ids s 0) \<and> wallets (w_db t) (w_ids s 0) = None
    \<and> (\<forall>t' pw' amount' u. w_db t' = w_db t \<longrightarrow> result (Register E name pw' amount') t' \<noteq> Inr u)"
proof -
  let ?row = "\<lparr>u_id = w_ids s 0, u_username = name, u_password_hash = h, u_price = None\<rparr>"
  have r: "result (Register E name pw amount) s = Inl (PgError ConnFailed)"
    and d: "w_db t = (w_db s)\<lparr>users := users (w_db s) @ [?row]\<rparr>"
    using assms(2-7)
    by (simp_all add: t_def Register_def HashPassword_run result_pg w_db_after_pg insert_user_def)
  have w: "wallets (w_db t) (w_ids s 0) = None"
    using assms(1,5) by (auto simp: d accounts_ok_def dom_def)
  have "result (Register E name pw' amount') t' \<noteq> Inr u" if "w_db t' = w_db t" for t' pw' amount' u
  proof -
    have "\<exists>x \<in> set (users (w_db t')). u_username x = name" using that d by auto
    then have "fst (insert_user i name hh None (w_db t')) = Inl Constraint" for i hh
      by (simp add: insert_user_def)
    then show ?thesis
      by (auto simp: Register_def HashPassword_run result_pg split: option.splits sum.splits if_splits)
  qed
  then show ?thesis using r w by (simp add: d has_user_def)
qed

theorem register_failure_keeps_name_witness:
  "\<exists>s. result (Register mem_env ''eve'' ''x'' (Fin 5)) s = Inl (PgError ConnFailed)
    \<and> has_user (w_db (after (Register mem_env ''eve'' ''x'' (Fin 5)) s)) (w_ids s 0)"
proof -
  let ?s = "world_u\<lparr>w_orc := (\<lambda>n. if n = 1 then 1 else 0)\<rparr>"
  have b: "bcrypt_gen mem_env ''x'' (result (rand_bytes 16) ?s) = Some ''$x''"
    by (simp add: mem_env_simps)
  have "result (Register mem_env ''eve'' ''x'' (Fin 5)) ?s = Inl (PgError ConnFailed)
    \<and> has_user (w_db (after (Register mem_env ''eve'' ''x'' (Fin 5)) ?s)) (w_ids ?s 0)"
    using register_failure_keeps_name [OF _ _ _ b _ _ _ refl, of "''eve''" "Fin 5"] accounts_ok_u
    by (simp add: pg_text_def has_user_def world_u_def [THEN arg_cong, of w_ids] world0_def)
  then show ?thesis by blast
qed

section \<open>The middleware\<close>

lemma bearer_refuses:
  assumes "rq_path r \<notin> set publicPaths"
    and "\<forall>k \<in> set (api_keys (w_db s)). k_revoked_at k = None \<longrightarrow>
      k_hash k \<noteq> HashAPIKey E (full_secret (TokenFromRequest r))"
    and t_def: "t = after (BearerMiddleware E next r) s"
  shows "result (BearerMiddleware E next r) s = unauthorized
    \<and> w_db t = w_db s \<and> w_ext t = w_ext s \<and> w_out t = w_out s"
proof (cases "TokenFromRequest r = []")
  case True
  then show ?thesis using assms(1) by (simp add: BearerMiddleware_def t_def)
next
  case False
  let ?q = "ResolveAPIKey E (TokenFromRequest r)"
  obtain err where e: "result ?q s = Inl err"
    using ResolveAPIKey_sound [of E "TokenFromRequest r" s] assms(2) by (cases "result ?q s") blast+
  have "w_db (after ?q s) = w_db s" "w_ext (after ?q s) = w_ext s" "w_out (after ?q s) = w_out s"
    by (simp_all add: ResolveAPIKey_def Let_def pg_readonly)
  then show ?thesis using assms(1) False e by (simp add: BearerMiddleware_def t_def Let_def)
qed

end
