(* ===== verification/Metering.thy ===== *)
theory Metering
  imports Billing Wallet "HOL-Library.Sublist"
begin

text \<open>
  The metering service, \<open>metering/internal/consumer/consumer.go\<close>: events arrive on the queue and
  are gathered per user; every tick takes what has been gathered, records each event, debits the
  user's wallet once by the sum and drops the wallet's cached copy.  The mutex makes taking the
  batch and adding an event atomic, and the debits work on the batch alone, so a run of the
  service is a list of deliveries and ticks.  Go leaves the order of the users of a batch open: it
  is an argument of the tick.
\<close>

section \<open>Events\<close>

record BillableEvent =
  e_IdempotencyKey :: string
  e_UserID :: string
  e_RequestID :: string
  e_Transport :: string
  e_AudioSeconds :: float64
  e_OccurredAt :: instant

definition event0 :: BillableEvent where
  "event0 = \<lparr>e_IdempotencyKey = [], e_UserID = [], e_RequestID = [], e_Transport = [],
     e_AudioSeconds = f0, e_OccurredAt = zero_time\<rparr>"

text \<open>\<open>time.Time\<close> reads a string in the RFC 3339 form.\<close>

fun dec_time :: "'v env \<Rightarrow> instant \<Rightarrow> json \<Rightarrow> instant option" where
  "dec_time E cur JNull = Some cur"
| "dec_time E cur (JStr s) = text_time E s"
| "dec_time E cur _ = None"

definition event_step :: "'v env \<Rightarrow> BillableEvent \<Rightarrow> string \<Rightarrow> json \<Rightarrow> BillableEvent option" where
  "event_step E e k v =
     (if key_is ''idempotency_key'' k
      then map_option (\<lambda>x. e\<lparr>e_IdempotencyKey := x\<rparr>) (dec_string (e_IdempotencyKey e) v)
      else if key_is ''user_id'' k then map_option (\<lambda>x. e\<lparr>e_UserID := x\<rparr>) (dec_string (e_UserID e) v)
      else if key_is ''request_id'' k
      then map_option (\<lambda>x. e\<lparr>e_RequestID := x\<rparr>) (dec_string (e_RequestID e) v)
      else if key_is ''transport'' k
      then map_option (\<lambda>x. e\<lparr>e_Transport := x\<rparr>) (dec_string (e_Transport e) v)
      else if key_is ''audio_seconds'' k
      then map_option (\<lambda>x. e\<lparr>e_AudioSeconds := x\<rparr>) (dec_f64 (e_AudioSeconds e) v)
      else if key_is ''occurred_at'' k
      then map_option (\<lambda>x. e\<lparr>e_OccurredAt := x\<rparr>) (dec_time E (e_OccurredAt e) v)
      else Some e)"

section \<open>The consumer\<close>

record Consumer =
  c_defPPM :: float64
  batch :: duration
  pending :: "string \<rightharpoonup> BillableEvent list"

definition NewConsumer :: "float64 \<Rightarrow> duration \<Rightarrow> Consumer" where
  "NewConsumer defaultPPM b = \<lparr>c_defPPM = defaultPPM, batch = b, pending = Map.empty\<rparr>"

text \<open>The handler \<open>Run\<close> subscribes with: a message that is not an event is logged and dropped.\<close>

definition on_message :: "'v env \<Rightarrow> doc \<Rightarrow> Consumer \<Rightarrow> Consumer" where
  "on_message E data c =
     (case unmarshal (event_step E) event0 data of
        None \<Rightarrow> c
      | Some e \<Rightarrow>
          c\<lparr>pending := (pending c)(e_UserID e \<mapsto>
              (case pending c (e_UserID e) of None \<Rightarrow> [] | Some es \<Rightarrow> es) @ [e])\<rparr>)"

section \<open>Prices and debits\<close>

definition price_step :: "float64 \<Rightarrow> string \<Rightarrow> json \<Rightarrow> float64 option" where
  "price_step p k v = (if key_is ''price_per_audio_minute_usd'' k then dec_f64 p v else Some p)"

definition select_price :: "'v env \<Rightarrow> string \<Rightarrow> db \<Rightarrow> (pg_error + rat option) \<times> db" where
  "select_price E userID d =
     (case pg_uuid E userID of
        None \<Rightarrow> (Inl Constraint, d)
      | Some uid \<Rightarrow>
          (case find (\<lambda>u. u_id u = uid) (users d) of
             None \<Rightarrow> (Inl NoRows, d) | Some u \<Rightarrow> (Inr (u_price u), d)))"

definition cached_price :: "get_reply \<Rightarrow> float64 option" where
  "cached_price r =
     (case r of
        Hit val \<Rightarrow>
          (case unmarshal price_step f0 val of
             Some p \<Rightarrow> if flt_less f0 p then Some p else None
           | None \<Rightarrow> None)
      | _ \<Rightarrow> None)"

definition wallet_key :: "string \<Rightarrow> string" where
  "wallet_key userID = ''user:'' @ userID @ '':wallet''"

definition pricePerMinute :: "'v env \<Rightarrow> Consumer \<Rightarrow> string \<Rightarrow> ('v, error + float64) io" where
  "pricePerMinute E c userID = do {
     r \<leftarrow> ext (vk_get E (wallet_key userID));
     case cached_price r of
       Some p \<Rightarrow> ret (Inr p)
     | None \<Rightarrow> do {
         q \<leftarrow> pg (select_price E userID);
         ret (case q of
                Inl err \<Rightarrow> Inl (PgError err)
              | Inr (Some p) \<Rightarrow> Inr (num_scan E p)
              | Inr None \<Rightarrow> Inr (c_defPPM c))
       }
   }"

definition event_cost :: "float64 \<Rightarrow> float64 \<Rightarrow> float64" where
  "event_cost sec ppm = fmul (fdiv sec (Fin 60)) ppm"

text \<open>
  The insertion with \<open>ON CONFLICT (idempotency_key) DO NOTHING\<close>: the parameters are checked and
  converted first; a recorded key leaves the table as it is and is no error.
\<close>

definition event_text :: "BillableEvent \<Rightarrow> bool" where
  "event_text e \<longleftrightarrow> pg_text (e_IdempotencyKey e) \<and> pg_text (e_RequestID e) \<and> pg_text (e_Transport e)"

definition insert_usage ::
  "'v env \<Rightarrow> uuid \<Rightarrow> string \<Rightarrow> BillableEvent \<Rightarrow> float64 \<Rightarrow> db \<Rightarrow> (pg_error + unit) \<times> db" where
  "insert_usage E i userID e cost d =
     (case (pg_uuid E userID, Option.bind (num_param E (e_AudioSeconds e)) (num_fit E 12 6),
            Option.bind (num_param E cost) (num_fit E 14 6)) of
        (Some uid, Some sec, Some c) \<Rightarrow>
          if \<not> event_text e then (Inl Constraint, d)
          else if e_IdempotencyKey e \<in> ue_key ` set (usage_events d) then (Inr (), d)
          else if \<not> has_user d uid \<or> i \<in> ue_id ` set (usage_events d) then (Inl Constraint, d)
          else (Inr (), d\<lparr>usage_events := usage_events d @
            [\<lparr>ue_id = i, ue_user = uid, ue_key = e_IdempotencyKey e, ue_request = e_RequestID e,
              ue_transport = e_Transport e, ue_seconds = sec, ue_cost = c,
              ue_occurred = e_OccurredAt e\<rparr>]\<rparr>)
      | _ \<Rightarrow> (Inl Constraint, d))"

definition update_wallet :: "'v env \<Rightarrow> string \<Rightarrow> float64 \<Rightarrow> db \<Rightarrow> (pg_error + unit) \<times> db" where
  "update_wallet E userID totalCost d =
     (case (pg_uuid E userID, num_param E totalCost) of
        (Some uid, Some x) \<Rightarrow>
          (case wallets d uid of
             None \<Rightarrow> (Inr (), d)
           | Some bal \<Rightarrow>
               (case num_fit E 14 6 (max (bal - x) 0) of
                  None \<Rightarrow> (Inl Constraint, d)
                | Some bal' \<Rightarrow> (Inr (), d\<lparr>wallets := (wallets d)(uid \<mapsto> bal')\<rparr>)))
      | _ \<Rightarrow> (Inl Constraint, d))"

definition insert_txn :: "'v env \<Rightarrow> string \<Rightarrow> float64 \<Rightarrow> string \<Rightarrow> db \<Rightarrow> (pg_error + unit) \<times> db" where
  "insert_txn E userID amount ref d =
     (case (pg_uuid E userID, Option.bind (num_param E amount) (num_fit E 14 6)) of
        (Some uid, Some x) \<Rightarrow>
          if has_user d uid \<and> pg_text ref
          then (Inr (), d\<lparr>txns := txns d @ [\<lparr>tx_user = uid, tx_amount = x, tx_reference = ref\<rparr>]\<rparr>)
          else (Inl Constraint, d)
      | _ \<Rightarrow> (Inl Constraint, d))"

text \<open>The loop of \<open>debitUser\<close>, with the running total.\<close>

fun record_events ::
  "'v env \<Rightarrow> Consumer \<Rightarrow> string \<Rightarrow> float64 \<Rightarrow> BillableEvent list \<Rightarrow> ('v, error + float64) io" where
  "record_events E c userID totalCost [] = ret (Inr totalCost)"
| "record_events E c userID totalCost (e # es) = do {
     p \<leftarrow> pricePerMinute E c userID;
     case p of
       Inl err \<Rightarrow> ret (Inl err)
     | Inr ppm \<Rightarrow> do {
         let cost = event_cost (e_AudioSeconds e) ppm;
         i \<leftarrow> new_uuid;
         q \<leftarrow> pg (insert_usage E i userID e cost);
         case q of
           Inl err \<Rightarrow> ret (Inl (PgError err))
         | Inr _ \<Rightarrow> record_events E c userID (fadd totalCost cost) es
       }
   }"

definition debitUser :: "'v env \<Rightarrow> Consumer \<Rightarrow> string \<Rightarrow> BillableEvent list \<Rightarrow> ('v, error option) io" where
  "debitUser E c userID events = do {
     r \<leftarrow> record_events E c userID f0 events;
     case r of
       Inl err \<Rightarrow> ret (Some err)
     | Inr totalCost \<Rightarrow>
         if flt_le totalCost f0 then ret None
         else do {
           q \<leftarrow> pg (update_wallet E userID totalCost);
           case q of
             Inl err \<Rightarrow> ret (Some (PgError err))
           | Inr _ \<Rightarrow> do {
               _ \<leftarrow> pg (insert_txn E userID (fneg totalCost) (e_RequestID (hd events)));
               _ \<leftarrow> ext (vk_del E (wallet_key userID));
               ret None
             }
         }
   }"

fun debit_batch ::
  "'v env \<Rightarrow> Consumer \<Rightarrow> (string \<rightharpoonup> BillableEvent list) \<Rightarrow> string list \<Rightarrow> ('v, unit) io" where
  "debit_batch E c b [] = ret ()"
| "debit_batch E c b (userID # rest) = do {
     let events = (case b userID of None \<Rightarrow> [] | Some es \<Rightarrow> es);
     err \<leftarrow> debitUser E c userID events;
     _ \<leftarrow> (case err of
            Some _ \<Rightarrow> emit (Observed ''metering_debit_errors_total'' [] (Fin 1))
          | None \<Rightarrow> emit (Observed ''metering_events_processed_total'' [] (f_of_int (int (length events)))));
     debit_batch E c b rest
   }"

text \<open>\<open>order\<close> is the order in which the range over the batch visits its users.\<close>

definition flush :: "'v env \<Rightarrow> string list \<Rightarrow> Consumer \<Rightarrow> ('v, Consumer) io" where
  "flush E order c = do {
     let b = pending c;
     let c = c\<lparr>pending := Map.empty\<rparr>;
     _ \<leftarrow> debit_batch E c b order;
     ret c
   }"

definition visits :: "string list \<Rightarrow> Consumer \<Rightarrow> bool" where
  "visits order c \<longleftrightarrow> distinct order \<and> set order = dom (pending c)"

text \<open>The select loop of \<open>Run\<close>: what the process does between its start and its end.\<close>

datatype consumer_op = Deliver doc | Tick "string list"

fun run_consumer :: "'v env \<Rightarrow> consumer_op list \<Rightarrow> Consumer \<Rightarrow> ('v, Consumer) io" where
  "run_consumer E [] c = ret c"
| "run_consumer E (Deliver data # ops) c = run_consumer E ops (on_message E data c)"
| "run_consumer E (Tick order # ops) c = do { c \<leftarrow> flush E order c; run_consumer E ops c }"

definition RedisAddr :: "string \<Rightarrow> string" where
  "RedisAddr valkeyURL =
     (let u = trim_prefix valkeyURL ''redis://'';
          u = (case index_byte u (CHR ''/'') of Some i \<Rightarrow> take i u | None \<Rightarrow> u)
      in if u = [] then ''localhost:6379'' else u)"

section \<open>Invariants of a run\<close>

lemma select_price_readonly [simp]: "snd (select_price E u d) = d"
  by (simp add: select_price_def split: option.splits)

lemma keeps_pricePerMinute [keeps_intros]: "keeps (\<lambda>s. I (w_db s)) (pricePerMinute E c u)"
  unfolding pricePerMinute_def by (intro keeps_intros) (auto intro: keeps_intros)

definition metering_writes_keep :: "'v env \<Rightarrow> (db \<Rightarrow> bool) \<Rightarrow> bool" where
  "metering_writes_keep E I \<longleftrightarrow>
     (\<forall>i u e x d. I d \<longrightarrow> I (snd (insert_usage E i u e x d))) \<and>
     (\<forall>u x d. I d \<longrightarrow> I (snd (update_wallet E u x d))) \<and>
     (\<forall>u x r d. I d \<longrightarrow> I (snd (insert_txn E u x r d)))"

lemma keeps_record_events:
  assumes "\<forall>i u e x d. I d \<longrightarrow> I (snd (insert_usage E i u e x d))"
  shows "keeps (\<lambda>s. I (w_db s)) (record_events E c u tot es)"
proof (induction es arbitrary: tot)
  case (Cons e es)
  show ?case unfolding record_events.simps
    by (intro keeps_intros Cons) (use assms in auto)
qed simp

lemma keeps_debitUser:
  assumes "metering_writes_keep E I"
  shows "keeps (\<lambda>s. I (w_db s)) (debitUser E c u es)"
  unfolding debitUser_def
  by (intro keeps_intros keeps_record_events) (use assms in \<open>auto simp: metering_writes_keep_def\<close>)

lemma keeps_debit_batch:
  assumes "metering_writes_keep E I"
  shows "keeps (\<lambda>s. I (w_db s)) (debit_batch E c b us)"
proof (induction us)
  case (Cons u us)
  show ?case unfolding debit_batch.simps
    by (intro keeps_intros keeps_debitUser Cons assms)
qed simp

lemma keeps_run_consumer:
  assumes "metering_writes_keep E I"
  shows "keeps (\<lambda>s. I (w_db s)) (run_consumer E ops c)"
proof (induction ops arbitrary: c)
  case (Cons op ops)
  then show ?case
    by (cases op) (auto simp: flush_def Let_def intro!: keeps_intros keeps_debit_batch assms)
qed simp

definition num_fit_lawful :: "'v env \<Rightarrow> bool" where
  "num_fit_lawful E \<longleftrightarrow> (\<forall>p k x y. num_fit E p k x = Some y \<longrightarrow> 0 \<le> x \<longrightarrow> 0 \<le> y)"

definition wallets_nonneg :: "db \<Rightarrow> bool" where
  "wallets_nonneg d \<longleftrightarrow> (\<forall>u b. wallets d u = Some b \<longrightarrow> 0 \<le> b)"

text \<open>\<open>ledger_from us ts\<close>: no balance is negative, no key is recorded twice, and the ledgers extend
  \<open>us\<close> and \<open>ts\<close>: nothing recorded is changed or lost.\<close>

definition ledger_from :: "usage_row list \<Rightarrow> txn_row list \<Rightarrow> db \<Rightarrow> bool" where
  "ledger_from us ts d \<longleftrightarrow>
     wallets_nonneg d \<and> distinct (map ue_key (usage_events d)) \<and>
     prefix us (usage_events d) \<and> prefix ts (txns d)"

lemma metering_keeps_ledger:
  assumes "num_fit_lawful E"
  shows "metering_writes_keep E (ledger_from us ts)"
  unfolding metering_writes_keep_def
proof (intro conjI allI impI)
  fix d i u e x assume a: "ledger_from us ts d"
  show "ledger_from us ts (snd (insert_usage E i u e x d))"
    using a by (auto simp: insert_usage_def ledger_from_def wallets_nonneg_def intro: prefix_order.trans
        split: option.splits)
next
  fix d u x assume a: "ledger_from us ts d"
  have "0 \<le> max (b - y) 0" for b y :: rat by simp
  then show "ledger_from us ts (snd (update_wallet E u x d))"
    using a assms unfolding num_fit_lawful_def
    by (fastforce simp: update_wallet_def ledger_from_def wallets_nonneg_def split: option.splits)
next
  fix d u x r assume a: "ledger_from us ts d"
  show "ledger_from us ts (snd (insert_txn E u x r d))"
    using a by (auto simp: insert_txn_def ledger_from_def wallets_nonneg_def intro: prefix_order.trans
        split: option.splits)
qed

text \<open>
  C9: Whatever messages arrive, in whatever order users are debited and whichever calls fail, no
  wallet becomes negative, no idempotency key is recorded twice, and no recorded usage or
  transaction is ever changed or lost.
\<close>

theorem metering_ledger_safe:
  assumes "num_fit_lawful E" and "wallets_nonneg (w_db s)" and "distinct (map ue_key (usage_events (w_db s)))"
    and "t = after (run_consumer E ops c) s"
  shows "wallets_nonneg (w_db t) \<and> distinct (map ue_key (usage_events (w_db t)))
    \<and> prefix (usage_events (w_db s)) (usage_events (w_db t)) \<and> prefix (txns (w_db s)) (txns (w_db t))"
proof -
  have "ledger_from (usage_events (w_db s)) (txns (w_db s)) (w_db s)"
    using assms(2,3) by (simp add: ledger_from_def)
  from keepsD [OF keeps_run_consumer [OF metering_keeps_ledger [OF assms(1)]] this]
  show ?thesis unfolding assms(4) ledger_from_def by blast
qed

text \<open>Two events of one user, for evaluating the model.\<close>

definition ev :: "string \<Rightarrow> BillableEvent" where
  "ev k = \<lparr>e_IdempotencyKey = k, e_UserID = ''u'', e_RequestID = ''r'', e_Transport = ''http_stream'',
     e_AudioSeconds = Fin 60, e_OccurredAt = 0\<rparr>"

definition cons0 :: Consumer where
  "cons0 = NewConsumer (Fin 1) (300 * millisecond)"

lemma ev_cost [simp]: "event_cost (Fin 60) (Fin 1) = Fin 1"
  by (simp add: event_cost_def)

theorem metering_ledger_safe_witness:
  "let t = after (run_consumer mem_env [Deliver (Some (JObj [(''user_id'', JStr ''u'')])), Tick [''u'']] cons0) world_u
   in wallets_nonneg (w_db t) \<and> distinct (map ue_key (usage_events (w_db t)))"
proof -
  have "num_fit_lawful mem_env" by (simp add: num_fit_lawful_def mem_env_simps)
  moreover have "wallets_nonneg (w_db world_u)" by (simp add: wallets_nonneg_def)
  moreover have "distinct (map ue_key (usage_events (w_db world_u)))" by simp
  ultimately show ?thesis using metering_ledger_safe [OF _ _ _ refl] unfolding Let_def by blast
qed

section \<open>What a debit does\<close>

text \<open>
  \<open>fresh seen eps\<close>: of the events with their prices, those the ledger gets a row for when the keys
  \<open>seen\<close> are recorded already; \<open>row_of\<close> is the row.
\<close>

fun fresh :: "string set \<Rightarrow> (BillableEvent \<times> float64) list \<Rightarrow> (BillableEvent \<times> float64) list" where
  "fresh seen [] = []"
| "fresh seen ((e, p) # eps) =
     (if e_IdempotencyKey e \<in> seen then fresh seen eps
      else (e, p) # fresh (insert (e_IdempotencyKey e) seen) eps)"

definition row_of :: "'v env \<Rightarrow> uuid \<Rightarrow> BillableEvent \<times> float64 \<Rightarrow> usage_row \<Rightarrow> bool" where
  "row_of E uid ep r \<longleftrightarrow>
     ue_user r = uid \<and> ue_key r = e_IdempotencyKey (fst ep) \<and> ue_request r = e_RequestID (fst ep) \<and>
     ue_transport r = e_Transport (fst ep) \<and> ue_occurred r = e_OccurredAt (fst ep) \<and>
     Option.bind (num_param E (e_AudioSeconds (fst ep))) (num_fit E 12 6) = Some (ue_seconds r) \<and>
     Option.bind (num_param E (event_cost (e_AudioSeconds (fst ep)) (snd ep))) (num_fit E 14 6) = Some (ue_cost r)"

definition total_of :: "(BillableEvent \<times> float64) list \<Rightarrow> float64" where
  "total_of eps = foldl fadd f0 (map (\<lambda>(e, p). event_cost (e_AudioSeconds e) p) eps)"

lemma fresh_all:
  "distinct (map e_IdempotencyKey (map fst eps)) \<Longrightarrow>
     (\<forall>e \<in> fst ` set eps. e_IdempotencyKey e \<notin> seen) \<Longrightarrow> fresh seen eps = eps"
proof (induction seen eps rule: fresh.induct)
  case (2 seen e p eps)
  have "\<forall>e' \<in> fst ` set eps. e_IdempotencyKey e' \<notin> insert (e_IdempotencyKey e) seen"
  proof
    fix e' assume m: "e' \<in> fst ` set eps"
    then have "e_IdempotencyKey e' \<in> set (map e_IdempotencyKey (map fst eps))" by auto
    moreover have "e_IdempotencyKey e \<notin> set (map e_IdempotencyKey (map fst eps))"
      using "2.prems"(1) by simp
    moreover have "e_IdempotencyKey e' \<notin> seen" using "2.prems"(2) m by auto
    ultimately show "e_IdempotencyKey e' \<notin> insert (e_IdempotencyKey e) seen" by (metis insertE)
  qed
  then show ?case using "2.IH"(2) "2.prems" by simp
qed simp

lemma fresh_none: "\<forall>e \<in> fst ` set eps. e_IdempotencyKey e \<in> seen \<Longrightarrow> fresh seen eps = []"
  by (induction seen eps rule: fresh.induct) auto

lemma pricePerMinute_db [simp]: "w_db (after (pricePerMinute E c u) s) = w_db s"
  by (simp add: pricePerMinute_def pg_readonly split: option.splits)

lemma insert_usage_ok:
  assumes "fst (insert_usage E i u e x d) = Inr ()" and "pg_uuid E u = Some uid"
  defines "d' \<equiv> snd (insert_usage E i u e x d)"
  shows "e_IdempotencyKey e \<in> ue_key ` set (usage_events d) \<Longrightarrow> d' = d"
    and "e_IdempotencyKey e \<notin> ue_key ` set (usage_events d) \<Longrightarrow> event_cost (e_AudioSeconds e) p = x \<Longrightarrow>
      \<exists>r. row_of E uid (e, p) r \<and> d' = d\<lparr>usage_events := usage_events d @ [r]\<rparr>"
proof -
  obtain sec co where f: "Option.bind (num_param E (e_AudioSeconds e)) (num_fit E 12 6) = Some sec"
    "Option.bind (num_param E x) (num_fit E 14 6) = Some co"
    using assms(1,2) by (auto simp: insert_usage_def split: option.splits)
  show "e_IdempotencyKey e \<in> ue_key ` set (usage_events d) \<Longrightarrow> d' = d"
    using assms(2) f by (simp add: d'_def insert_usage_def)
  assume n: "e_IdempotencyKey e \<notin> ue_key ` set (usage_events d)" and x: "event_cost (e_AudioSeconds e) p = x"
  let ?r = "\<lparr>ue_id = i, ue_user = uid, ue_key = e_IdempotencyKey e, ue_request = e_RequestID e,
    ue_transport = e_Transport e, ue_seconds = sec, ue_cost = co, ue_occurred = e_OccurredAt e\<rparr>"
  have "row_of E uid (e, p) ?r" using f x by (simp add: row_of_def)
  moreover have "d' = d\<lparr>usage_events := usage_events d @ [?r]\<rparr>"
    using assms(1,2) f n by (auto simp: d'_def insert_usage_def split: if_splits)
  ultimately show "\<exists>r. row_of E uid (e, p) r \<and> d' = d\<lparr>usage_events := usage_events d @ [r]\<rparr>" by blast
qed

lemma record_events_ok:
  assumes "result (record_events E c u tot es) s = Inr tc" and "pg_uuid E u = Some uid"
  shows "\<exists>ps rows. length ps = length es \<and>
    tc = foldl fadd tot (map (\<lambda>(e, p). event_cost (e_AudioSeconds e) p) (zip es ps)) \<and>
    list_all2 (row_of E uid) (fresh (ue_key ` set (usage_events (w_db s))) (zip es ps)) rows \<and>
    w_db (after (record_events E c u tot es) s) =
      (w_db s)\<lparr>usage_events := usage_events (w_db s) @ rows\<rparr>"
  using assms(1)
proof (induction es arbitrary: tot s)
  case (Cons e es)
  let ?p = "result (pricePerMinute E c u) s"
  let ?s1 = "after new_uuid (after (pricePerMinute E c u) s)"
  obtain p where p: "?p = Inr p" using Cons.prems by (cases ?p) auto
  let ?x = "event_cost (e_AudioSeconds e) p"
  let ?ins = "insert_usage E (w_ids (after (pricePerMinute E c u) s) 0) u e ?x"
  let ?s2 = "after (pg ?ins) ?s1" and ?K = "ue_key ` set (usage_events (w_db s))"
  have ok: "w_orc ?s1 0 = 0" "fst (?ins (w_db s)) = Inr ()"
    and rest: "result (record_events E c u (fadd tot ?x) es) ?s2 = Inr tc"
    using Cons.prems p by (auto simp: result_pg Let_def split: if_splits sum.splits)
  have s2: "w_db ?s2 = snd (?ins (w_db s))" using ok(1) by (simp add: w_db_after_pg)
  have aft: "after (record_events E c u tot (e # es)) s = after (record_events E c u (fadd tot ?x) es) ?s2"
    using p ok by (simp add: result_pg Let_def)
  obtain ps rows where ih: "length ps = length es"
    "tc = foldl fadd (fadd tot ?x) (map (\<lambda>(e, p). event_cost (e_AudioSeconds e) p) (zip es ps))"
    "list_all2 (row_of E uid) (fresh (ue_key ` set (usage_events (w_db ?s2))) (zip es ps)) rows"
    "w_db (after (record_events E c u (fadd tot ?x) es) ?s2) =
      (w_db ?s2)\<lparr>usage_events := usage_events (w_db ?s2) @ rows\<rparr>"
    using Cons.IH [OF rest] by blast
  show ?case
  proof (cases "e_IdempotencyKey e \<in> ?K")
    case True
    then have "w_db ?s2 = w_db s" using insert_usage_ok(1) [OF ok(2) assms(2)] s2 by simp
    then show ?thesis using ih True unfolding aft by (intro exI [of _ "p # ps"] exI [of _ rows]) simp
  next
    case False
    then obtain r where r: "row_of E uid (e, p) r"
      "w_db ?s2 = (w_db s)\<lparr>usage_events := usage_events (w_db s) @ [r]\<rparr>"
      using insert_usage_ok(2) [OF ok(2) assms(2) False refl] s2 by auto
    have "ue_key r = e_IdempotencyKey e" using r(1) by (simp add: row_of_def)
    then have "list_all2 (row_of E uid) (fresh ?K (zip (e # es) (p # ps))) (r # rows)"
      using ih(3) r False by simp
    then show ?thesis using ih r(2) unfolding aft
      by (intro exI [of _ "p # ps"] exI [of _ "r # rows"]) simp
  qed
qed (simp add: exI [of _ "[]"])

text \<open>The wallet after a debit by \<open>tc\<close>.\<close>

definition wallet_debited :: "'v env \<Rightarrow> uuid \<Rightarrow> float64 \<Rightarrow> db \<Rightarrow> db \<Rightarrow> bool" where
  "wallet_debited E uid tc d d' \<longleftrightarrow>
     (if flt_le tc f0 \<or> wallets d uid = None then wallets d' = wallets d
      else \<exists>bal x bal'. wallets d uid = Some bal \<and> num_param E tc = Some x \<and>
        num_fit E 14 6 (max (bal - x) 0) = Some bal' \<and> wallets d' = (wallets d)(uid \<mapsto> bal'))"

lemma wallet_debited_cong:
  "wallets d = wallets e \<Longrightarrow> wallets d' = wallets e' \<Longrightarrow>
     wallet_debited E uid tc d d' = wallet_debited E uid tc e e'"
  by (simp add: wallet_debited_def)

lemma insert_txn_frame [simp]:
  "wallets (snd (insert_txn E u x r d)) = wallets d"
  "usage_events (snd (insert_txn E u x r d)) = usage_events d"
  by (simp_all add: insert_txn_def split: option.splits)

lemma update_wallet_ok:
  assumes "fst (update_wallet E u x d) = Inr ()" and "pg_uuid E u = Some uid" and "\<not> flt_le x f0"
  shows "wallet_debited E uid x d (snd (update_wallet E u x d))"
    and "usage_events (snd (update_wallet E u x d)) = usage_events d"
  using assms by (auto simp: update_wallet_def wallet_debited_def split: option.splits)

text \<open>What a debit does once its events are recorded.\<close>

lemma debitUser_writes:
  assumes "result (debitUser E c u es) s = None" and t: "result (record_events E c u f0 es) s = Inr tc"
    and d: "w_db (after (record_events E c u f0 es) s) = (w_db s)\<lparr>usage_events := usage_events (w_db s) @ rows\<rparr>"
    and "pg_uuid E u = Some uid"
  shows "usage_events (w_db (after (debitUser E c u es) s)) = usage_events (w_db s) @ rows \<and>
    wallet_debited E uid tc (w_db s) (w_db (after (debitUser E c u es) s))"
proof (cases "flt_le tc f0")
  case True
  then show ?thesis using t d by (simp add: debitUser_def wallet_debited_def)
next
  case False
  let ?s1 = "after (record_events E c u f0 es) s"
  let ?upd = "update_wallet E u tc"
  have ok: "w_orc ?s1 0 = 0" "fst (?upd (w_db ?s1)) = Inr ()"
    using assms(1) t False by (auto simp: debitUser_def result_pg split: if_splits sum.splits)
  have w: "wallets (w_db (after (debitUser E c u es) s)) = wallets (snd (?upd (w_db ?s1)))"
    "usage_events (w_db (after (debitUser E c u es) s)) = usage_events (snd (?upd (w_db ?s1)))"
    using t False ok by (simp_all add: debitUser_def result_pg w_db_after_pg)
  have "wallet_debited E uid tc (w_db ?s1) (snd (?upd (w_db ?s1)))"
    by (rule update_wallet_ok(1) [OF ok(2) assms(4) False])
  moreover have "wallets (w_db ?s1) = wallets (w_db s)" by (simp add: d)
  ultimately show ?thesis
    using update_wallet_ok(2) [OF ok(2) assms(4) False] w wallet_debited_cong [OF _ w(1)] d
    by (metis db.select_convs(5) db.surjective db.update_convs(5))
qed

lemma debitUser_ok:
  assumes "result (debitUser E c u es) s = None" and "pg_uuid E u = Some uid"
  shows "\<exists>ps rows. length ps = length es \<and>
    list_all2 (row_of E uid) (fresh (ue_key ` set (usage_events (w_db s))) (zip es ps)) rows \<and>
    usage_events (w_db (after (debitUser E c u es) s)) = usage_events (w_db s) @ rows \<and>
    wallet_debited E uid (total_of (zip es ps)) (w_db s) (w_db (after (debitUser E c u es) s))"
proof -
  obtain tc where t: "result (record_events E c u f0 es) s = Inr tc"
    using assms(1) by (cases "result (record_events E c u f0 es) s") (simp_all add: debitUser_def)
  obtain ps rows where r: "length ps = length es" "tc = total_of (zip es ps)"
    "list_all2 (row_of E uid) (fresh (ue_key ` set (usage_events (w_db s))) (zip es ps)) rows"
    "w_db (after (record_events E c u f0 es) s) = (w_db s)\<lparr>usage_events := usage_events (w_db s) @ rows\<rparr>"
    using record_events_ok [OF t assms(2)] unfolding total_of_def by blast
  then show ?thesis using debitUser_writes [OF assms(1) t r(4) assms(2)] by blast
qed

section \<open>Properties of a debit\<close>

text \<open>
  C17: A debit that reports success for events with new and different keys has recorded every event,
  in order, with its cost at the price read for it, and has taken from the wallet exactly the sum
  of those costs, or emptied it.
\<close>

theorem debit_records_and_charges:
  assumes "result (debitUser E c u es) s = None" and "pg_uuid E u = Some uid"
    and "distinct (map e_IdempotencyKey es)"
    and "\<forall>e \<in> set es. e_IdempotencyKey e \<notin> ue_key ` set (usage_events (w_db s))"
    and "t = after (debitUser E c u es) s"
  shows "\<exists>ps rows. length ps = length es
    \<and> usage_events (w_db t) = usage_events (w_db s) @ rows
    \<and> list_all2 (row_of E uid) (zip es ps) rows
    \<and> wallet_debited E uid (total_of (zip es ps)) (w_db s) (w_db t)"
proof -
  obtain ps rows where r: "length ps = length es"
    "list_all2 (row_of E uid) (fresh (ue_key ` set (usage_events (w_db s))) (zip es ps)) rows"
    "usage_events (w_db t) = usage_events (w_db s) @ rows"
    "wallet_debited E uid (total_of (zip es ps)) (w_db s) (w_db t)"
    using debitUser_ok [OF assms(1,2)] assms(5) by blast
  have m: "map fst (zip es ps) = es" using r(1) by simp
  then have m': "fst ` set (zip es ps) = set es" by (metis list.set_map)
  have "fresh (ue_key ` set (usage_events (w_db s))) (zip es ps) = zip es ps"
    by (rule fresh_all) (simp only: m assms(3), simp only: m', rule assms(4))
  then show ?thesis using r by auto
qed

text \<open>What evaluates a debit in the concrete environment.\<close>

lemmas debit_eval = debitUser_def pricePerMinute_def cached_price_def select_price_def insert_usage_def
  update_wallet_def insert_txn_def has_user_def result_pg w_db_after_pg mem_env_simps mem0_def mem_step_def
  cons0_def NewConsumer_def ev_def event_text_def pg_text_def Let_def

theorem debit_records_and_charges_witness:
  "\<exists>ps rows. length ps = length [ev ''r:1'']
    \<and> usage_events (w_db (after (debitUser mem_env cons0 ''u'' [ev ''r:1'']) world_u)) = rows
    \<and> list_all2 (row_of mem_env ''u'') (zip [ev ''r:1''] ps) rows
    \<and> wallet_debited mem_env ''u'' (total_of (zip [ev ''r:1''] ps)) (w_db world_u)
        (w_db (after (debitUser mem_env cons0 ''u'' [ev ''r:1'']) world_u))"
proof -
  have r: "result (debitUser mem_env cons0 ''u'' [ev ''r:1'']) world_u = None"
    by (simp add: debit_eval)
  have "pg_uuid mem_env ''u'' = Some ''u''" by (simp add: mem_env_simps)
  from debit_records_and_charges [OF r this _ _ refl] show ?thesis by simp
qed

section \<open>The price of a user\<close>

text \<open>
  \<open>priced_at E view c u p s\<close>: the price of the user \<open>u\<close> is \<open>p\<close>: it is what the table says, or the
  default where the table says nothing, and a copy in the cache that holds a price holds this one.
\<close>

definition table_price :: "'v env \<Rightarrow> Consumer \<Rightarrow> string \<Rightarrow> db \<Rightarrow> float64 option" where
  "table_price E c u d =
     (case fst (select_price E u d) of
        Inl _ \<Rightarrow> None
      | Inr None \<Rightarrow> Some (c_defPPM c)
      | Inr (Some q) \<Rightarrow> Some (num_scan E q))"

definition priced_at ::
  "'v env \<Rightarrow> ('v \<Rightarrow> string \<rightharpoonup> doc) \<Rightarrow> Consumer \<Rightarrow> string \<Rightarrow> float64 \<Rightarrow> 'v world \<Rightarrow> bool" where
  "priced_at E view c u p s \<longleftrightarrow> table_price E c u (w_db s) = Some p \<and>
     (\<forall>d. view (w_ext s) (wallet_key u) = Some d \<longrightarrow> cached_price (Hit d) \<in> {None, Some p})"

lemma priced_at_reads:
  assumes "vk_lawful E view cnt" and "priced_at E view c u p s" and "result (pricePerMinute E c u) s = Inr q"
  shows "q = p"
proof -
  obtain r v where g: "vk_get E (wallet_key u) (w_ext s) = (r, v)" by (cases "vk_get E (wallet_key u) (w_ext s)")
  show ?thesis
  proof (cases "cached_price r")
    case (Some x)
    then obtain d where d: "r = Hit d" by (auto simp: cached_price_def split: get_reply.splits)
    have "x = p" using vk_getD(5) [OF assms(1) g d] assms(2) Some d by (auto simp: priced_at_def)
    then show ?thesis using assms(3) Some g by (simp add: pricePerMinute_def)
  next
    case None
    then show ?thesis using assms(2,3) g
      by (auto simp: pricePerMinute_def result_pg priced_at_def table_price_def split: if_splits sum.splits option.splits)
  qed
qed

text \<open>Reading a price and recording an event leave it as it is.\<close>

lemma priced_at_fades:
  "priced_at E view c u p s \<Longrightarrow> users (w_db t) = users (w_db s) \<Longrightarrow> fades (view (w_ext s)) (view (w_ext t)) \<Longrightarrow>
     priced_at E view c u p t"
  unfolding priced_at_def table_price_def select_price_def by (auto dest: fadesD split: option.splits)

lemma insert_usage_users [simp]: "users (snd (insert_usage E i u e x d)) = users d"
  by (simp add: insert_usage_def split: option.splits)

lemma priced_at_pricePerMinute:
  assumes "vk_lawful E view cnt" and "priced_at E view c u p s"
  shows "priced_at E view c u p (after (pricePerMinute E c u) s)"
proof -
  obtain r v where g: "vk_get E (wallet_key u) (w_ext s) = (r, v)" by (cases "vk_get E (wallet_key u) (w_ext s)")
  have "w_ext (after (pricePerMinute E c u) s) = v" using g by (simp add: pricePerMinute_def split: option.splits)
  then show ?thesis using vk_getD(1) [OF assms(1) g] by (intro priced_at_fades [OF assms(2)]) simp_all
qed

definition total_at :: "float64 \<Rightarrow> BillableEvent list \<Rightarrow> float64" where
  "total_at p es = foldl fadd f0 (map (\<lambda>e. event_cost (e_AudioSeconds e) p) es)"

lemma record_events_priced:
  assumes "vk_lawful E view cnt" and "priced_at E view c u p s" and "result (record_events E c u tot es) s = Inr tc"
    and "pg_uuid E u = Some uid"
  shows "tc = foldl fadd tot (map (\<lambda>e. event_cost (e_AudioSeconds e) p) es) \<and>
    (\<exists>rows. list_all2 (row_of E uid) (fresh (ue_key ` set (usage_events (w_db s))) (map (\<lambda>e. (e, p)) es)) rows \<and>
      w_db (after (record_events E c u tot es) s) = (w_db s)\<lparr>usage_events := usage_events (w_db s) @ rows\<rparr>)"
  using assms(2,3)
proof (induction es arbitrary: tot s)
  case (Cons e es)
  let ?x = "event_cost (e_AudioSeconds e) p" and ?s1 = "after new_uuid (after (pricePerMinute E c u) s)"
  have price: "result (pricePerMinute E c u) s = Inr p"
    using Cons.prems priced_at_reads [OF assms(1) Cons.prems(1)] by (cases "result (pricePerMinute E c u) s") auto
  let ?ins = "insert_usage E (w_ids (after (pricePerMinute E c u) s) 0) u e ?x"
  let ?s2 = "after (pg ?ins) ?s1" and ?K = "ue_key ` set (usage_events (w_db s))"
  have ok: "w_orc ?s1 0 = 0" "fst (?ins (w_db s)) = Inr ()"
    and rest: "result (record_events E c u (fadd tot ?x) es) ?s2 = Inr tc"
    using Cons.prems(2) price by (auto simp: result_pg Let_def split: if_splits sum.splits)
  have s2: "w_db ?s2 = snd (?ins (w_db s))" using ok(1) by (simp add: w_db_after_pg)
  have aft: "after (record_events E c u tot (e # es)) s = after (record_events E c u (fadd tot ?x) es) ?s2"
    using price ok by (simp add: result_pg Let_def)
  have "priced_at E view c u p ?s2"
    by (rule priced_at_fades [OF priced_at_pricePerMinute [OF assms(1) Cons.prems(1)]]) (simp_all add: w_db_after_pg)
  from Cons.IH [OF this rest] obtain rows where ih:
    "tc = foldl fadd (fadd tot ?x) (map (\<lambda>e. event_cost (e_AudioSeconds e) p) es)"
    "list_all2 (row_of E uid) (fresh (ue_key ` set (usage_events (w_db ?s2))) (map (\<lambda>e. (e, p)) es)) rows"
    "w_db (after (record_events E c u (fadd tot ?x) es) ?s2) = (w_db ?s2)\<lparr>usage_events := usage_events (w_db ?s2) @ rows\<rparr>"
    by blast
  show ?case
  proof (cases "e_IdempotencyKey e \<in> ?K")
    case True
    then have "w_db ?s2 = w_db s" using insert_usage_ok(1) [OF ok(2) assms(4)] s2 by simp
    then show ?thesis using ih True unfolding aft by (auto intro!: exI [of _ rows])
  next
    case False
    then obtain r where r: "row_of E uid (e, p) r"
      "w_db ?s2 = (w_db s)\<lparr>usage_events := usage_events (w_db s) @ [r]\<rparr>"
      using insert_usage_ok(2) [OF ok(2) assms(4) False refl] s2 by auto
    have "ue_key r = e_IdempotencyKey e" using r(1) by (simp add: row_of_def)
    then have "list_all2 (row_of E uid) (fresh ?K (map (\<lambda>e. (e, p)) (e # es))) (r # rows)"
      using ih(2) r False by simp
    then show ?thesis using ih r(2) unfolding aft by (auto intro!: exI [of _ "r # rows"])
  qed
qed simp

text \<open>A debit at the user's price.\<close>

lemma debitUser_priced:
  assumes "vk_lawful E view cnt" and "priced_at E view c u p s" and "result (debitUser E c u es) s = None"
    and "pg_uuid E u = Some uid"
  obtains rows where
    "list_all2 (row_of E uid) (fresh (ue_key ` set (usage_events (w_db s))) (map (\<lambda>e. (e, p)) es)) rows"
    and "usage_events (w_db (after (debitUser E c u es) s)) = usage_events (w_db s) @ rows"
    and "wallet_debited E uid (total_at p es) (w_db s) (w_db (after (debitUser E c u es) s))"
proof -
  obtain tc where t: "result (record_events E c u f0 es) s = Inr tc"
    using assms(3) by (cases "result (record_events E c u f0 es) s") (simp_all add: debitUser_def)
  from record_events_priced [OF assms(1,2) t assms(4)] obtain rows where
    tc: "tc = total_at p es" and rows: "list_all2 (row_of E uid)
      (fresh (ue_key ` set (usage_events (w_db s))) (map (\<lambda>e. (e, p)) es)) rows"
    and d: "w_db (after (record_events E c u f0 es) s) = (w_db s)\<lparr>usage_events := usage_events (w_db s) @ rows\<rparr>"
    by (auto simp: total_at_def)
  have "usage_events (w_db (after (debitUser E c u es) s)) = usage_events (w_db s) @ rows \<and>
      wallet_debited E uid tc (w_db s) (w_db (after (debitUser E c u es) s))"
    by (rule debitUser_writes [OF assms(3) t d assms(4)])
  then show thesis using that rows tc by blast
qed

text \<open>
  C33: Recording is idempotent, charging is not: events whose keys are all recorded already leave the
  usage ledger as it is, and the wallet is debited once more by their full cost at the user's price.
  Where the wallet can pay, that is the whole cost (rounded to the column), else all it holds.
\<close>

theorem recorded_events_charged_again:
  assumes "vk_lawful E view cnt" and "priced_at E view c u p s"
    and "result (debitUser E c u es) s = None" and "pg_uuid E u = Some uid"
    and "\<forall>e \<in> set es. e_IdempotencyKey e \<in> ue_key ` set (usage_events (w_db s))"
    and "flt_less f0 (total_at p es)" and "wallets (w_db s) uid = Some bal"
    and "t = after (debitUser E c u es) s"
  shows "usage_events (w_db t) = usage_events (w_db s)
    \<and> (\<exists>x bal'. num_param E (total_at p es) = Some x \<and> num_fit E 14 6 (max (bal - x) 0) = Some bal' \<and>
        wallets (w_db t) = (wallets (w_db s))(uid \<mapsto> bal'))"
proof (rule debitUser_priced [OF assms(1-4)])
  fix rows
  assume r: "list_all2 (row_of E uid) (fresh (ue_key ` set (usage_events (w_db s))) (map (\<lambda>e. (e, p)) es)) rows"
    "usage_events (w_db (after (debitUser E c u es) s)) = usage_events (w_db s) @ rows"
    "wallet_debited E uid (total_at p es) (w_db s) (w_db (after (debitUser E c u es) s))"
  have "fresh (ue_key ` set (usage_events (w_db s))) (map (\<lambda>e. (e, p)) es) = []"
    using assms(5) by (intro fresh_none) auto
  moreover have "\<not> flt_le (total_at p es) f0" using assms(6) by (cases "total_at p es") simp_all
  ultimately show ?thesis using r assms(7,8) by (auto simp: wallet_debited_def)
qed

definition world_again :: "mem world" where
  "world_again = world_u\<lparr>w_db := db_u\<lparr>usage_events := [\<lparr>ue_id = ''1'', ue_user = ''u'', ue_key = ''r:1'',
     ue_request = ''r'', ue_transport = ''http_stream'', ue_seconds = 60, ue_cost = 1, ue_occurred = 0\<rparr>]\<rparr>\<rparr>"

theorem recorded_events_charged_again_witness:
  "usage_events (w_db (after (debitUser mem_env cons0 ''u'' [ev ''r:1'']) world_again)) = usage_events (w_db world_again)
   \<and> wallets (w_db world_again) ''u'' = Some 20
   \<and> wallets (w_db (after (debitUser mem_env cons0 ''u'' [ev ''r:1'']) world_again)) ''u'' = Some 19"
proof -
  have r: "result (debitUser mem_env cons0 ''u'' [ev ''r:1'']) world_again = None"
    by (simp add: debit_eval world_again_def)
  have p: "priced_at mem_env m_keys cons0 ''u'' (Fin 1) world_again"
    by (simp add: priced_at_def table_price_def select_price_def world_again_def mem_env_simps mem0_def cons0_def NewConsumer_def)
  have t: "total_at (Fin 1) [ev ''r:1''] = Fin 1"
    by (simp add: total_at_def ev_def f64_id is64_numeral del: is64.simps)
  have u: "pg_uuid mem_env ''u'' = Some ''u''" by (simp add: mem_env_simps)
  have "usage_events (w_db (after (debitUser mem_env cons0 ''u'' [ev ''r:1'']) world_again)) = usage_events (w_db world_again)
    \<and> (\<exists>x bal'. num_param mem_env (total_at (Fin 1) [ev ''r:1'']) = Some x \<and>
        num_fit mem_env 14 6 (max (20 - x) 0) = Some bal' \<and>
        wallets (w_db (after (debitUser mem_env cons0 ''u'' [ev ''r:1'']) world_again)) =
          (wallets (w_db world_again))(''u'' \<mapsto> bal'))"
    by (rule recorded_events_charged_again [OF mem_lawful p r u _ _ _ refl])
      (simp_all add: t, simp_all add: world_again_def ev_def)
  then show ?thesis by (simp add: t mem_env_simps world_again_def)
qed

lemma record_events_wallets:
  "wallets (w_db (after (record_events E c u tot es) s)) = wallets (w_db s)"
  by (rule keepsD [OF keeps_record_events [of "\<lambda>d. wallets d = wallets (w_db s)"]])
    (simp_all add: insert_usage_def split: option.splits)

text \<open>
  C34: When the prices or the recording fail half-way, the events recorded so far stay recorded, the
  wallet is not debited, and the batch has been dropped: nothing of it is tried again.
\<close>

theorem failed_debit_is_dropped:
  assumes "pending c = [u \<mapsto> es]" and "result (record_events E c' u f0 es) s = Inl err"
    and "c' = c\<lparr>pending := Map.empty\<rparr>"
  shows "pending (result (flush E [u] c) s) = Map.empty
    \<and> wallets (w_db (after (flush E [u] c) s)) = wallets (w_db s)
    \<and> usage_events (w_db (after (flush E [u] c) s)) =
        usage_events (w_db (after (record_events E c' u f0 es) s))"
proof -
  have "result (debitUser E c' u es) s = Some err"
    and "after (debitUser E c' u es) s = after (record_events E c' u f0 es) s"
    using assms(2) by (simp_all add: debitUser_def)
  then show ?thesis
    using record_events_wallets [of E c' u f0 es s] assms(1,3) by (simp add: flush_def Let_def)
qed

theorem failed_debit_is_dropped_witness:
  "\<exists>s. length (usage_events (w_db (after (flush mem_env [''u'']
        (cons0\<lparr>pending := [''u'' \<mapsto> [ev ''r:1'', ev ''r:2'']]\<rparr>)) s))) = 1
    \<and> wallets (w_db (after (flush mem_env [''u''] (cons0\<lparr>pending := [''u'' \<mapsto> [ev ''r:1'', ev ''r:2'']]\<rparr>)) s)) =
        wallets (w_db s)"
proof -
  let ?s = "world_u\<lparr>w_orc := (\<lambda>n. if n = 2 then 1 else 0)\<rparr>"
  let ?c = "cons0\<lparr>pending := [''u'' \<mapsto> [ev ''r:1'', ev ''r:2'']]\<rparr>"
  let ?es = "[ev ''r:1'', ev ''r:2'']"
  have r: "result (record_events mem_env (?c\<lparr>pending := Map.empty\<rparr>) ''u'' f0 ?es) ?s = Inl (PgError ConnFailed)"
    and u: "length (usage_events (w_db (after (record_events mem_env (?c\<lparr>pending := Map.empty\<rparr>) ''u'' f0 ?es) ?s))) = 1"
    by (simp_all add: debit_eval)
  from failed_debit_is_dropped [OF _ r refl] u show ?thesis by (intro exI [of _ ?s]) simp
qed

section \<open>Agreement with the API\<close>

lemma event_keys [simp]:
  "\<not> key_is ''idempotency_key'' ''user_id''" "\<not> key_is ''idempotency_key'' ''request_id''"
  "\<not> key_is ''idempotency_key'' ''transport''" "\<not> key_is ''idempotency_key'' ''audio_seconds''"
  "\<not> key_is ''idempotency_key'' ''occurred_at''" "\<not> key_is ''user_id'' ''request_id''"
  "\<not> key_is ''user_id'' ''transport''" "\<not> key_is ''user_id'' ''audio_seconds''"
  "\<not> key_is ''user_id'' ''occurred_at''" "\<not> key_is ''request_id'' ''transport''"
  "\<not> key_is ''request_id'' ''audio_seconds''" "\<not> key_is ''request_id'' ''occurred_at''"
  "\<not> key_is ''transport'' ''audio_seconds''" "\<not> key_is ''transport'' ''occurred_at''"
  "\<not> key_is ''audio_seconds'' ''occurred_at''"
  by (simp_all add: key_is_def has_prefix_def upper_def)

lemma event_read:
  assumes "Marshal E e = Some j" and "is64 (Event.AudioSeconds e)"
    and "\<forall>t x. time_text E t = Some x \<longrightarrow> text_time E x = Some t"
  shows "unmarshal (event_step E) event0 (Some j) =
    Some \<lparr>e_IdempotencyKey = IdempotencyKey e, e_UserID = UserID e, e_RequestID = RequestID e,
      e_Transport = Transport e, e_AudioSeconds = Event.AudioSeconds e, e_OccurredAt = OccurredAt e\<rparr>"
proof -
  obtain sec tm where sec: "enc_f64 (Event.AudioSeconds e) = Some sec" and tm: "time_text E (OccurredAt e) = Some tm"
    and j: "j = JObj [(''idempotency_key'', JStr (IdempotencyKey e)), (''user_id'', JStr (UserID e)),
      (''request_id'', JStr (RequestID e)), (''transport'', JStr (Transport e)),
      (''audio_seconds'', sec), (''occurred_at'', JStr tm)]"
    using assms(1) by (auto simp: Marshal_def split: option.splits)
  have d: "dec_f64 f0 sec = Some (Event.AudioSeconds e)" using assms(2) sec by (rule dec_enc_f64)
  have t: "text_time E tm = Some (OccurredAt e)" using assms(3) tm by blast
  show ?thesis by (simp add: j event_step_def event0_def d t)
qed

text \<open>
  C39: What the API publishes, the metering service reads: every event the API can encode is decoded
  to the same key, user, request, transport, seconds and time.
\<close>

theorem published_event_is_read:
  assumes "Marshal E e = Some j" and "is64 (Event.AudioSeconds e)"
    and "\<forall>t x. time_text E t = Some x \<longrightarrow> text_time E x = Some t"
  shows "unmarshal (event_step E) event0 (Some j) =
    Some \<lparr>e_IdempotencyKey = IdempotencyKey e, e_UserID = UserID e, e_RequestID = RequestID e,
      e_Transport = Transport e, e_AudioSeconds = Event.AudioSeconds e, e_OccurredAt = OccurredAt e\<rparr>"
  by (rule event_read [OF assms])

theorem published_event_is_read_witness:
  "\<exists>j. Marshal mem_env \<lparr>IdempotencyKey = ''r:1'', UserID = ''u'', RequestID = ''r'', Transport = ''websocket'',
        Event.AudioSeconds = Fin 60, OccurredAt = 5\<rparr> = Some j
    \<and> unmarshal (event_step mem_env) event0 (Some j) =
        Some \<lparr>e_IdempotencyKey = ''r:1'', e_UserID = ''u'', e_RequestID = ''r'', e_Transport = ''websocket'',
          e_AudioSeconds = Fin 60, e_OccurredAt = 5\<rparr>"
proof -
  let ?e = "\<lparr>IdempotencyKey = ''r:1'', UserID = ''u'', RequestID = ''r'', Transport = ''websocket'',
        Event.AudioSeconds = Fin 60, OccurredAt = 5\<rparr>"
  obtain j where j: "Marshal mem_env ?e = Some j"
    by (simp add: Marshal_def mem_env_simps in_int64_def)
  have t: "\<forall>t x. time_text mem_env t = Some x \<longrightarrow> text_time mem_env x = Some t"
    by (simp add: mem_env_simps atoi_itoa)
  have "is64 (Event.AudioSeconds ?e)" by (simp add: is64_numeral del: is64.simps)
  from published_event_is_read [OF j this t] j show ?thesis by simp
qed

lemma wallet_key_eq: "wallet_key u = walletKey u"
  by (simp add: wallet_key_def walletKey_def)

lemma price_of_snapshot:
  assumes "snap64 w" and "enc_snap w = Some j"
  shows "unmarshal price_step f0 (Some j) = Some (PricePerAudioMinuteUSD w)"
proof -
  obtain b p where e: "enc_f64 (PricePerAudioMinuteUSD w) = Some p"
    and j: "j = JObj [(''balance_usd'', b), (''price_per_audio_minute_usd'', p)]"
    using assms(2) by (auto simp: enc_snap_def split: option.splits)
  have "dec_f64 x p = Some (PricePerAudioMinuteUSD w)" for x
    using assms(1) e by (auto simp: snap64_def intro: dec_enc_f64)
  then show ?thesis by (simp add: j price_step_def)
qed

text \<open>
  C31: With the same default price, and cached copies that are snapshots of the database, the metering
  service charges a second of audio at the price the API deducted it from the delivery budget with,
  whether it finds the price in the cache or in the database.
\<close>

theorem both_services_price_alike:
  assumes "vk_lawful E view cnt" and "scans64 E c" and "defPPM c = c_defPPM k" and "pg_uuid E u = Some u"
    and "\<forall>d. view (w_ext s) (walletKey u) = Some d \<longrightarrow> (\<exists>w. db_snapshot E c (w_db s) u = Some w \<and> d = enc_snap w)"
    and "db_snapshot E c (w_db s) u = Some w" and "result (pricePerMinute E k u) s = Inr p"
    and "flt_less f0 sec"
  shows "p = PricePerAudioMinuteUSD w \<and> event_cost sec p = CostForSeconds sec (PricePerAudioMinuteUSD w)"
proof -
  obtain r v where g: "vk_get E (walletKey u) (w_ext s) = (r, v)" by (cases "vk_get E (walletKey u) (w_ext s)")
  have w64: "snap64 w" by (rule db_snapshot_64 [OF assms(2,6)])
  have "p = PricePerAudioMinuteUSD w"
  proof (cases "cached_price r")
    case (Some q)
    then obtain d where d: "r = Hit d" "unmarshal price_step f0 d = Some q"
      by (auto simp: cached_price_def split: get_reply.splits option.splits if_splits)
    then have "d = enc_snap w" using vk_getD(5) [OF assms(1) g d(1)] assms(5,6) by auto
    moreover then obtain j where "enc_snap w = Some j" using d(2) by (cases "enc_snap w") auto
    ultimately have "q = PricePerAudioMinuteUSD w" using d(2) price_of_snapshot [OF w64] by simp
    then show ?thesis using assms(7) Some g by (simp add: pricePerMinute_def wallet_key_eq)
  next
    case None
    then show ?thesis using assms(3,4,6,7) g
      by (auto simp: pricePerMinute_def wallet_key_eq result_pg select_price_def db_snapshot_def
          select_wallet_def split: if_splits option.splits sum.splits prod.splits)
  qed
  moreover have "\<not> flt_le sec f0" using assms(8) by (cases sec) simp_all
  ultimately show ?thesis by (simp add: event_cost_def CostForSeconds_def)
qed

theorem both_services_price_alike_witness:
  "\<exists>p. result (pricePerMinute mem_env cons0 ''u'') world_u = Inr p
    \<and> event_cost (Fin 60) p = CostForSeconds (Fin 60) (PricePerAudioMinuteUSD snap_u)"
proof -
  have r: "result (pricePerMinute mem_env cons0 ''u'') world_u = Inr (Fin 1)"
    by (simp add: debit_eval)
  have d: "db_snapshot mem_env wc0 (w_db world_u) ''u'' = Some snap_u"
    by (simp add: db_snapshot_def select_wallet_def mem_env_simps wc0_def NewWalletCache_def snap_u_def)
  have "(Fin 1 :: flt) = PricePerAudioMinuteUSD snap_u \<and>
      event_cost (Fin 60) (Fin 1) = CostForSeconds (Fin 60) (PricePerAudioMinuteUSD snap_u)"
    by (rule both_services_price_alike [OF mem_lawful mem_scans64 _ _ _ d r])
      (simp_all add: wc0_def NewWalletCache_def cons0_def NewConsumer_def mem_env_simps mem0_def)
  then show ?thesis using r by blast
qed

text \<open>
  The address given to the Valkey client is the host and port of a URL without credentials,
  whatever database it names; without a host it is the local default.
\<close>

lemma redis_addr_of_url:
  assumes "CHR ''/'' \<notin> set host"
  shows "RedisAddr (''redis://'' @ host @ ''/'' @ database) = (if host = [] then ''localhost:6379'' else host)
    \<and> RedisAddr (''redis://'' @ host) = (if host = [] then ''localhost:6379'' else host)"
proof -
  have "index_byte (host @ CHR ''/'' # database) (CHR ''/'') = Some (length host)"
    using assms by (induction host) auto
  moreover have "(case index_byte host (CHR ''/'') of Some i \<Rightarrow> take i host | None \<Rightarrow> host) = host"
    using assms index_byte_None [of host "CHR ''/''"] by (metis option.simps(4))
  moreover have "trim_prefix (''redis://'' @ x) ''redis://'' = x" for x by (rule trim_prefix_append)
  ultimately show ?thesis by (simp add: RedisAddr_def Let_def)
qed

end
