(* ===== verification/Grpc.thy ===== *)
theory Grpc
  imports World
begin

text \<open>
  \<open>api/internal/grpcclient/client.go\<close>: how the inference service is dialled and asked for its
  health, and the loop that copies an audio stream to a callback.  The service itself is a
  parameter, \<open>Client\<close>: what it answers to \<open>Health\<close>, and for a request the error or the messages
  of the stream in the order in which \<open>Recv\<close> delivers them (the end of the list is \<open>io.EOF\<close>).
\<close>

record AudioChunk =
  Pcm :: "byte list"
  SampleRate :: int
  Seq :: int

datatype recv = Chunk AudioChunk | Recv_error error

record Client =
  rpc_health :: "error + bool \<times> string"
  rpc_synthesize :: "string \<Rightarrow> string \<Rightarrow> string \<Rightarrow> error + recv list"
  rpc_live :: "error option"

section \<open>Dialling\<close>

text \<open>The target handed to gRPC and whether calls are spread round robin over its addresses.\<close>

definition dial_target :: "string \<Rightarrow> string \<times> bool" where
  "dial_target addr =
     (if has_prefix addr ''dns:///'' \<or> \<not> contains addr ''://''
      then (if \<not> contains addr ''://'' then ''dns:///'' @ addr else addr, True)
      else (addr, False))"

text \<open>\<open>dial\<close> is \<open>grpc.DialContext\<close> with a block until connected, bounded by 30 seconds.\<close>

definition Dial :: "'v env \<Rightarrow> (string \<Rightarrow> bool \<Rightarrow> error + Client) \<Rightarrow> string \<Rightarrow> error + Client" where
  "Dial E dial addr =
     (let (target, round_robin) = dial_target addr
      in case dial target round_robin of
           Inl err \<Rightarrow> Inl (Msg (''grpc dial '' @ target @ '': '' @ Error E err))
         | Inr c \<Rightarrow> Inr c)"

definition HealthDetail :: "Client \<Rightarrow> bool \<times> string \<times> error option" where
  "HealthDetail c =
     (case rpc_health c of
        Inl err \<Rightarrow> (False, [], Some err)
      | Inr (ok, backend) \<Rightarrow>
          if \<not> ok then (False, backend, Some (Msg (''inference unhealthy (backend='' @ backend @ '')'')))
          else (True, backend, None))"

definition Health :: "Client \<Rightarrow> error option" where
  "Health c = (let (_, _, err) = HealthDetail c in err)"

section \<open>Streams\<close>

text \<open>\<open>Synthesize\<close> opens the stream of a request; the call itself is visible in the output.\<close>

definition Synthesize :: "Client \<Rightarrow> string \<Rightarrow> string \<Rightarrow> string \<Rightarrow> ('v, error + recv list) io" where
  "Synthesize c requestID txt voice = do {
     _ \<leftarrow> emit (Rpc_synth requestID txt voice);
     ret (rpc_synthesize c requestID txt voice)
   }"

text \<open>
  The bidirectional stream of a live session: opening it, a text on it (the last outcome of the
  effect tells whether it was sent), and half-closing it, whose error no caller looks at.
\<close>

definition SynthesizeLive :: "Client \<Rightarrow> error option" where
  "SynthesizeLive c = rpc_live c"

definition SendText :: "string \<Rightarrow> string \<Rightarrow> string \<Rightarrow> bool \<Rightarrow> ('v, error option) io" where
  "SendText requestID msg voice final = do {
     n \<leftarrow> draw;
     _ \<leftarrow> emit (Rpc_text requestID msg voice final (n = 0));
     ret (if n = 0 then None else Some (RpcError []))
   }"

definition CloseSend :: "('v, unit) io" where
  "CloseSend = emit Rpc_close_send"

text \<open>A background context is never done; a request's may be cancelled or time out at any moment.\<close>

datatype context_kind = Background | Request

definition ctx_done :: "context_kind \<Rightarrow> ('v, ctx_error option) io" where
  "ctx_done ctx =
     (case ctx of
        Background \<Rightarrow> ret None
      | Request \<Rightarrow> do {
          n \<leftarrow> draw;
          ret (if n = 0 then None else if n = 1 then Some Canceled else Some DeadlineExceeded)
        })"

text \<open>The callback threads the variables it captures, \<open>'s\<close>.\<close>

fun CopyAudioStream ::
  "context_kind \<Rightarrow> recv list \<Rightarrow> (AudioChunk \<Rightarrow> 's \<Rightarrow> ('v, error option \<times> 's) io) \<Rightarrow> 's \<Rightarrow>
   ('v, error option \<times> 's) io" where
  "CopyAudioStream ctx [] onChunk st = do {
     d \<leftarrow> ctx_done ctx;
     ret (case d of Some e \<Rightarrow> Some (CtxError e) | None \<Rightarrow> None, st)
   }"
| "CopyAudioStream ctx (r # stream) onChunk st = do {
     d \<leftarrow> ctx_done ctx;
     case d of
       Some e \<Rightarrow> ret (Some (CtxError e), st)
     | None \<Rightarrow>
         (case r of
            Recv_error err \<Rightarrow> ret (Some err, st)
          | Chunk c \<Rightarrow> do {
              (err, st) \<leftarrow> onChunk c st;
              case err of
                Some e \<Rightarrow> ret (Some e, st)
              | None \<Rightarrow> CopyAudioStream ctx stream onChunk st
            })
   }"

section \<open>What the copy loop guarantees\<close>

text \<open>
  An invariant of the captured variables and the world that the callback keeps, indexed by the
  chunks handed over so far, holds at the end for a prefix of the stream's chunks; without an error
  the prefix is the whole stream.
\<close>

definition chunks_of :: "recv list \<Rightarrow> AudioChunk list" where
  "chunks_of stream = concat (map (\<lambda>r. case r of Chunk c \<Rightarrow> [c] | Recv_error _ \<Rightarrow> []) stream)"

lemma chunks_of_simps [simp]:
  "chunks_of [] = []" "chunks_of (Chunk c # rs) = c # chunks_of rs"
  "chunks_of (Recv_error e # rs) = chunks_of rs"
  by (simp_all add: chunks_of_def)

lemma ctx_done_frame [simp]:
  "w_db (after (ctx_done ctx) s) = w_db s" "w_ext (after (ctx_done ctx) s) = w_ext s"
  "w_out (after (ctx_done ctx) s) = w_out s" "w_clk (after (ctx_done ctx) s) = w_clk s"
  by (cases ctx; simp add: ctx_done_def)+

text \<open>
  \<open>copied I J stream pre cs err st s\<close>: after \<open>pre\<close>, the chunks \<open>cs\<close> were taken from the stream and
  left \<open>I\<close>, or the callback stopped at the one after them and left \<open>J\<close>.
\<close>

definition copied ::
  "(AudioChunk list \<Rightarrow> 's \<Rightarrow> 'w \<Rightarrow> bool) \<Rightarrow> (AudioChunk list \<Rightarrow> AudioChunk \<Rightarrow> error \<Rightarrow> 's \<Rightarrow> 'w \<Rightarrow> bool) \<Rightarrow>
   recv list \<Rightarrow> AudioChunk list \<Rightarrow> AudioChunk list \<Rightarrow> error option \<Rightarrow> 's \<Rightarrow> 'w \<Rightarrow> bool" where
  "copied I J stream pre cs err st s \<longleftrightarrow>
     (\<exists>rest. chunks_of stream = cs @ rest) \<and>
     (I (pre @ cs) st s \<and> (err = None \<longrightarrow> cs = chunks_of stream \<and> list_all (\<lambda>r. \<exists>c. r = Chunk c) stream)
      \<or> (\<exists>c e rest. err = Some e \<and> chunks_of stream = cs @ c # rest \<and> J (pre @ cs) c e st s))"

lemma copied_Chunk:
  "copied I J stream (pre @ [c]) cs err st s \<Longrightarrow> copied I J (Chunk c # stream) pre (c # cs) err st s"
  by (auto simp: copied_def)

lemma copied_here: "I pre st s \<Longrightarrow> err \<noteq> None \<Longrightarrow> copied I J stream pre [] err st s"
  by (auto simp: copied_def)

lemma copied_stop: "J pre c e st s \<Longrightarrow> copied I J (Chunk c # stream) pre [] (Some e) st s"
  by (auto simp: copied_def)

lemma CopyAudioStream_copied:
  assumes step: "\<And>cs c st s. set (cs @ [c]) \<subseteq> S \<Longrightarrow> I cs st s \<Longrightarrow>
      (case fst (result (onChunk c st) s) of
         None \<Rightarrow> I (cs @ [c]) (snd (result (onChunk c st) s)) (after (onChunk c st) s)
       | Some e \<Rightarrow> J cs c e (snd (result (onChunk c st) s)) (after (onChunk c st) s))"
    and ctx: "\<And>cs st s. I cs st s \<Longrightarrow> I cs st (after (ctx_done ctx) s)"
  shows "I pre st s \<Longrightarrow> set pre \<subseteq> S \<Longrightarrow> set (chunks_of stream) \<subseteq> S \<Longrightarrow>
    \<exists>cs. copied I J stream pre cs (fst (result (CopyAudioStream ctx stream onChunk st) s))
      (snd (result (CopyAudioStream ctx stream onChunk st) s)) (after (CopyAudioStream ctx stream onChunk st) s)"
proof (induction stream arbitrary: pre st s)
  case Nil
  then show ?case
    using ctx [OF Nil(1)] by (intro exI [of _ "[]"]) (auto simp: copied_def split: option.splits)
next
  case (Cons r stream)
  let ?s1 = "after (ctx_done ctx) s"
  have i1: "I pre st ?s1" by (rule ctx [OF Cons.prems(1)])
  show ?case
  proof (cases "result (ctx_done ctx) s")
    case (Some e)
    then show ?thesis using copied_here [of I, OF i1] by (intro exI [of _ "[]"]) simp
  next
    case None
    show ?thesis
    proof (cases r)
      case (Recv_error e)
      then show ?thesis using copied_here [of I, OF i1] None by (intro exI [of _ "[]"]) simp
    next
      case (Chunk c)
      obtain err st' where r: "result (onChunk c st) ?s1 = (err, st')"
        by (cases "result (onChunk c st) ?s1")
      have sc: "set (pre @ [c]) \<subseteq> S" using Cons.prems Chunk by auto
      note st = step [OF sc i1, unfolded r fst_conv snd_conv]
      show ?thesis
      proof (cases err)
        case (Some e)
        then show ?thesis using st None Chunk r copied_stop [of J]
          by (intro exI [of _ "[]"]) simp
      next
        case none: None
        have "I (pre @ [c]) st' (after (onChunk c st) ?s1)" "set (chunks_of stream) \<subseteq> S"
          using st none Cons.prems(3) Chunk by simp_all
        from Cons.IH [OF this(1) sc this(2)] obtain cs where
          "copied I J stream (pre @ [c]) cs
             (fst (result (CopyAudioStream ctx stream onChunk st') (after (onChunk c st) ?s1)))
             (snd (result (CopyAudioStream ctx stream onChunk st') (after (onChunk c st) ?s1)))
             (after (CopyAudioStream ctx stream onChunk st') (after (onChunk c st) ?s1))" by blast
        from copied_Chunk [OF this] show ?thesis
          using None Chunk none r by (intro exI [of _ "c # cs"]) simp
      qed
    qed
  qed
qed

text \<open>What every step keeps, the loop keeps.\<close>

lemma keeps_case_context [keeps_intros]:
  "keeps P m \<Longrightarrow> keeps P n \<Longrightarrow> keeps P (case ctx of Background \<Rightarrow> m | Request \<Rightarrow> n)"
  by (cases ctx) simp_all

lemma keeps_ctx_done [keeps_intros]: "keeps P draw \<Longrightarrow> keeps P (ctx_done ctx)"
  unfolding ctx_done_def by (intro keeps_intros)

lemma keeps_case_recv [keeps_intros]:
  "(\<And>c. keeps P (f c)) \<Longrightarrow> (\<And>e. keeps P (g e)) \<Longrightarrow> keeps P (case r of Chunk c \<Rightarrow> f c | Recv_error e \<Rightarrow> g e)"
  by (cases r) simp_all

lemma keeps_CopyAudioStream [keeps_intros]:
  "keeps P draw \<Longrightarrow> (\<And>c st. keeps P (onChunk c st)) \<Longrightarrow> keeps P (CopyAudioStream ctx stream onChunk st)"
  by (induction stream arbitrary: st) (auto intro!: keeps_intros)

end
