(* ===== verification/Gen.thy ===== *)
theory Gen
  imports Http
begin

text \<open>
  \<open>api/internal/gen/openapi.go\<close>: the types of requests and responses with their JSON encodings, the
  interface the server implements, the wrappers that bind path and query parameters before a
  handler runs, and the table of routes.  The binding of parameters is the generator's run-time
  library: a parameter, \<open>bindings\<close>, that answers the error's text or the value.
\<close>

section \<open>Encoding\<close>

text \<open>
  A struct is written field by field in the order of its declaration; a field tagged \<open>omitempty\<close> is
  left out when its pointer is nil.  A field that cannot be encoded makes the whole value fail.
\<close>

type_synonym fields = "(string \<times> json) list option"

definition obj :: "fields list \<Rightarrow> json option" where
  "obj fs = map_option (\<lambda>xs. JObj (concat xs)) (those fs)"

definition always :: "string \<Rightarrow> json option \<Rightarrow> fields" where
  "always k v = map_option (\<lambda>j. [(k, j)]) v"

definition omitempty :: "string \<Rightarrow> ('a \<Rightarrow> json option) \<Rightarrow> 'a option \<Rightarrow> fields" where
  "omitempty k enc v = (case v of None \<Rightarrow> Some [] | Some x \<Rightarrow> always k (enc x))"

definition pointer :: "('a \<Rightarrow> json option) \<Rightarrow> 'a option \<Rightarrow> json option" where
  "pointer enc v = (case v of None \<Rightarrow> Some JNull | Some x \<Rightarrow> enc x)"

definition enc_str :: "string \<Rightarrow> json option" where
  "enc_str s = Some (JStr s)"

definition enc_int :: "int \<Rightarrow> json option" where
  "enc_int n = Some (JInt n)"

definition enc_time :: "'v env \<Rightarrow> instant \<Rightarrow> json option" where
  "enc_time E t = map_option JStr (time_text E t)"

text \<open>A slice is nil (\<open>None\<close>), written \<open>null\<close>, or has elements.\<close>

type_synonym 'a slice = "'a list option"

definition enc_slice :: "('a \<Rightarrow> json option) \<Rightarrow> 'a slice \<Rightarrow> json option" where
  "enc_slice enc xs = (case xs of None \<Rightarrow> Some JNull | Some ys \<Rightarrow> map_option JArr (those (map enc ys)))"

section \<open>Responses\<close>

record ApiKeySummary =
  ks_CreatedAt :: "instant option"
  ks_Id :: "uuid option"
  ks_Prefix :: "string option"
  ks_RevokedAt :: "instant option"

definition enc_ApiKeySummary :: "'v env \<Rightarrow> ApiKeySummary \<Rightarrow> json option" where
  "enc_ApiKeySummary E x = obj
     [omitempty ''createdAt'' (enc_time E) (ks_CreatedAt x), omitempty ''id'' enc_str (ks_Id x),
      omitempty ''prefix'' enc_str (ks_Prefix x), always ''revokedAt'' (pointer (enc_time E) (ks_RevokedAt x))]"

record ApiKeyListResponse =
  kl_Keys :: "ApiKeySummary slice option"

definition enc_ApiKeyListResponse :: "'v env \<Rightarrow> ApiKeyListResponse \<Rightarrow> json option" where
  "enc_ApiKeyListResponse E x = obj [omitempty ''keys'' (enc_slice (enc_ApiKeySummary E)) (kl_Keys x)]"

record AsyncJobResponse =
  aj_JobId :: "uuid option"

definition enc_AsyncJobResponse :: "AsyncJobResponse \<Rightarrow> json option" where
  "enc_AsyncJobResponse x = obj [omitempty ''jobId'' enc_str (aj_JobId x)]"

record AsyncJobStatusResponse =
  js_Error :: "string option"
  js_JobId :: "uuid option"
  js_Status :: "string option"

definition enc_AsyncJobStatusResponse :: "AsyncJobStatusResponse \<Rightarrow> json option" where
  "enc_AsyncJobStatusResponse x = obj
     [always ''error'' (pointer enc_str (js_Error x)), omitempty ''jobId'' enc_str (js_JobId x),
      omitempty ''status'' enc_str (js_Status x)]"

text \<open>The values of the enumeration.\<close>

fun status_text :: "job_status \<Rightarrow> string" where
  "status_text Completed = ''completed''"
| "status_text Failed = ''failed''"
| "status_text Pending = ''pending''"
| "status_text Running = ''running''"

record AuthSessionResponse =
  as_ApiKey :: string
  as_Id :: uuid
  as_Username :: string

definition enc_AuthSessionResponse :: "AuthSessionResponse \<Rightarrow> json option" where
  "enc_AuthSessionResponse x = obj
     [always ''apiKey'' (enc_str (as_ApiKey x)), always ''id'' (enc_str (as_Id x)),
      always ''username'' (enc_str (as_Username x))]"

record CreateApiKeyResponse =
  ck_Id :: "uuid option"
  ck_Prefix :: "string option"
  ck_Secret :: "string option"

definition enc_CreateApiKeyResponse :: "CreateApiKeyResponse \<Rightarrow> json option" where
  "enc_CreateApiKeyResponse x = obj
     [omitempty ''id'' enc_str (ck_Id x), omitempty ''prefix'' enc_str (ck_Prefix x),
      omitempty ''secret'' enc_str (ck_Secret x)]"

record EmotiveTagMeta =
  et_Label :: "string option"
  et_Tag :: "string option"

definition enc_EmotiveTagMeta :: "EmotiveTagMeta \<Rightarrow> json option" where
  "enc_EmotiveTagMeta x = obj [omitempty ''label'' enc_str (et_Label x), omitempty ''tag'' enc_str (et_Tag x)]"

record HealthResponse =
  he_Status :: string

definition enc_HealthResponse :: "HealthResponse \<Rightarrow> json option" where
  "enc_HealthResponse x = obj [always ''status'' (enc_str (he_Status x))]"

record UsageEvent =
  ev_AudioSeconds :: "float32 option"
  ev_CostUsd :: "float32 option"
  ev_Id :: "uuid option"
  ev_OccurredAt :: "instant option"
  ev_RequestId :: "string option"
  ev_Transport :: "string option"

definition enc_UsageEvent :: "'v env \<Rightarrow> UsageEvent \<Rightarrow> json option" where
  "enc_UsageEvent E x = obj
     [omitempty ''audioSeconds'' enc_f32 (ev_AudioSeconds x), omitempty ''costUsd'' enc_f32 (ev_CostUsd x),
      omitempty ''id'' enc_str (ev_Id x), omitempty ''occurredAt'' (enc_time E) (ev_OccurredAt x),
      omitempty ''requestId'' enc_str (ev_RequestId x), omitempty ''transport'' enc_str (ev_Transport x)]"

record UsageListResponse =
  ul_Items :: "UsageEvent slice option"
  ul_Total :: "int option"

definition enc_UsageListResponse :: "'v env \<Rightarrow> UsageListResponse \<Rightarrow> json option" where
  "enc_UsageListResponse E x = obj
     [omitempty ''items'' (enc_slice (enc_UsageEvent E)) (ul_Items x), omitempty ''total'' enc_int (ul_Total x)]"

record VoiceMeta =
  vm_Hint :: "string option"
  vm_Id :: "string option"
  vm_Label :: "string option"

definition enc_VoiceMeta :: "VoiceMeta \<Rightarrow> json option" where
  "enc_VoiceMeta x = obj
     [omitempty ''hint'' enc_str (vm_Hint x), omitempty ''id'' enc_str (vm_Id x),
      omitempty ''label'' enc_str (vm_Label x)]"

record VoicesMetaResponse =
  vr_EmotiveTags :: "EmotiveTagMeta slice option"
  vr_Notes :: "string option"
  vr_Voices :: "VoiceMeta slice option"

definition enc_VoicesMetaResponse :: "VoicesMetaResponse \<Rightarrow> json option" where
  "enc_VoicesMetaResponse x = obj
     [omitempty ''emotiveTags'' (enc_slice enc_EmotiveTagMeta) (vr_EmotiveTags x),
      omitempty ''notes'' enc_str (vr_Notes x), omitempty ''voices'' (enc_slice enc_VoiceMeta) (vr_Voices x)]"

record WalletResponse =
  wl_BalanceUsd :: "float32 option"
  wl_PricePerAudioMinuteUsd :: "float32 option"

definition enc_WalletResponse :: "WalletResponse \<Rightarrow> json option" where
  "enc_WalletResponse x = obj
     [omitempty ''balanceUsd'' enc_f32 (wl_BalanceUsd x),
      omitempty ''pricePerAudioMinuteUsd'' enc_f32 (wl_PricePerAudioMinuteUsd x)]"

section \<open>Requests\<close>

record LoginRequest =
  lr_Password :: string
  lr_Username :: string

text \<open>\<open>RegisterRequest\<close> has the same fields and tags.\<close>

type_synonym RegisterRequest = LoginRequest

definition LoginRequest0 :: LoginRequest where
  "LoginRequest0 = \<lparr>lr_Password = [], lr_Username = []\<rparr>"

definition LoginRequest_step :: "LoginRequest \<Rightarrow> string \<Rightarrow> json \<Rightarrow> LoginRequest option" where
  "LoginRequest_step c k v =
     (if key_is ''password'' k then map_option (\<lambda>x. c\<lparr>lr_Password := x\<rparr>) (dec_string (lr_Password c) v)
      else if key_is ''username'' k then map_option (\<lambda>x. c\<lparr>lr_Username := x\<rparr>) (dec_string (lr_Username c) v)
      else Some c)"

record TTSRequest =
  tr_Text :: string
  tr_Voice :: "string option"

definition TTSRequest0 :: TTSRequest where
  "TTSRequest0 = \<lparr>tr_Text = [], tr_Voice = None\<rparr>"

definition TTSRequest_step :: "TTSRequest \<Rightarrow> string \<Rightarrow> json \<Rightarrow> TTSRequest option" where
  "TTSRequest_step c k v =
     (if key_is ''text'' k then map_option (\<lambda>x. c\<lparr>tr_Text := x\<rparr>) (dec_string (tr_Text c) v)
      else if key_is ''voice'' k then map_option (\<lambda>x. c\<lparr>tr_Voice := x\<rparr>) (dec_string_ptr (tr_Voice c) v)
      else Some c)"

record ListUsageParams =
  Limit :: "int option"
  Offset :: "int option"

section \<open>The server's interface\<close>

record 'v ServerInterface =
  si_GetHealth :: "'v handler"
  si_ListApiKeys :: "'v handler"
  si_CreateApiKey :: "'v handler"
  si_RevokeApiKey :: "uuid \<Rightarrow> 'v handler"
  si_LoginUser :: "'v handler"
  si_LogoutUser :: "'v handler"
  si_RegisterUser :: "'v handler"
  si_GetMetaVoices :: "'v handler"
  si_CreateAsyncTTS :: "'v handler"
  si_GetAsyncJob :: "uuid \<Rightarrow> 'v handler"
  si_GetAsyncJobAudio :: "uuid \<Rightarrow> 'v handler"
  si_LiveTTSWebSocket :: "'v handler"
  si_StreamTTS :: "'v handler"
  si_ListUsage :: "ListUsageParams \<Rightarrow> 'v handler"
  si_GetWallet :: "'v handler"

definition not_implemented :: "'v handler" where
  "not_implemented r = ret \<lparr>rs_code = 501, rs_header = [], rs_body = Empty\<rparr>"

definition Unimplemented :: "'v ServerInterface" where
  "Unimplemented = \<lparr>
     si_GetHealth = not_implemented, si_ListApiKeys = not_implemented, si_CreateApiKey = not_implemented,
     si_RevokeApiKey = (\<lambda>_. not_implemented), si_LoginUser = not_implemented, si_LogoutUser = not_implemented,
     si_RegisterUser = not_implemented, si_GetMetaVoices = not_implemented,
     si_CreateAsyncTTS = not_implemented, si_GetAsyncJob = (\<lambda>_. not_implemented),
     si_GetAsyncJobAudio = (\<lambda>_. not_implemented), si_LiveTTSWebSocket = not_implemented,
     si_StreamTTS = not_implemented, si_ListUsage = (\<lambda>_. not_implemented), si_GetWallet = not_implemented\<rparr>"

section \<open>Parameter errors\<close>

text \<open>The wrapped error is represented by its text.\<close>

datatype param_error =
    UnescapedCookieParamError string string
  | UnmarshalingParamError string string
  | RequiredParamError string
  | RequiredHeaderError string string
  | InvalidParamFormatError string string
  | TooManyValuesForParamError string int

fun param_Error :: "param_error \<Rightarrow> string" where
  "param_Error (UnescapedCookieParamError name err) = ''error unescaping cookie parameter '' @ [CHR 0x27] @ name @ [CHR 0x27]"
| "param_Error (UnmarshalingParamError name err) = ''Error unmarshaling parameter '' @ name @ '' as JSON: '' @ err"
| "param_Error (RequiredParamError name) = ''Query argument '' @ name @ '' is required, but not found''"
| "param_Error (RequiredHeaderError name err) = ''Header parameter '' @ name @ '' is required, but not found''"
| "param_Error (InvalidParamFormatError name err) = ''Invalid format for parameter '' @ name @ '': '' @ err"
| "param_Error (TooManyValuesForParamError name n) = ''Expected one value for '' @ name @ '', got '' @ itoa n"

fun param_Unwrap :: "param_error \<Rightarrow> string option" where
  "param_Unwrap (UnescapedCookieParamError name err) = Some err"
| "param_Unwrap (UnmarshalingParamError name err) = Some err"
| "param_Unwrap (RequiredHeaderError name err) = Some err"
| "param_Unwrap (InvalidParamFormatError name err) = Some err"
| "param_Unwrap _ = None"

section \<open>Wrappers\<close>

type_synonym 'v middleware = "'v handler \<Rightarrow> 'v handler"

record 'v ServerInterfaceWrapper =
  Handler :: "'v ServerInterface"
  HandlerMiddlewares :: "'v middleware list"
  ErrorHandlerFunc :: "param_error \<Rightarrow> 'v handler"

record bindings =
  bind_path_uuid :: "string \<Rightarrow> string \<Rightarrow> string + uuid"
  bind_query_int :: "string \<Rightarrow> string list \<Rightarrow> string + int option"

definition apply_middlewares :: "'v ServerInterfaceWrapper \<Rightarrow> 'v middleware" where
  "apply_middlewares siw h = foldl (\<lambda>h m. m h) h (HandlerMiddlewares siw)"

definition bearer_scopes :: "request \<Rightarrow> request" where
  "bearer_scopes r = r\<lparr>rq_scopes := Some []\<rparr>"

definition siw_GetHealth :: "'v ServerInterfaceWrapper \<Rightarrow> 'v handler" where
  "siw_GetHealth siw r = apply_middlewares siw (si_GetHealth (Handler siw)) r"

definition siw_ListApiKeys :: "'v ServerInterfaceWrapper \<Rightarrow> 'v handler" where
  "siw_ListApiKeys siw r = apply_middlewares siw (si_ListApiKeys (Handler siw)) (bearer_scopes r)"

definition siw_CreateApiKey :: "'v ServerInterfaceWrapper \<Rightarrow> 'v handler" where
  "siw_CreateApiKey siw r = apply_middlewares siw (si_CreateApiKey (Handler siw)) (bearer_scopes r)"

definition siw_RevokeApiKey :: "bindings \<Rightarrow> 'v ServerInterfaceWrapper \<Rightarrow> 'v handler" where
  "siw_RevokeApiKey bd siw r =
     (case bind_path_uuid bd ''keyId'' (rq_param r ''keyId'') of
        Inl err \<Rightarrow> ErrorHandlerFunc siw (InvalidParamFormatError ''keyId'' err) r
      | Inr keyId \<Rightarrow> apply_middlewares siw (si_RevokeApiKey (Handler siw) keyId) (bearer_scopes r))"

definition siw_LoginUser :: "'v ServerInterfaceWrapper \<Rightarrow> 'v handler" where
  "siw_LoginUser siw r = apply_middlewares siw (si_LoginUser (Handler siw)) r"

definition siw_LogoutUser :: "'v ServerInterfaceWrapper \<Rightarrow> 'v handler" where
  "siw_LogoutUser siw r = apply_middlewares siw (si_LogoutUser (Handler siw)) r"

definition siw_RegisterUser :: "'v ServerInterfaceWrapper \<Rightarrow> 'v handler" where
  "siw_RegisterUser siw r = apply_middlewares siw (si_RegisterUser (Handler siw)) r"

definition siw_GetMetaVoices :: "'v ServerInterfaceWrapper \<Rightarrow> 'v handler" where
  "siw_GetMetaVoices siw r = apply_middlewares siw (si_GetMetaVoices (Handler siw)) (bearer_scopes r)"

definition siw_CreateAsyncTTS :: "'v ServerInterfaceWrapper \<Rightarrow> 'v handler" where
  "siw_CreateAsyncTTS siw r = apply_middlewares siw (si_CreateAsyncTTS (Handler siw)) (bearer_scopes r)"

definition siw_GetAsyncJob :: "bindings \<Rightarrow> 'v ServerInterfaceWrapper \<Rightarrow> 'v handler" where
  "siw_GetAsyncJob bd siw r =
     (case bind_path_uuid bd ''jobId'' (rq_param r ''jobId'') of
        Inl err \<Rightarrow> ErrorHandlerFunc siw (InvalidParamFormatError ''jobId'' err) r
      | Inr jobId \<Rightarrow> apply_middlewares siw (si_GetAsyncJob (Handler siw) jobId) (bearer_scopes r))"

definition siw_GetAsyncJobAudio :: "bindings \<Rightarrow> 'v ServerInterfaceWrapper \<Rightarrow> 'v handler" where
  "siw_GetAsyncJobAudio bd siw r =
     (case bind_path_uuid bd ''jobId'' (rq_param r ''jobId'') of
        Inl err \<Rightarrow> ErrorHandlerFunc siw (InvalidParamFormatError ''jobId'' err) r
      | Inr jobId \<Rightarrow> apply_middlewares siw (si_GetAsyncJobAudio (Handler siw) jobId) (bearer_scopes r))"

definition siw_LiveTTSWebSocket :: "'v ServerInterfaceWrapper \<Rightarrow> 'v handler" where
  "siw_LiveTTSWebSocket siw r = apply_middlewares siw (si_LiveTTSWebSocket (Handler siw)) (bearer_scopes r)"

definition siw_StreamTTS :: "'v ServerInterfaceWrapper \<Rightarrow> 'v handler" where
  "siw_StreamTTS siw r = apply_middlewares siw (si_StreamTTS (Handler siw)) (bearer_scopes r)"

definition siw_ListUsage :: "bindings \<Rightarrow> 'v ServerInterfaceWrapper \<Rightarrow> 'v handler" where
  "siw_ListUsage bd siw r0 =
     (let r = bearer_scopes r0
      in case bind_query_int bd ''limit'' (rq_query r ''limit'') of
           Inl err \<Rightarrow> ErrorHandlerFunc siw (InvalidParamFormatError ''limit'' err) r
         | Inr limit \<Rightarrow>
             (case bind_query_int bd ''offset'' (rq_query r ''offset'') of
                Inl err \<Rightarrow> ErrorHandlerFunc siw (InvalidParamFormatError ''offset'' err) r
              | Inr offset \<Rightarrow>
                  apply_middlewares siw (si_ListUsage (Handler siw) \<lparr>Limit = limit, Offset = offset\<rparr>) r))"

definition siw_GetWallet :: "'v ServerInterfaceWrapper \<Rightarrow> 'v handler" where
  "siw_GetWallet siw r = apply_middlewares siw (si_GetWallet (Handler siw)) (bearer_scopes r)"

section \<open>Routes\<close>

text \<open>
  A router is the list of its registrations in order; which of them serves a request, and with
  which path parameters, is chi's to decide.
\<close>

record 'v route =
  rt_method :: string
  rt_pattern :: string
  rt_handler :: "'v handler"

type_synonym 'v router = "'v route list"

definition route :: "string \<Rightarrow> string \<Rightarrow> 'v handler \<Rightarrow> 'v route" where
  "route m p h = \<lparr>rt_method = m, rt_pattern = p, rt_handler = h\<rparr>"

record 'v ChiServerOptions =
  BaseURL :: string
  BaseRouter :: "'v router option"
  Middlewares :: "'v middleware list"
  opt_ErrorHandlerFunc :: "(param_error \<Rightarrow> 'v handler) option"

definition HandlerWithOptions :: "bindings \<Rightarrow> 'v ServerInterface \<Rightarrow> 'v ChiServerOptions \<Rightarrow> 'v router" where
  "HandlerWithOptions bd si options =
     (let r = (case BaseRouter options of None \<Rightarrow> [] | Some r \<Rightarrow> r);
          onerr = (case opt_ErrorHandlerFunc options of
                     None \<Rightarrow> (\<lambda>err _. ret (http_error (param_Error err) 400))
                   | Some f \<Rightarrow> f);
          siw = \<lparr>Handler = si, HandlerMiddlewares = Middlewares options, ErrorHandlerFunc = onerr\<rparr>;
          base = BaseURL options
      in r @
        [route ''GET'' (base @ ''/health'') (siw_GetHealth siw),
         route ''GET'' (base @ ''/v1/auth/api-keys'') (siw_ListApiKeys siw),
         route ''POST'' (base @ ''/v1/auth/api-keys'') (siw_CreateApiKey siw),
         route ''DELETE'' (base @ ''/v1/auth/api-keys/{keyId}'') (siw_RevokeApiKey bd siw),
         route ''POST'' (base @ ''/v1/auth/login'') (siw_LoginUser siw),
         route ''POST'' (base @ ''/v1/auth/logout'') (siw_LogoutUser siw),
         route ''POST'' (base @ ''/v1/auth/register'') (siw_RegisterUser siw),
         route ''GET'' (base @ ''/v1/meta/voices'') (siw_GetMetaVoices siw),
         route ''POST'' (base @ ''/v1/tts/async'') (siw_CreateAsyncTTS siw),
         route ''GET'' (base @ ''/v1/tts/async/{jobId}'') (siw_GetAsyncJob bd siw),
         route ''GET'' (base @ ''/v1/tts/async/{jobId}/audio'') (siw_GetAsyncJobAudio bd siw),
         route ''GET'' (base @ ''/v1/tts/live'') (siw_LiveTTSWebSocket siw),
         route ''POST'' (base @ ''/v1/tts/stream'') (siw_StreamTTS siw),
         route ''GET'' (base @ ''/v1/usage'') (siw_ListUsage bd siw),
         route ''GET'' (base @ ''/v1/wallet'') (siw_GetWallet siw)])"

definition HandlerFromMuxWithBaseURL :: "bindings \<Rightarrow> 'v ServerInterface \<Rightarrow> 'v router \<Rightarrow> string \<Rightarrow> 'v router" where
  "HandlerFromMuxWithBaseURL bd si r base =
     HandlerWithOptions bd si
       \<lparr>BaseURL = base, BaseRouter = Some r, Middlewares = [], opt_ErrorHandlerFunc = None\<rparr>"

definition HandlerFromMux :: "bindings \<Rightarrow> 'v ServerInterface \<Rightarrow> 'v router \<Rightarrow> 'v router" where
  "HandlerFromMux bd si r =
     HandlerWithOptions bd si
       \<lparr>BaseURL = [], BaseRouter = Some r, Middlewares = [], opt_ErrorHandlerFunc = None\<rparr>"

definition gen_Handler :: "bindings \<Rightarrow> 'v ServerInterface \<Rightarrow> 'v router" where
  "gen_Handler bd si =
     HandlerWithOptions bd si
       \<lparr>BaseURL = [], BaseRouter = None, Middlewares = [], opt_ErrorHandlerFunc = None\<rparr>"

end
