(* ===== verification/Server.thy ===== *)
theory Server
  imports Auth Wallet RateLimit Config Grpc Gen
begin

text \<open>
  \<open>api/internal/handler/server.go\<close>, \<open>meta.go\<close> and \<open>inference_meta.go\<close>: the handlers on accounts,
  keys, wallet, usage and metadata, and the admission both synthesis handlers share.  (Synthesis
  itself is theory Synthesis.)  The request and response types are those of theory Gen.
\<close>

section \<open>The server\<close>

text \<open>\<open>Synth\<close>: the synthesis limiter is configured; \<open>Live\<close>: the handler of live sessions, if set.\<close>

record 'v Server =
  Wallets :: WalletCache
  Inference :: Client
  LimiterStore :: Store
  Synth :: bool
  Cfg :: Config
  Live :: "'v handler option"

definition LiveTTSWebSocket :: "'v Server \<Rightarrow> 'v handler" where
  "LiveTTSWebSocket sv r =
     (case Live sv of
        Some h \<Rightarrow> h r
      | None \<Rightarrow> ret (http_error ''live TTS not configured'' 500))"

definition GetHealth :: "'v handler" where
  "GetHealth r = ret (writeJSON 200 (enc_HealthResponse \<lparr>he_Status = ''ok''\<rparr>))"

section \<open>Accounts and keys\<close>

definition writeAuthSession :: "int \<Rightarrow> User \<Rightarrow> string \<Rightarrow> response" where
  "writeAuthSession code u apiKey =
     SetAuthCookie apiKey (writeJSON code (enc_AuthSessionResponse
        \<lparr>as_ApiKey = apiKey, as_Id = ID u, as_Username = Username u\<rparr>))"

definition LogoutUser :: "'v handler" where
  "LogoutUser r = ret (ClearAuthCookie \<lparr>rs_code = 204, rs_header = [], rs_body = Empty\<rparr>)"

definition RegisterUser :: "'v env \<Rightarrow> 'v Server \<Rightarrow> 'v handler" where
  "RegisterUser E sv r =
     (case unmarshal LoginRequest_step LoginRequest0 (rq_body r) of
        None \<Rightarrow> ret (http_error ''bad request'' 400)
      | Some req \<Rightarrow> do {
          q \<leftarrow> Register E (lr_Username req) (lr_Password req) (DefaultWalletUSD (Cfg sv));
          case q of
            Inl err \<Rightarrow> ret (http_error ''conflict'' 409)
          | Inr u \<Rightarrow> do {
              k \<leftarrow> CreateAPIKey E (ID u);
              ret (case k of
                     Inl err \<Rightarrow> http_error ''error'' 500
                   | Inr (_, _, secret) \<Rightarrow> writeAuthSession 201 u secret)
            }
        })"

definition LoginUser :: "'v env \<Rightarrow> 'v handler" where
  "LoginUser E r =
     (case unmarshal LoginRequest_step LoginRequest0 (rq_body r) of
        None \<Rightarrow> ret (http_error ''bad request'' 400)
      | Some req \<Rightarrow> do {
          q \<leftarrow> AuthenticatePassword E (lr_Username req) (lr_Password req);
          case q of
            Inl err \<Rightarrow> ret (http_error ''{\"error\":\"invalid credentials\"}'' 401)
          | Inr u \<Rightarrow> do {
              k \<leftarrow> CreateAPIKey E (ID u);
              ret (case k of
                     Inl err \<Rightarrow> http_error ''error'' 500
                   | Inr (_, _, secret) \<Rightarrow> writeAuthSession 200 u secret)
            }
        })"

text \<open>The check every handler behind the bearer middleware starts with.\<close>

definition with_user :: "request \<Rightarrow> (User \<Rightarrow> ('v, response) io) \<Rightarrow> ('v, response) io" where
  "with_user r f =
     (case UserFromContext r of None \<Rightarrow> ret (http_error ''unauthorized'' 401) | Some u \<Rightarrow> f u)"

definition CreateApiKey :: "'v env \<Rightarrow> 'v handler" where
  "CreateApiKey E r = with_user r (\<lambda>u. do {
     k \<leftarrow> CreateAPIKey E (ID u);
     ret (case k of
            Inl err \<Rightarrow> http_error ''error'' 500
          | Inr (i, pfx, secret) \<Rightarrow> writeJSON 201 (enc_CreateApiKeyResponse
              \<lparr>ck_Id = Some i, ck_Prefix = Some pfx, ck_Secret = Some secret\<rparr>))
   })"

definition key_summary :: "APIKeyRecord \<Rightarrow> ApiKeySummary" where
  "key_summary k = \<lparr>ks_CreatedAt = None, ks_Id = Some (r_ID k), ks_Prefix = Some (r_Prefix k), ks_RevokedAt = None\<rparr>"

definition ListApiKeys :: "'v env \<Rightarrow> 'v handler" where
  "ListApiKeys E r = with_user r (\<lambda>u. do {
     q \<leftarrow> ListAPIKeys (ID u);
     ret (case q of
            Inl err \<Rightarrow> http_error ''error'' 500
          | Inr keys \<Rightarrow> writeJSON 200 (enc_ApiKeyListResponse E \<lparr>kl_Keys = Some (Some (map key_summary keys))\<rparr>))
   })"

definition RevokeApiKey :: "uuid \<Rightarrow> 'v handler" where
  "RevokeApiKey keyId r = with_user r (\<lambda>u. do {
     e \<leftarrow> RevokeAPIKey (ID u) keyId;
     ret (case e of
            Some err \<Rightarrow> if err = PgError NoRows then http_error ''not found'' 404 else http_error ''error'' 500
          | None \<Rightarrow> \<lparr>rs_code = 204, rs_header = [], rs_body = Empty\<rparr>)
   })"

section \<open>Wallet and usage\<close>

definition GetWallet :: "'v env \<Rightarrow> 'v Server \<Rightarrow> 'v handler" where
  "GetWallet E sv r = with_user r (\<lambda>u. do {
     q \<leftarrow> Get E (Wallets sv) (ID u);
     case q of
       Inl err \<Rightarrow> ret (http_error ''error'' 500)
     | Inr snap \<Rightarrow> do {
         _ \<leftarrow> ObserveWalletBalance (MetricsWalletPerUser (Cfg sv)) (ID u) (BalanceUSD snap);
         let bal = to_f32 (BalanceUSD snap);
         let ppm = to_f32 (PricePerAudioMinuteUSD snap);
         ret (writeJSON 200 (enc_WalletResponse
           \<lparr>wl_BalanceUsd = Some bal, wl_PricePerAudioMinuteUsd = Some ppm\<rparr>))
       }
   })"

definition count_usage :: "uuid \<Rightarrow> db \<Rightarrow> (pg_error + int) \<times> db" where
  "count_usage uid d = (Inr (int (length (filter (\<lambda>e. ue_user e = uid) (usage_events d)))), d)"

text \<open>
  The page of usage rows.  A negative \<open>LIMIT\<close> or \<open>OFFSET\<close> is an error the server reports while the
  rows are read, so the query itself succeeds with no row.  Rows of one instant come in the order
  of the table.
\<close>

definition usage_page :: "uuid \<Rightarrow> int \<Rightarrow> int \<Rightarrow> db \<Rightarrow> (pg_error + usage_row list) \<times> db" where
  "usage_page uid limit offset d =
     (Inr (if limit < 0 \<or> offset < 0 then []
           else take (nat limit) (drop (nat offset)
                  (sort_key (\<lambda>e. - ue_occurred e) (filter (\<lambda>e. ue_user e = uid) (usage_events d))))), d)"

text \<open>
  Reading the rows: the connection may be lost after any number of them; \<open>rows.Next\<close> then answers
  false as at the end, and the handler does not look at \<open>rows.Err\<close>.
\<close>

definition read_rows :: "'r list \<Rightarrow> ('v, 'r list) io" where
  "read_rows rows = do { n \<leftarrow> draw; ret (if n = 0 then rows else take (n - 1) rows) }"

definition usage_item :: "'v env \<Rightarrow> usage_row \<Rightarrow> UsageEvent" where
  "usage_item E e =
     \<lparr>ev_AudioSeconds = Some (to_f32 (num_scan E (ue_seconds e))), ev_CostUsd = Some (to_f32 (num_scan E (ue_cost e))),
      ev_Id = Some (ue_id e), ev_OccurredAt = Some (ue_occurred e), ev_RequestId = Some (ue_request e),
      ev_Transport = Some (ue_transport e)\<rparr>"

text \<open>Appending to a nil slice: it stays nil when there is nothing to append.\<close>

definition append_all :: "'a list \<Rightarrow> 'a slice" where
  "append_all xs = (if xs = [] then None else Some xs)"

definition ListUsage :: "'v env \<Rightarrow> ListUsageParams \<Rightarrow> 'v handler" where
  "ListUsage E params r = with_user r (\<lambda>u. do {
     let limit = (case Limit params of Some n \<Rightarrow> n | None \<Rightarrow> 50);
     let offset = (case Offset params of Some n \<Rightarrow> n | None \<Rightarrow> 0);
     t \<leftarrow> pg (count_usage (ID u));
     case t of
       Inl err \<Rightarrow> ret (http_error ''error'' 500)
     | Inr tot \<Rightarrow> do {
         q \<leftarrow> pg (usage_page (ID u) limit offset);
         case q of
           Inl err \<Rightarrow> ret (http_error ''error'' 500)
         | Inr page \<Rightarrow> do {
             rows \<leftarrow> read_rows page;
             ret (writeJSON 200 (enc_UsageListResponse E
               \<lparr>ul_Items = Some (append_all (map (usage_item E) rows)), ul_Total = Some tot\<rparr>))
           }
       }
   })"

section \<open>Metadata\<close>

definition voiceMeta :: "string \<Rightarrow> string \<Rightarrow> string \<Rightarrow> VoiceMeta" where
  "voiceMeta i label hint = \<lparr>vm_Hint = Some hint, vm_Id = Some i, vm_Label = Some label\<rparr>"

definition tagMeta :: "string \<Rightarrow> string \<Rightarrow> EmotiveTagMeta" where
  "tagMeta tag label = \<lparr>et_Label = Some label, et_Tag = Some tag\<rparr>"

definition voicesMeta :: "VoiceMeta list" where
  "voicesMeta =
     [voiceMeta ''tara'' ''Tara'' ''Female, conversational, clear'',
      voiceMeta ''leah'' ''Leah'' ''Female, warm, gentle'',
      voiceMeta ''jess'' ''Jess'' ''Female, energetic, youthful'',
      voiceMeta ''leo'' ''Leo'' ''Male, authoritative, deep'',
      voiceMeta ''dan'' ''Dan'' ''Male, friendly, casual'',
      voiceMeta ''mia'' ''Mia'' ''Female, professional, articulate'',
      voiceMeta ''zac'' ''Zac'' ''Male, enthusiastic, dynamic'',
      voiceMeta ''zoe'' ''Zoe'' ''Female, calm, soothing'']"

definition emotiveTagsMeta :: "EmotiveTagMeta list" where
  "emotiveTagsMeta =
     [tagMeta ''<laugh>'' ''Laugh'', tagMeta ''<chuckle>'' ''Chuckle'', tagMeta ''<sigh>'' ''Sigh'',
      tagMeta ''<cough>'' ''Cough'', tagMeta ''<sniffle>'' ''Sniffle'', tagMeta ''<groan>'' ''Groan'',
      tagMeta ''<yawn>'' ''Yawn'', tagMeta ''<gasp>'' ''Gasp'']"

text \<open>The JSON encoder writes the angle brackets of the tags escaped, which is the same string.\<close>

definition GetMetaVoices :: "'v handler" where
  "GetMetaVoices r = ret (writeJSON 200 (enc_VoicesMetaResponse
     \<lparr>vr_EmotiveTags = Some (Some emotiveTagsMeta),
      vr_Notes = Some ''English voices for the current model. Insert emotive tags in text; speech is formatted as {voice}: your text.'',
      vr_Voices = Some (Some voicesMeta)\<rparr>))"

definition GetMetaInference :: "'v Server \<Rightarrow> 'v handler" where
  "GetMetaInference sv r =
     (let (ready, backend, err) = HealthDetail (Inference sv);
          rdy = (ready \<and> err = None);
          rdy = (if err \<noteq> None then False else rdy)
      in ret (writeJSON 200 (Some (JObj
           (field ''grpcAddr'' (JStr (InferenceGRPCAddr (Cfg sv))) @
            field_if (backend \<noteq> []) ''backend'' (JStr backend) @ field ''ready'' (JBool rdy))))))"

section \<open>Admission\<close>

text \<open>
  \<open>admit\<close> answers the response already written, or the snapshot to start with.
\<close>

definition admit :: "'v env \<Rightarrow> 'v Server \<Rightarrow> uuid \<Rightarrow> ('v, response + WalletSnapshot) io" where
  "admit E sv userID = do {
     q \<leftarrow> HasBalance E (Wallets sv) userID;
     case q of
       Inl err \<Rightarrow> ret (Inl (http_error ''error'' 500))
     | Inr (ok, snap) \<Rightarrow>
         if \<not> ok then ret (Inl (http_error ''insufficient balance'' 402))
         else do {
           _ \<leftarrow> observeWallet E (Wallets sv) (MetricsWalletPerUser (Cfg sv)) userID;
           ret (Inr snap)
         }
   }"

text \<open>
  \<open>Acquire\<close> of the shared limiter from one goroutine's side: it gets a slot, which appears in the
  output, or its context is done first (a background context never is).  A missing limiter always
  admits and has nothing to release.
\<close>

definition acquire_slot :: "bool \<Rightarrow> context_kind \<Rightarrow> ('v, ctx_error option) io" where
  "acquire_slot synth ctx =
     (if \<not> synth then ret None
      else do {
        e \<leftarrow> ctx_done ctx;
        case e of
          Some err \<Rightarrow> ret (Some err)
        | None \<Rightarrow> do { _ \<leftarrow> emit Slot_taken; ret None }
      })"

definition release_slot :: "bool \<Rightarrow> ('v, unit) io" where
  "release_slot synth = (if \<not> synth then ret () else emit Slot_released)"

definition acquireSynthesis :: "'v Server \<Rightarrow> ('v, response option) io" where
  "acquireSynthesis sv =
     (if \<not> Synth sv then ret None
      else do {
        e \<leftarrow> acquire_slot True Request;
        ret (case e of
               None \<Rightarrow> None
             | Some err \<Rightarrow>
                 if err = Canceled then Some no_response
                 else Some (http_error ''synthesis capacity exceeded'' 503))
      })"

end
