(* ===== verification/Synthesis.thy ===== *)
theory Synthesis
  imports Server Audio Billing
begin

text \<open>
  The synthesis handlers of \<open>api/internal/handler/server.go\<close>: the asynchronous job, its status and
  its audio, and the HTTP stream.  A goroutine is started by an entry of the output
  (\<open>Go_async\<close> carries the values \<open>runAsyncJob\<close> is called with); a deferred call is written after the
  body it belongs to.  The callbacks of the copy loop thread the variables they capture.
\<close>

section \<open>The jobs table\<close>

definition insert_job :: "uuid \<Rightarrow> uuid \<Rightarrow> string \<Rightarrow> string \<Rightarrow> db \<Rightarrow> (pg_error + uuid) \<times> db" where
  "insert_job i uid txt voice d =
     (if has_user d uid \<and> tts_jobs d i = None \<and> pg_text txt \<and> pg_text voice
      then (Inr i, d\<lparr>tts_jobs := (tts_jobs d)(i \<mapsto>
             \<lparr>j_user = uid, j_status = Pending, j_input = txt, j_voice = voice, j_audio = None, j_error = None\<rparr>)\<rparr>)
      else (Inl Constraint, d))"

definition update_job :: "uuid \<Rightarrow> (job_row \<Rightarrow> job_row) \<Rightarrow> db \<Rightarrow> (pg_error + unit) \<times> db" where
  "update_job i f d = (Inr (), d\<lparr>tts_jobs := (tts_jobs d)(i := map_option f (tts_jobs d i))\<rparr>)"

definition set_running :: "uuid \<Rightarrow> db \<Rightarrow> (pg_error + unit) \<times> db" where
  "set_running i = update_job i (\<lambda>j. j\<lparr>j_status := Running\<rparr>)"

definition set_failed :: "uuid \<Rightarrow> string \<Rightarrow> db \<Rightarrow> (pg_error + unit) \<times> db" where
  "set_failed i msg d =
     (if pg_text msg then update_job i (\<lambda>j. j\<lparr>j_status := Failed, j_error := Some msg\<rparr>) d
      else (Inl Constraint, d))"

definition set_completed :: "uuid \<Rightarrow> byte list \<Rightarrow> db \<Rightarrow> (pg_error + unit) \<times> db" where
  "set_completed i wav d =
     (if pg_bytea wav then update_job i (\<lambda>j. j\<lparr>j_status := Completed, j_audio := Some wav\<rparr>) d
      else (Inl Constraint, d))"

definition select_job :: "uuid \<Rightarrow> uuid \<Rightarrow> db \<Rightarrow> (pg_error + job_row) \<times> db" where
  "select_job i uid d =
     (case tts_jobs d i of
        Some j \<Rightarrow> (if j_user j = uid then Inr j else Inl NoRows, d)
      | None \<Rightarrow> (Inl NoRows, d))"

section \<open>What both transports share\<close>

record vars =
  v_budget :: float64
  v_audioSeconds :: float64
  v_first :: bool
  v_coal :: Coalescer

definition first_chunk :: "string \<Rightarrow> instant \<Rightarrow> 'a vars_scheme \<Rightarrow> ('v, 'a vars_scheme) io" where
  "first_chunk transport start st =
     (if \<not> v_first st then do {
        d \<leftarrow> since start;
        _ \<leftarrow> observe TTFB [transport] (dur_seconds d);
        ret (st\<lparr>v_first := True\<rparr>)
      } else ret st)"

definition charge :: "AudioChunk \<Rightarrow> WalletSnapshot \<Rightarrow> 'a vars_scheme \<Rightarrow> 'a vars_scheme" where
  "charge c snap st =
     st\<lparr>v_budget := fsub (v_budget st)
         (CostForSeconds (SecondsFromPCM (int (length (Pcm c))) (Grpc.SampleRate c)) (PricePerAudioMinuteUSD snap))\<rparr>"

definition bill :: "'v env \<Rightarrow> string \<Rightarrow> AudioChunk \<Rightarrow> 'a vars_scheme \<Rightarrow> ('v, 'a vars_scheme) io" where
  "bill E transport c st = do {
     (_, coal) \<leftarrow> AddPCM E (v_coal st) (int (length (Pcm c))) (Grpc.SampleRate c);
     _ \<leftarrow> observe Metrics.AudioSeconds [transport]
            (SecondsFromPCM (int (length (Pcm c))) (Grpc.SampleRate c));
     ret (st\<lparr>v_coal := coal\<rparr>)
   }"

text \<open>What follows the copy loop: the final flush and the metrics.\<close>

definition settle ::
  "'v env \<Rightarrow> 'v Server \<Rightarrow> string \<Rightarrow> string \<Rightarrow> uuid \<Rightarrow> instant \<Rightarrow> 'a vars_scheme \<Rightarrow> ('v, Coalescer) io" where
  "settle E sv transport path userID start st = do {
     (_, coal) \<leftarrow> Flush E (v_coal st);
     d \<leftarrow> since start;
     let proc = dur_seconds d;
     _ \<leftarrow> (if flt_less f0 (v_audioSeconds st)
           then observe RTF [transport] (fdiv proc (v_audioSeconds st)) else ret ());
     _ \<leftarrow> observe RequestDuration [path, transport] proc;
     _ \<leftarrow> observeWallet E (Wallets sv) (MetricsWalletPerUser (Cfg sv)) userID;
     ret coal
   }"

definition insufficient_balance :: error where
  "insufficient_balance = Msg ''insufficient balance''"

section \<open>The asynchronous job\<close>

record async_vars = vars +
  v_pcm :: "byte list"

definition async_chunk ::
  "'v env \<Rightarrow> WalletSnapshot \<Rightarrow> instant \<Rightarrow> AudioChunk \<Rightarrow> async_vars \<Rightarrow> ('v, error option \<times> async_vars) io" where
  "async_chunk E snap start c st = do {
     st \<leftarrow> first_chunk ''http_async'' start st;
     let sec = SecondsFromPCM (int (length (Pcm c))) (Grpc.SampleRate c);
     let st = charge c snap st;
     if flt_less (v_budget st) f0 then ret (Some insufficient_balance, st)
     else do {
       let st = st\<lparr>v_audioSeconds := fadd (v_audioSeconds st) sec, v_pcm := v_pcm st @ Pcm c\<rparr>;
       st \<leftarrow> bill E ''http_async'' c st;
       ret (None, st)
     }
   }"

definition async_vars0 :: "'v Server \<Rightarrow> uuid \<Rightarrow> string \<Rightarrow> WalletSnapshot \<Rightarrow> async_vars" where
  "async_vars0 sv userID requestID snap =
     \<lparr>v_budget = BalanceUSD snap, v_audioSeconds = f0, v_first = False,
      v_coal = NewCoalescer userID requestID ''http_async'' (BillingCoalesce (Cfg sv)), v_pcm = []\<rparr>"

definition async_deliver ::
  "'v env \<Rightarrow> 'v Server \<Rightarrow> uuid \<Rightarrow> uuid \<Rightarrow> WalletSnapshot \<Rightarrow> recv list \<Rightarrow> ('v, unit) io" where
  "async_deliver E sv jobID userID snap stream = do {
     start \<leftarrow> now;
     (err, st) \<leftarrow> CopyAudioStream Background stream (async_chunk E snap start) (async_vars0 sv userID jobID snap);
     _ \<leftarrow> settle E sv ''http_async'' ''/v1/tts/async'' userID start st;
     _ \<leftarrow> (case err of
            Some e \<Rightarrow> pg (set_failed jobID (Error E e))
          | None \<Rightarrow> pg (set_completed jobID (WrapWAV (v_pcm st) Audio.SampleRate)));
     ret ()
   }"

definition runAsyncJob ::
  "'v env \<Rightarrow> 'v Server \<Rightarrow> uuid \<Rightarrow> uuid \<Rightarrow> string \<Rightarrow> string \<Rightarrow> WalletSnapshot \<Rightarrow> ('v, unit) io" where
  "runAsyncJob E sv jobID userID txt voice snap = do {
     e \<leftarrow> acquire_slot (Synth sv) Background;
     case e of
       Some _ \<Rightarrow> do { _ \<leftarrow> pg (set_failed jobID ''synthesis capacity exceeded''); ret () }
     | None \<Rightarrow> do {
         finish \<leftarrow> TrackActiveStream;
         _ \<leftarrow> pg (set_running jobID);
         q \<leftarrow> Synthesize (Inference sv) jobID txt voice;
         _ \<leftarrow> (case q of
                Inl err \<Rightarrow> do { _ \<leftarrow> pg (set_failed jobID (Error E err)); ret () }
              | Inr stream \<Rightarrow> async_deliver E sv jobID userID snap stream);
         _ \<leftarrow> finish;
         release_slot (Synth sv)
       }
   }"

definition voice_of :: "TTSRequest \<Rightarrow> string" where
  "voice_of req = (case tr_Voice req of Some v \<Rightarrow> v | None \<Rightarrow> ''tara'')"

definition CreateAsyncTTS :: "'v env \<Rightarrow> 'v Server \<Rightarrow> 'v handler" where
  "CreateAsyncTTS E sv r = with_user r (\<lambda>u. do {
     a \<leftarrow> admit E sv (ID u);
     case a of
       Inl resp \<Rightarrow> ret resp
     | Inr snap \<Rightarrow>
         (case unmarshal TTSRequest_step TTSRequest0 (rq_body r) of
            None \<Rightarrow> ret (http_error ''bad request'' 400)
          | Some req \<Rightarrow> do {
              i \<leftarrow> new_uuid;
              q \<leftarrow> pg (insert_job i (ID u) (tr_Text req) (voice_of req));
              case q of
                Inl err \<Rightarrow> ret (http_error ''error'' 500)
              | Inr jobID \<Rightarrow> do {
                  _ \<leftarrow> emit (Go_async jobID (ID u) (tr_Text req) (voice_of req)
                              (BalanceUSD snap) (PricePerAudioMinuteUSD snap));
                  ret (writeJSON 202 (enc_AsyncJobResponse \<lparr>aj_JobId = Some jobID\<rparr>))
                }
            })
   })"

definition GetAsyncJob :: "uuid \<Rightarrow> 'v handler" where
  "GetAsyncJob jobId r = with_user r (\<lambda>u. do {
     q \<leftarrow> pg (select_job jobId (ID u));
     ret (case q of
            Inl err \<Rightarrow> http_error ''not found'' 404
          | Inr j \<Rightarrow> writeJSON 200 (enc_AsyncJobStatusResponse
              \<lparr>js_Error = j_error j, js_JobId = Some jobId, js_Status = Some (status_text (j_status j))\<rparr>))
   })"

definition GetAsyncJobAudio :: "uuid \<Rightarrow> 'v handler" where
  "GetAsyncJobAudio jobId r = with_user r (\<lambda>u. do {
     q \<leftarrow> pg (select_job jobId (ID u));
     ret (case q of
            Inl err \<Rightarrow> http_error ''not found'' 404
          | Inr j \<Rightarrow>
              let data = (case j_audio j of None \<Rightarrow> [] | Some b \<Rightarrow> b)
              in if status_text (j_status j) \<noteq> ''completed'' \<or> data = [] then http_error ''not found'' 404
                 else \<lparr>rs_code = 200, rs_header = [(''Content-Type'', ''audio/wav'')], rs_body = Bytes data\<rparr>)
   })"

section \<open>The HTTP stream\<close>

record stream_vars = vars +
  v_snap :: WalletSnapshot
  v_lastRefresh :: instant

definition refresh_due ::
  "'v env \<Rightarrow> 'v Server \<Rightarrow> uuid \<Rightarrow> stream_vars \<Rightarrow> ('v, stream_vars) io" where
  "refresh_due E sv userID st = do {
     d \<leftarrow> since (v_lastRefresh st);
     if DeliveryRefreshStream (Cfg sv) \<le> d then do {
       q \<leftarrow> Refresh E (Wallets sv) userID;
       let snap = (case q of Inl _ \<Rightarrow> snap0 | Inr w \<Rightarrow> w);
       t \<leftarrow> now;
       let st = st\<lparr>v_budget := BalanceUSD snap, v_snap := snap, v_lastRefresh := t\<rparr>;
       _ \<leftarrow> observeWallet E (Wallets sv) (MetricsWalletPerUser (Cfg sv)) userID;
       ret st
     } else ret st
   }"

definition write_chunk :: "bool \<Rightarrow> byte list \<Rightarrow> ('v, error option) io" where
  "write_chunk flusher pcm = do {
     n \<leftarrow> draw;
     _ \<leftarrow> emit (Body_chunk pcm (n = 0));
     if n \<noteq> 0 then ret (Some WriteError)
     else do { _ \<leftarrow> (if flusher then emit Flushed else ret ()); ret None }
   }"

definition stream_chunk ::
  "'v env \<Rightarrow> 'v Server \<Rightarrow> uuid \<Rightarrow> bool \<Rightarrow> instant \<Rightarrow> AudioChunk \<Rightarrow> stream_vars \<Rightarrow> ('v, error option \<times> stream_vars) io" where
  "stream_chunk E sv userID flusher start c st = do {
     st \<leftarrow> first_chunk ''http_stream'' start st;
     let sec = SecondsFromPCM (int (length (Pcm c))) (Grpc.SampleRate c);
     let st = charge c (v_snap st) st;
     if flt_le (v_budget st) f0 then ret (Some insufficient_balance, st)
     else do {
       let st = st\<lparr>v_audioSeconds := fadd (v_audioSeconds st) sec\<rparr>;
       e \<leftarrow> write_chunk flusher (Pcm c);
       case e of
         Some err \<Rightarrow> ret (Some err, st)
       | None \<Rightarrow> do {
           st \<leftarrow> bill E ''http_stream'' c st;
           st \<leftarrow> refresh_due E sv userID st;
           ret (None, st)
         }
     }
   }"

definition stream_vars0 :: "'v Server \<Rightarrow> uuid \<Rightarrow> string \<Rightarrow> WalletSnapshot \<Rightarrow> instant \<Rightarrow> stream_vars" where
  "stream_vars0 sv userID requestID snap t =
     \<lparr>v_budget = BalanceUSD snap, v_audioSeconds = f0, v_first = False,
      v_coal = NewCoalescer userID requestID ''http_stream'' (BillingCoalesce (Cfg sv)),
      v_snap = snap, v_lastRefresh = t\<rparr>"

definition streamed :: response where
  "streamed = \<lparr>rs_code = 200,
     rs_header = [(''Content-Type'', ''application/octet-stream''), (''Transfer-Encoding'', ''chunked'')],
     rs_body = Streamed\<rparr>"

definition stream_deliver ::
  "'v env \<Rightarrow> 'v Server \<Rightarrow> uuid \<Rightarrow> bool \<Rightarrow> string \<Rightarrow> WalletSnapshot \<Rightarrow> recv list \<Rightarrow> ('v, unit) io" where
  "stream_deliver E sv userID flusher requestID snap stream = do {
     start \<leftarrow> now;
     t \<leftarrow> now;
     (_, st) \<leftarrow> CopyAudioStream Request stream (stream_chunk E sv userID flusher start)
                   (stream_vars0 sv userID requestID snap t);
     _ \<leftarrow> settle E sv ''http_stream'' ''/v1/tts/stream'' userID start st;
     ret ()
   }"

definition StreamTTS :: "'v env \<Rightarrow> 'v Server \<Rightarrow> 'v handler" where
  "StreamTTS E sv r = with_user r (\<lambda>u. do {
     a \<leftarrow> admit E sv (ID u);
     case a of
       Inl resp \<Rightarrow> ret resp
     | Inr snap \<Rightarrow>
         (case unmarshal TTSRequest_step TTSRequest0 (rq_body r) of
            None \<Rightarrow> ret (http_error ''bad request'' 400)
          | Some req \<Rightarrow> do {
              full \<leftarrow> acquireSynthesis sv;
              case full of
                Some resp \<Rightarrow> ret resp
              | None \<Rightarrow> do {
                  finish \<leftarrow> TrackActiveStream;
                  requestID \<leftarrow> new_uuid;
                  q \<leftarrow> Synthesize (Inference sv) requestID (tr_Text req) (voice_of req);
                  resp \<leftarrow> (case q of
                      Inl err \<Rightarrow> ret (http_error (Error E err) 502)
                    | Inr stream \<Rightarrow> do {
                        _ \<leftarrow> stream_deliver E sv (ID u) (rq_flusher r) requestID snap stream;
                        ret streamed
                      });
                  _ \<leftarrow> finish;
                  _ \<leftarrow> release_slot (Synth sv);
                  ret resp
                }
            })
   })"

end
