(* ===== verification/Accounting.thy ===== *)
theory Accounting
  imports Synthesis
begin

text \<open>
  The steps of a synthesis: which effects each may have, that what is added to the coalescer is what
  was delivered, and how the budget runs down.  From them and the invariant rule of the copy loop the
  whole delivery of a stream is accounted for.
\<close>

section \<open>The effects of the steps\<close>

definition quiet :: "effect \<Rightarrow> bool" where
  "quiet e = (case e of Observed _ _ _ \<Rightarrow> True | Wallet_gauge _ _ \<Rightarrow> True | L2_miss \<Rightarrow> True | _ \<Rightarrow> False)"

definition bills :: "effect \<Rightarrow> bool" where
  "bills e \<longleftrightarrow> quiet e \<or> is_published e"

lemma quiet_simps [simp]:
  "quiet (Observed i l v)" "quiet (Wallet_gauge u v)" "quiet L2_miss" "\<not> quiet (Published a b c)"
  by (simp_all add: quiet_def)

lemma bills_simps [simp]:
  "bills (Observed i l v)" "bills (Wallet_gauge u v)" "bills L2_miss" "bills (Published a b c)"
  by (simp_all add: bills_def is_published_def)

lemma quiet_bills: "quiet e \<Longrightarrow> bills e"
  by (simp add: bills_def)

text \<open>One preservation lemma per operation, for the output, the tables and the clock.\<close>

lemma emits_loadL2OrDB: "emits quiet (loadL2OrDB E c u)"
  by (rule emitsI) (simp only: loadL2OrDB_def loadDB_def, (intro keeps_intros; simp))

lemma emits_Get: "emits quiet (Get E c u)"
  by (rule emitsI) (simp only: Get_def group_get_def getter_def,
      (intro keeps_intros emits_keeps [OF emits_loadL2OrDB]; simp))

lemma emits_Refresh: "emits quiet (Refresh E c u)"
  by (rule emitsI) (simp only: Refresh_def Invalidate_def,
      (intro keeps_intros emits_keeps [OF emits_loadL2OrDB]; simp))

lemma emits_observeWallet: "emits quiet (observeWallet E c b u)"
  by (rule emitsI) (simp only: observeWallet_def ObserveWalletBalance_def,
      (intro keeps_intros emits_keeps [OF emits_Get]; simp))

lemma emits_Publish: "emits is_published (Publish E e)"
  by (rule emitsI) (simp only: Publish_def, (intro keeps_intros; simp add: is_published_def))

lemma emits_flushLocked: "emits is_published (flushLocked E c w)"
  by (rule emitsI) (simp only: flushLocked_def NewEvent_def,
      (intro keeps_intros emits_keeps [OF emits_Publish]; simp))

lemma emits_AddPCM: "emits is_published (AddPCM E c b r)"
  by (rule emitsI) (simp only: AddPCM_def, (intro keeps_intros emits_keeps [OF emits_flushLocked]; simp))

lemma emits_Flush: "emits is_published (Flush E c)"
  by (rule emitsI) (simp only: Flush_def, (intro keeps_intros emits_keeps [OF emits_flushLocked]; simp))

lemmas emits_published = emits_AddPCM emits_Flush

lemma emits_bills: "emits bills (AddPCM E c b r)" "emits bills (Flush E c)"
  "emits bills (observeWallet E w m u)" "emits bills (Refresh E w u)"
  by (rule emits_mono, rule emits_published emits_observeWallet emits_Refresh, simp add: bills_def)+

lemma emits_first_chunk: "emits quiet (first_chunk tr start st)"
  by (rule emitsI) (simp only: first_chunk_def observe_def, (intro keeps_intros; simp))

lemma emits_bill: "emits bills (bill E tr c st)"
  by (rule emitsI) (simp only: bill_def observe_def, (intro keeps_intros emits_keeps [OF emits_bills(1)]; simp))

lemma emits_refresh_due: "emits quiet (refresh_due E sv u st)"
  by (rule emitsI) (simp only: refresh_due_def,
      (intro keeps_intros emits_keeps [OF emits_Refresh] emits_keeps [OF emits_observeWallet]; simp))

lemma emits_settle: "emits bills (settle E sv tr path u start st)"
  by (rule emitsI) (simp only: settle_def observe_def,
      (intro keeps_intros emits_keeps [OF emits_bills(2)] emits_keeps [OF emits_bills(3)]; simp))

lemma emits_admit: "emits quiet (admit E sv u)"
  by (rule emitsI) (simp only: admit_def HasBalance_def,
      (intro keeps_intros emits_keeps [OF emits_Get] emits_keeps [OF emits_observeWallet]; simp))

lemma db_kept [keeps_intros]:
  "keeps (\<lambda>s. I (w_db s)) (loadL2OrDB E c u)" "keeps (\<lambda>s. I (w_db s)) (Get E c u)"
  "keeps (\<lambda>s. I (w_db s)) (Refresh E c u)" "keeps (\<lambda>s. I (w_db s)) (observeWallet E c b u)"
  "keeps (\<lambda>s. I (w_db s)) (Publish E e)" "keeps (\<lambda>s. I (w_db s)) (flushLocked E co w)"
  "keeps (\<lambda>s. I (w_db s)) (AddPCM E co x y)" "keeps (\<lambda>s. I (w_db s)) (Flush E co)"
  "keeps (\<lambda>s. I (w_db s)) (first_chunk tr start st)" "keeps (\<lambda>s. I (w_db s)) (bill E tr ch st)"
  "keeps (\<lambda>s. I (w_db s)) (refresh_due E sv u st')" "keeps (\<lambda>s. I (w_db s)) (settle E sv tr path u start st)"
  "keeps (\<lambda>s. I (w_db s)) (admit E sv u)"
  unfolding settle_def bill_def refresh_due_def first_chunk_def admit_def HasBalance_def Refresh_def Invalidate_def
    observeWallet_def Get_def group_get_def getter_def loadL2OrDB_def loadDB_def ObserveWalletBalance_def
    observe_def AddPCM_def Flush_def flushLocked_def NewEvent_def Publish_def
  by (intro keeps_intros; simp)+

section \<open>Billing follows delivery\<close>

text \<open>The chunks that reached the client, in order.\<close>

definition chunk_of :: "effect \<Rightarrow> byte list list" where
  "chunk_of e =
     (case e of Body_chunk p ok \<Rightarrow> if ok then [p] else [] | Ws_binary p ok \<Rightarrow> if ok then [p] else [] | _ \<Rightarrow> [])"

definition delivered :: "effect list \<Rightarrow> byte list list" where
  "delivered es = concat (map chunk_of es)"

definition served :: "effect \<Rightarrow> bool" where
  "served e = (case e of Body_chunk _ _ \<Rightarrow> True | Flushed \<Rightarrow> True | _ \<Rightarrow> bills e)"

definition secs :: "AudioChunk \<Rightarrow> float64 list" where
  "secs c = added (int (length (Pcm c))) (Grpc.SampleRate c)"

text \<open>Effects that neither deliver nor bill.\<close>

definition silent :: "effect \<Rightarrow> bool" where
  "silent e \<longleftrightarrow> chunk_of e = [] \<and> \<not> is_published e"

lemma silent_all:
  "list_all silent es \<Longrightarrow> delivered es = []" "list_all silent es \<Longrightarrow> filter is_published es = []"
  by (induction es; auto simp: delivered_def silent_def)+

lemma quiet_silent: "quiet e \<Longrightarrow> silent e"
  by (cases e) (auto simp: silent_def chunk_of_def is_published_def quiet_def)

lemma delivered_simps [simp]:
  "delivered [] = []" "delivered (es @ es') = delivered es @ delivered es'"
  "delivered [Body_chunk p b] = (if b then [p] else [])" "delivered [Flushed] = []"
  "delivered (Body_chunk p b # es) = (if b then [p] else []) @ delivered es"
  "delivered (Flushed # es) = delivered es"
  by (simp_all add: delivered_def chunk_of_def)

lemma delivered_bills: "list_all bills es \<Longrightarrow> delivered es = []"
  by (induction es) (auto simp: delivered_def chunk_of_def bills_def quiet_def is_published_def split: effect.splits)

lemma quiet_all:
  "list_all quiet es \<Longrightarrow> delivered es = []" "list_all quiet es \<Longrightarrow> filter is_published es = []"
  "list_all quiet es \<Longrightarrow> list_all served es"
  by (induction es; auto simp: delivered_def chunk_of_def served_def bills_def quiet_def is_published_def split: effect.splits)+

lemma published_all:
  "list_all is_published es \<Longrightarrow> delivered es = []" "list_all is_published es \<Longrightarrow> filter is_published es = es"
  "list_all is_published es \<Longrightarrow> list_all served es"
  by (induction es; auto simp: delivered_def chunk_of_def served_def bills_def is_published_def split: effect.splits)+

text \<open>
  \<open>accounted E T c0 old ds cs coal s\<close>: since the output \<open>old\<close> the chunks \<open>ds\<close> were written to the
  client, and the seconds of \<open>cs\<close>, no more and no less, are in the coalescer's open window or were
  flushed, at clock readings in \<open>T\<close>, as are those to come.
\<close>

definition accounted ::
  "'v env \<Rightarrow> instant set \<Rightarrow> Coalescer \<Rightarrow> effect list \<Rightarrow> AudioChunk list \<Rightarrow> AudioChunk list \<Rightarrow> Coalescer \<Rightarrow> 'v world \<Rightarrow> bool" where
  "accounted E T c0 old ds cs coal s \<longleftrightarrow> clk_in T s \<and>
     (\<exists>es. w_out s = old @ es \<and> delivered es = map Pcm ds \<and>
        billed E T c0 coal (concat (map secs cs)) (filter is_published es))"

lemma accounted_start:
  "coal_fresh c \<Longrightarrow> w_out s = old \<Longrightarrow> clk_in T s \<Longrightarrow> accounted E T c old [] [] c s"
  unfolding accounted_def using coal.start [of c] by (intro conjI exI [of _ "[]"]) simp_all

lemma accounted_silent:
  assumes "accounted E T c0 old ds cs coal s" and "emits silent m"
  shows "accounted E T c0 old ds cs coal (after m s)"
proof -
  from assms(1) obtain es where es: "w_out s = old @ es" "delivered es = map Pcm ds"
    "billed E T c0 coal (concat (map secs cs)) (filter is_published es)" unfolding accounted_def by blast
  from assms(2) obtain qs where qs: "w_out (after m s) = w_out s @ qs" "list_all silent qs" by (rule emitsD)
  have "clk_in T (after m s)"
    using assms(1) keepsD [OF emits_clk [OF assms(2)]] unfolding accounted_def by blast
  then show ?thesis unfolding accounted_def
    using es qs silent_all [OF qs(2)] by (intro conjI exI [of _ "es @ qs"]) simp_all
qed

lemmas accounted_quiet = accounted_silent [OF _ emits_mono [OF _ quiet_silent]]

lemma accounted_out:
  "accounted E T c0 old ds cs coal s \<Longrightarrow> w_out s' = w_out s \<Longrightarrow> w_clk s' = w_clk s \<Longrightarrow> accounted E T c0 old ds cs coal s'"
  by (simp add: accounted_def clk_in_def)

lemma pubs_eq: "pubs s = filter is_published (w_out s)"
  by (simp add: pubs_def)

lemma accounted_AddPCM:
  assumes inv: "accounted E T c0 old ds cs coal s"
    and clk: "clk_in T s'" and out: "w_out s' = w_out s @ ws" and ws: "filter is_published ws = []"
      "delivered ws = map Pcm ds'"
  shows "accounted E T c0 old (ds @ ds') (cs @ [c])
    (snd (result (AddPCM E coal (int (length (Pcm c))) (Grpc.SampleRate c)) s'))
    (after (AddPCM E coal (int (length (Pcm c))) (Grpc.SampleRate c)) s')"
proof -
  let ?m = "AddPCM E coal (int (length (Pcm c))) (Grpc.SampleRate c)"
  from inv obtain es where es: "w_out s = old @ es" "delivered es = map Pcm ds"
    "billed E T c0 coal (concat (map secs cs)) (filter is_published es)" unfolding accounted_def by blast
  have "pubs s' = filter is_published old @ filter is_published es"
    using out es(1) ws(1) by (simp add: pubs_eq)
  from billed_AddPCM [OF es(3) this clk, of "int (length (Pcm c))" "Grpc.SampleRate c"] obtain ps where
    ps: "pubs (after ?m s') = filter is_published old @ ps"
      "billed E T c0 (snd (result ?m s')) (concat (map secs (cs @ [c]))) ps" by (auto simp: secs_def)
  obtain qs where qs: "w_out (after ?m s') = w_out s' @ qs" "list_all is_published qs"
    using emits_AddPCM [of E coal "int (length (Pcm c))" "Grpc.SampleRate c"] by (rule emitsD)
  have "ps = filter is_published (es @ ws @ qs)" using ps(1) qs out es(1) by (simp add: pubs_eq)
  moreover have "clk_in T (after ?m s')" by (rule keepsD [OF clk_billing(3) clk])
  ultimately show ?thesis unfolding accounted_def
    using es qs out ws published_all [OF qs(2)] ps(2) by (intro conjI exI [of _ "es @ ws @ qs"]) auto
qed

lemma first_chunk_vars [simp]:
  "v_budget (result (first_chunk tr start st) s) = v_budget st"
  "v_audioSeconds (result (first_chunk tr start st) s) = v_audioSeconds st"
  "v_coal (result (first_chunk tr start st) s) = v_coal st"
  "v_snap (result (first_chunk tr start st1) s) = v_snap st1"
  "v_lastRefresh (result (first_chunk tr start st1) s) = v_lastRefresh st1"
  "v_pcm (result (first_chunk tr start st2) s) = v_pcm st2"
  by (simp_all add: first_chunk_def)

lemma charge_vars [simp]:
  "v_audioSeconds (charge c snap st) = v_audioSeconds st" "v_coal (charge c snap st) = v_coal st"
  "v_snap (charge c snap st1) = v_snap st1" "v_lastRefresh (charge c snap st1) = v_lastRefresh st1"
  "v_pcm (charge c snap st2) = v_pcm st2"
  by (simp_all add: charge_def)

lemma refresh_due_coal [simp]: "v_coal (result (refresh_due E sv u st) s) = v_coal st"
  by (simp add: refresh_due_def Let_def)

lemma bill_result:
  "result (bill E tr c st) s = st\<lparr>v_coal := snd (result (AddPCM E (v_coal st) (int (length (Pcm c))) (Grpc.SampleRate c)) s)\<rparr>"
  by (simp add: bill_def split_beta)

lemma bill_after:
  "after (bill E tr c st) s =
     after (observe Metrics.AudioSeconds [tr] (SecondsFromPCM (int (length (Pcm c))) (Grpc.SampleRate c)))
       (after (AddPCM E (v_coal st) (int (length (Pcm c))) (Grpc.SampleRate c)) s)"
  by (simp add: bill_def split_beta)

lemma emits_observe: "emits quiet (observe i l v)"
  by (rule emitsI) (simp only: observe_def, (intro keeps_intros; simp))

text \<open>A chunk whose write fails is neither delivered nor billed; one that is written is billed.\<close>

lemma write_chunk_runs:
  "result (write_chunk fl pcm) s = (if w_orc s 0 = 0 then None else Some WriteError)"
  "w_out (after (write_chunk fl pcm) s) =
     w_out s @ (if w_orc s 0 = 0 then Body_chunk pcm True # (if fl then [Flushed] else []) else [Body_chunk pcm False])"
  by (simp_all add: write_chunk_def)

lemma clk_write_chunk [keeps_intros]: "keeps (clk_in T) (write_chunk fl pcm)"
  unfolding write_chunk_def by (intro keeps_intros)

lemma accounted_unwritten:
  assumes "accounted E T c0 old cs ds coal s" and "result (write_chunk fl pcm) s = Some e"
  shows "accounted E T c0 old cs ds coal (after (write_chunk fl pcm) s)"
proof -
  from assms(1) obtain es where "w_out s = old @ es" "delivered es = map Pcm cs"
    "billed E T c0 coal (concat (map secs ds)) (filter is_published es)" unfolding accounted_def by blast
  moreover have "clk_in T (after (write_chunk fl pcm) s)"
    using assms(1) keepsD [OF clk_write_chunk] unfolding accounted_def by blast
  ultimately show ?thesis unfolding accounted_def using assms(2)
    by (intro conjI exI [of _ "es @ [Body_chunk pcm False]"]) (auto simp: write_chunk_runs served_def is_published_def split: if_splits)
qed

lemma accounted_written:
  assumes "accounted E T c0 old cs cs (v_coal st) s" and "result (write_chunk fl (Pcm c)) s = None"
  shows "accounted E T c0 old (cs @ [c]) (cs @ [c])
    (v_coal (result (bill E tr c st) (after (write_chunk fl (Pcm c)) s))) (after (bill E tr c st) (after (write_chunk fl (Pcm c)) s))"
proof -
  let ?es = "Body_chunk (Pcm c) True # (if fl then [Flushed] else [])"
  have w: "w_out (after (write_chunk fl (Pcm c)) s) = w_out s @ ?es"
    using assms(2) by (simp add: write_chunk_runs split: if_splits)
  have es: "filter is_published ?es = []" "delivered ?es = map Pcm [c]"
    by (simp_all add: served_def is_published_def)
  have "clk_in T (after (write_chunk fl (Pcm c)) s)"
    using assms(1) keepsD [OF clk_write_chunk] unfolding accounted_def by blast
  from accounted_quiet [OF accounted_AddPCM [OF assms(1) this w es] emits_observe] show ?thesis
    unfolding bill_result bill_after by simp
qed

text \<open>One chunk of the stream: handed over and billed, or neither.\<close>

lemma accounted_stream_chunk:
  fixes s :: "'v world"
  assumes inv: "accounted E T c0 old cs cs (v_coal st) s"
  shows "case fst (result (stream_chunk E sv u fl start c st) s) of
      None \<Rightarrow> accounted E T c0 old (cs @ [c]) (cs @ [c]) (v_coal (snd (result (stream_chunk E sv u fl start c st) s)))
                (after (stream_chunk E sv u fl start c st) s)
    | Some e \<Rightarrow> accounted E T c0 old cs cs (v_coal (snd (result (stream_chunk E sv u fl start c st) s)))
                (after (stream_chunk E sv u fl start c st) s)"
proof -
  define m1 :: "('v, stream_vars) io" where "m1 = first_chunk ''http_stream'' start st"
  define st1 where "st1 = charge c (v_snap (result m1 s)) (result m1 s)"
  define st2 where "st2 = st1\<lparr>v_audioSeconds := fadd (v_audioSeconds st1) (SecondsFromPCM (int (length (Pcm c))) (Grpc.SampleRate c))\<rparr>"
  define s1 where "s1 = after m1 s"
  define s2 where "s2 = after (write_chunk fl (Pcm c)) s1"
  have i1: "accounted E T c0 old cs cs (v_coal st) s1"
    unfolding s1_def m1_def by (rule accounted_quiet [OF inv emits_first_chunk])
  have coal: "v_coal st1 = v_coal st" "v_coal st2 = v_coal st" by (simp_all add: st2_def st1_def m1_def)
  have run: "result (stream_chunk E sv u fl start c st) s =
      (if flt_le (v_budget st1) f0 then (Some insufficient_balance, st1)
       else case result (write_chunk fl (Pcm c)) s1 of
         Some err \<Rightarrow> (Some err, st2)
       | None \<Rightarrow> (None, result (refresh_due E sv u (result (bill E ''http_stream'' c st2) s2))
                          (after (bill E ''http_stream'' c st2) s2)))"
    "after (stream_chunk E sv u fl start c st) s =
      (if flt_le (v_budget st1) f0 then s1
       else case result (write_chunk fl (Pcm c)) s1 of
         Some err \<Rightarrow> s2
       | None \<Rightarrow> after (refresh_due E sv u (result (bill E ''http_stream'' c st2) s2))
                          (after (bill E ''http_stream'' c st2) s2))"
    by (simp_all add: stream_chunk_def Let_def m1_def st1_def st2_def s1_def s2_def split: option.splits)
  show ?thesis
  proof (cases "result (write_chunk fl (Pcm c)) s1")
    case None
    have "accounted E T c0 old cs cs (v_coal st2) s1" using i1 coal by simp
    from accounted_quiet [OF accounted_written [OF this None] emits_refresh_due] show ?thesis
      using i1 coal None by (simp add: run s2_def)
  next
    case (Some e)
    then show ?thesis using accounted_unwritten [OF i1 Some] i1 coal by (simp add: run s2_def)
  qed
qed

text \<open>
  The whole stream, with any further invariant \<open>Q\<close> of the captured variables that a delivered chunk
  keeps.
\<close>

lemma accounted_copy:
  assumes "accounted E T c0 old [] [] (v_coal st) s" and "Q [] st s"
    and step: "\<And>cs c st s. set (cs @ [c]) \<subseteq> set (chunks_of stream) \<Longrightarrow> Q cs st s \<Longrightarrow>
      fst (result (stream_chunk E sv u fl start c st) s) = None \<Longrightarrow>
      Q (cs @ [c]) (snd (result (stream_chunk E sv u fl start c st) s)) (after (stream_chunk E sv u fl start c st) s)"
    and ctx: "\<And>cs st s. Q cs st s \<Longrightarrow> Q cs st (after (ctx_done ctx) s)"
  shows "\<exists>cs rest. chunks_of stream = cs @ rest \<and> (\<exists>st' s'. Q cs st' s') \<and>
    accounted E T c0 old cs cs (v_coal (snd (result (CopyAudioStream ctx stream (stream_chunk E sv u fl start) st) s)))
      (after (CopyAudioStream ctx stream (stream_chunk E sv u fl start) st) s)"
proof -
  let ?A = "\<lambda>cs st s. accounted E T c0 old cs cs (v_coal (st :: stream_vars)) s"
  let ?I = "\<lambda>cs st s. ?A cs st s \<and> Q cs st s"
  let ?J = "\<lambda>cs (c :: AudioChunk) (e :: error) st s. ?A cs st s \<and> (\<exists>st' s'. Q cs st' s')"
  have "\<exists>cs. copied ?I ?J stream [] cs
      (fst (result (CopyAudioStream ctx stream (stream_chunk E sv u fl start) st) s))
      (snd (result (CopyAudioStream ctx stream (stream_chunk E sv u fl start) st) s))
      (after (CopyAudioStream ctx stream (stream_chunk E sv u fl start) st) s)"
  proof (rule CopyAudioStream_copied [where S = "set (chunks_of stream)"])
    show "?I cs st s \<Longrightarrow> ?I cs st (after (ctx_done ctx) s)" for cs st s
      using ctx accounted_out by (metis ctx_done_frame)
    show "case fst (result (stream_chunk E sv u fl start c st) s) of
        None \<Rightarrow> ?I (cs @ [c]) (snd (result (stream_chunk E sv u fl start c st) s)) (after (stream_chunk E sv u fl start c st) s)
      | Some e \<Rightarrow> ?J cs c e (snd (result (stream_chunk E sv u fl start c st) s)) (after (stream_chunk E sv u fl start c st) s)"
      if "set (cs @ [c]) \<subseteq> set (chunks_of stream)" "?I cs st s" for cs c st s
      using accounted_stream_chunk [OF conjunct1 [OF that(2)], where sv = sv and u = u and fl = fl and start = start and c = c]
        step [OF that(1) conjunct2 [OF that(2)]] that(2)
      by (cases "fst (result (stream_chunk E sv u fl start c st) s)") auto
  qed (use assms(1,2) in simp_all)
  then show ?thesis unfolding copied_def by auto
qed

lemma accounted_Flush:
  assumes "accounted E T c0 old ds cs coal s"
  shows "accounted E T c0 old ds cs (snd (result (Flush E coal) s)) (after (Flush E coal) s)
    \<and> coal_settled (snd (result (Flush E coal) s))"
proof -
  let ?fl = "Flush E coal"
  from assms obtain es where es: "w_out s = old @ es" "delivered es = map Pcm ds"
    "billed E T c0 coal (concat (map secs cs)) (filter is_published es)" unfolding accounted_def by blast
  have clk: "clk_in T s" using assms by (simp add: accounted_def)
  have "pubs s = filter is_published old @ filter is_published es" using es(1) by (simp add: pubs_eq)
  from coal.flush_ok [OF es(3) this clk] obtain ps where
    ps: "pubs (after ?fl s) = filter is_published old @ ps" "billed E T c0 (snd (result ?fl s)) (concat (map secs cs)) ps"
      "coal_settled (snd (result ?fl s))" by blast
  obtain qs where qs: "w_out (after ?fl s) = w_out s @ qs" "list_all is_published qs"
    using emits_published(2) [of E coal] by (rule emitsD)
  have "ps = filter is_published (es @ qs)" using ps(1) qs es(1) by (simp add: pubs_eq)
  then have "accounted E T c0 old ds cs (snd (result ?fl s)) (after ?fl s)"
    unfolding accounted_def using es qs published_all [OF qs(2)] ps(2) keepsD [OF clk_billing(4) clk]
    by (intro conjI exI [of _ "es @ qs"]) simp_all
  then show ?thesis using ps(3) by blast
qed

lemma accounted_settle:
  assumes "accounted E T c0 old ds cs (v_coal st) s"
  shows "accounted E T c0 old ds cs (result (settle E sv tr path u start st) s) (after (settle E sv tr path u start st) s)
    \<and> coal_settled (result (settle E sv tr path u start st) s)"
proof -
  let ?fl = "Flush E (v_coal st)"
  note a = accounted_Flush [OF assms]
  define rest where "rest = (\<lambda>coal. do {
     d \<leftarrow> since start;
     let proc = dur_seconds d;
     _ \<leftarrow> (if flt_less f0 (v_audioSeconds st)
           then observe RTF [tr] (fdiv proc (v_audioSeconds st)) else ret ());
     _ \<leftarrow> observe RequestDuration [path, tr] proc;
     _ \<leftarrow> observeWallet E (Wallets sv) (MetricsWalletPerUser (Cfg sv)) u;
     ret (coal :: Coalescer)
   })"
  have q: "emits quiet (rest coal)" for coal
    unfolding rest_def by (rule emitsI) (intro keeps_intros emits_keeps [OF emits_observeWallet] emits_keeps [OF emits_observe]; simp)
  have "result (settle E sv tr path u start st) s = snd (result ?fl s)"
    "after (settle E sv tr path u start st) s = after (rest (snd (result ?fl s))) (after ?fl s)"
    by (simp_all add: settle_def rest_def split_beta Let_def)
  then show ?thesis using accounted_quiet [OF conjunct1 [OF a] q] a by simp
qed

text \<open>Chunks as gRPC delivers them: a length is an \<open>int\<close>, the sample rate an \<open>int32\<close>.\<close>

definition chunk_ok :: "AudioChunk \<Rightarrow> bool" where
  "chunk_ok c \<longleftrightarrow> in_int64 (int (length (Pcm c))) \<and> in_int64 (Grpc.SampleRate c)"

definition wire_lawful :: "Client \<Rightarrow> bool" where
  "wire_lawful c \<longleftrightarrow>
     (\<forall>rid t v stream. rpc_synthesize c rid t v = Inr stream \<longrightarrow> list_all chunk_ok (chunks_of stream))"

lemma secs_pos: "list_all chunk_ok cs \<Longrightarrow> \<forall>x \<in> set (concat (map secs cs)). flt_less f0 x \<and> is64 x"
proof -
  have "flt_less f0 x \<and> is64 x" if "chunk_ok c" "x \<in> set (secs c)" for c x
    using that not_le_pos [OF SecondsFromPCM_nonneg [of "int (length (Pcm c))" "Grpc.SampleRate c"]]
    by (auto simp: secs_def added_def Let_def chunk_ok_def split: if_splits)
  then show "list_all chunk_ok cs \<Longrightarrow> \<forall>x \<in> set (concat (map secs cs)). flt_less f0 x \<and> is64 x"
    by (auto simp: list_all_iff)
qed

lemma secs_short: "list_all chunk_ok cs \<Longrightarrow> list_all short (concat (map secs cs))"
proof -
  have "short x" if "chunk_ok c" "x \<in> set (secs c)" for c x
    using that by (intro added_short [of "int (length (Pcm c))" "Grpc.SampleRate c"]) (auto simp: chunk_ok_def secs_def)
  then show "list_all chunk_ok cs \<Longrightarrow> ?thesis" by (auto simp: list_all_iff)
qed

text \<open>Settling publishes what is open, so that the groups of seconds published make up the chunks taken.\<close>

lemma settled_segments:
  fixes s :: "'v world"
  assumes "accounted E T c0 old ds cs (v_coal st) s" and "c0 = NewCoalescer cu cr ctr cw"
    and "list_all chunk_ok cs" and "t = after (settle E sv tr path u start st) s"
  obtains es segs where "w_out t = old @ es" and "delivered es = map Pcm ds"
    and "grouped segs (concat (map secs cs))" and "flushed_as E T c0 0 segs (filter is_published es)"
proof -
  note fin = accounted_settle [OF assms(1), where sv = sv and tr = tr and path = path and u = u and start = start]
  from fin obtain es where es: "w_out t = old @ es" "delivered es = map Pcm ds"
    "billed E T c0 (result (settle E sv tr path u start st) s) (concat (map secs cs)) (filter is_published es)"
    unfolding accounted_def assms(4) by auto
  from settled_closed [OF es(3) conjunct2 [OF fin] secs_pos [OF assms(3)]] obtain segs where
    "grouped segs (concat (map secs cs))" "flushed_as E T c0 0 segs (filter is_published es)"
    by (auto simp: assms(2) NewCoalescer_def)
  then show ?thesis using that es(1,2) by blast
qed

lemma stream_deliver_accounts:
  assumes ok: "list_all chunk_ok (chunks_of stream)" and clk: "clk_in T s"
    and Q0: "Q [] (stream_vars0 sv u rid snap (w_clk s 1)) (after now (after now s))"
    and step: "\<And>start cs c st s. set (cs @ [c]) \<subseteq> set (chunks_of stream) \<Longrightarrow> Q cs st s \<Longrightarrow>
      fst (result (stream_chunk E sv u fl start c st) s) = None \<Longrightarrow>
      Q (cs @ [c]) (snd (result (stream_chunk E sv u fl start c st) s)) (after (stream_chunk E sv u fl start c st) s)"
    and ctx: "\<And>cs st s. Q cs st s \<Longrightarrow> Q cs st (after (ctx_done Request) s)"
  shows "\<exists>es cs rest segs. w_out (after (stream_deliver E sv u fl rid snap stream) s) = w_out s @ es \<and>
    chunks_of stream = cs @ rest \<and> delivered es = map Pcm cs \<and>
    (\<exists>st' s'. Q cs st' s') \<and> grouped segs (concat (map secs cs)) \<and>
    flushed_as E T (NewCoalescer u rid ''http_stream'' (BillingCoalesce (Cfg sv))) 0 segs (filter is_published es)"
proof -
  let ?c0 = "NewCoalescer u rid ''http_stream'' (BillingCoalesce (Cfg sv))"
  define s1 where "s1 = after now (after now s)"
  let ?st = "stream_vars0 sv u rid snap (w_clk s 1)"
  let ?copy = "CopyAudioStream Request stream (stream_chunk E sv u fl (w_clk s 0)) ?st"
  let ?settle = "settle E sv ''http_stream'' ''/v1/tts/stream'' u (w_clk s 0)"
  have run: "after (stream_deliver E sv u fl rid snap stream) s =
      after (?settle (snd (result ?copy s1))) (after ?copy s1)"
    by (simp only: stream_deliver_def s1_def split_beta run_simps after_bind result_bind after_now One_nat_def) simp
  have f: "coal_fresh ?c0" by (simp add: coal_fresh_def NewCoalescer_def)
  have coal0: "v_coal ?st = ?c0" by (simp add: stream_vars0_def)
  have "accounted E T ?c0 (w_out s) [] [] (v_coal ?st) s1"
    unfolding coal0 using clk by (intro accounted_start [OF f]) (simp_all add: s1_def clk_in_def)
  from accounted_copy [where Q = Q, OF this Q0 [folded s1_def] step ctx, of stream "w_clk s 0"]
  obtain cs rest where cs: "chunks_of stream = cs @ rest" and q: "\<exists>st' s'. Q cs st' s'"
    and a: "accounted E T ?c0 (w_out s) cs cs (v_coal (snd (result ?copy s1))) (after ?copy s1)" by auto
  have "list_all chunk_ok cs" using ok cs by simp
  from settled_segments [OF a refl this refl, of sv "''http_stream''" "''/v1/tts/stream''" u "w_clk s 0"]
  obtain es segs where "w_out (after (?settle (snd (result ?copy s1))) (after ?copy s1)) = w_out s @ es"
    "delivered es = map Pcm cs" "grouped segs (concat (map secs cs))"
    "flushed_as E T ?c0 0 segs (filter is_published es)" .
  then show ?thesis unfolding run using cs q by blast
qed

section \<open>The budget\<close>

definition chunk_cost :: "float64 \<Rightarrow> AudioChunk \<Rightarrow> float64" where
  "chunk_cost price c = CostForSeconds (SecondsFromPCM (int (length (Pcm c))) (Grpc.SampleRate c)) price"

lemma v_budget_charge [simp]:
  "v_budget (charge c snap st) = fsub (v_budget st) (chunk_cost (PricePerAudioMinuteUSD snap) c)"
  by (simp add: charge_def chunk_cost_def)

lemma seconds_finite:
  assumes "chunk_ok c"
  obtains x where "SecondsFromPCM (int (length (Pcm c))) (Grpc.SampleRate c) = Fin x" and "\<bar>x\<bar> \<le> pow2 63"
  using assms SecondsFromPCM_finite [of "int (length (Pcm c))" "Grpc.SampleRate c"] by (auto simp: chunk_ok_def)

lemma chunk_cost_cases:
  assumes "chunk_ok c" and "0 \<le> p"
  obtains k where "chunk_cost (Fin p) c = Fin k" and "0 \<le> k" | "chunk_cost (Fin p) c = PosInf"
proof -
  obtain x where x: "SecondsFromPCM (int (length (Pcm c))) (Grpc.SampleRate c) = Fin x" "\<bar>x\<bar> \<le> pow2 63"
    using seconds_finite [OF assms(1)] by blast
  have "\<bar>x / 60\<bar> \<le> pow2 63" using x(2) by simp
  from f64_le_63 [OF this] obtain y where y: "f64 (x / 60) = Fin y" by blast
  show thesis
  proof (cases "x \<le> 0")
    case True
    then show thesis using that(1) [of 0] x by (simp add: chunk_cost_def CostForSeconds_def)
  next
    case False
    then have "0 \<le> y" using f64_nonneg [of "x / 60"] y by simp
    then have "flt_le f0 (f64 (y * p))" using assms(2) by (intro f64_nonneg) simp
    moreover have "chunk_cost (Fin p) c = f64 (y * p)"
      using x y False by (simp add: chunk_cost_def CostForSeconds_def)
    ultimately show thesis using that by (cases "f64 (y * p)") simp_all
  qed
qed

text \<open>
  \<open>solvent b p cs bud\<close>: from the balance \<open>b\<close> the costs of the chunks \<open>cs\<close> at price \<open>p\<close> were taken
  one by one, leaving \<open>bud\<close>, which is not negative.
\<close>

definition solvent :: "rat \<Rightarrow> rat \<Rightarrow> AudioChunk list \<Rightarrow> float64 \<Rightarrow> bool" where
  "solvent b p cs bud \<longleftrightarrow>
     (\<exists>ks. map (chunk_cost (Fin p)) cs = map Fin ks \<and> (\<forall>k \<in> set ks. 0 \<le> k) \<and> is64 bud \<and>
        bud = Fin (foldl (\<lambda>b k. rnd 53 (- 1074) (b - k)) b ks) \<and> flt_le f0 bud)"

lemma solvent_start: "is64 (Fin b) \<Longrightarrow> 0 \<le> b \<Longrightarrow> solvent b p [] (Fin b)"
  by (simp add: solvent_def)

lemma solvent_step:
  assumes "solvent b p cs bud" and c: "chunk_ok c" and p: "0 \<le> p"
    and left: "\<not> flt_less (fsub bud (chunk_cost (Fin p) c)) f0"
  shows "solvent b p (cs @ [c]) (fsub bud (chunk_cost (Fin p) c))"
proof -
  from assms(1) obtain ks where ks: "map (chunk_cost (Fin p)) cs = map Fin ks" "\<forall>k \<in> set ks. 0 \<le> k"
    and bud: "is64 bud" "bud = Fin (foldl (\<lambda>b k. rnd 53 (- 1074) (b - k)) b ks)" "flt_le f0 bud"
    unfolding solvent_def by blast
  define x where "x = foldl (\<lambda>b k. rnd 53 (- 1074) (b - k)) b ks"
  obtain k where k: "chunk_cost (Fin p) c = Fin k" "0 \<le> k"
  proof (cases rule: chunk_cost_cases [OF c p])
    case (1 k)
    then show thesis by (rule that)
  next
    case 2
    then show thesis using left bud(2) by (simp add: fsub_def)
  qed
  have f: "fsub bud (chunk_cost (Fin p) c) = f64 (x - k)" using k bud(2) by (simp add: fsub_def x_def)
  have "flt_le (f64 (x - k)) (f64 x)" using k(2) by (intro f64_mono) simp
  then have le: "flt_le (f64 (x - k)) (Fin x)" using bud f64_id [of x] by (simp add: x_def del: is64.simps)
  have "f64 (x - k) = Fin (rnd 53 (- 1074) (x - k))"
    using le left unfolding f by (cases "x - k" rule: f64_cases) simp_all
  moreover from this have "0 \<le> rnd 53 (- 1074) (x - k)" using left by (simp add: f)
  moreover have "is64 (f64 (x - k))" by (rule is64_f64)
  ultimately show ?thesis unfolding solvent_def f using ks k
    by (intro exI [of _ "ks @ [k]"]) (simp add: x_def [symmetric] del: is64.simps)
qed

text \<open>The chunks are paid for, but for one rounding error of the subtraction per chunk.\<close>

definition paid_for :: "rat \<Rightarrow> rat \<Rightarrow> AudioChunk list \<Rightarrow> bool" where
  "paid_for b p cs \<longleftrightarrow>
     (\<exists>ks. map (chunk_cost (Fin p)) cs = map Fin ks \<and>
        sum_list ks \<le> b + of_nat (length cs) * (pow2 (- 53) * b + pow2 (- 1075)))"

lemma solvent_paid:
  assumes "solvent b p cs bud" and "is64 (Fin b)" and "0 \<le> b"
  shows "paid_for b p cs"
proof -
  from assms(1) obtain ks where ks: "map (chunk_cost (Fin p)) cs = map Fin ks" "\<forall>k \<in> set ks. 0 \<le> k"
    and fin: "0 \<le> foldl (\<lambda>b k. rnd 53 (- 1074) (b - k)) b ks" unfolding solvent_def by auto
  have "length ks = length cs" using ks(1) map_eq_imp_length_eq by metis
  moreover have "sum_list ks \<le> b - foldl (\<lambda>b k. rnd 53 (- 1074) (b - k)) b ks +
      of_nat (length ks) * (pow2 (- 53) * b + pow2 (- 1075))"
    using assms(2,3) ks(2) fin by (intro r64.spend_bound) simp_all
  ultimately have "sum_list ks \<le> b + of_nat (length cs) * (pow2 (- 53) * b + pow2 (- 1075))"
    using fin by simp
  then show ?thesis unfolding paid_for_def using ks(1) by blast
qed

end
