(* ===== verification/Delivery.thy ===== *)
theory Delivery
  imports Accounting
begin

text \<open>
  What the synthesis handlers guarantee: the HTTP stream and the asynchronous job bill what they deliver or
  store within the balance, give slots and the gauge back, and keep jobs private.
\<close>

section \<open>The handlers around the delivery\<close>

lemma clk_kept [keeps_intros]:
  "keeps (clk_in T) (loadL2OrDB E c u)" "keeps (clk_in T) (Get E c u)"
  "keeps (clk_in T) (Refresh E c u)" "keeps (clk_in T) (observeWallet E c b u)"
  "keeps (clk_in T) (Publish E e)" "keeps (clk_in T) (flushLocked E co w)"
  "keeps (clk_in T) (AddPCM E co x y)" "keeps (clk_in T) (Flush E co)"
  "keeps (clk_in T) (first_chunk tr start st)" "keeps (clk_in T) (bill E tr ch st)"
  "keeps (clk_in T) (write_chunk fl pcm)" "keeps (clk_in T) (ctx_done ctx)"
  "keeps (clk_in T) (admit E sv u)" "keeps (clk_in T) (acquireSynthesis sv)"
  "keeps (clk_in T) (acquire_slot b ctx)" "keeps (clk_in T) (refresh_due E sv u st1)"
  unfolding refresh_due_def bill_def first_chunk_def admit_def HasBalance_def Refresh_def Invalidate_def write_chunk_def
    observeWallet_def Get_def group_get_def getter_def loadL2OrDB_def loadDB_def ObserveWalletBalance_def
    observe_def AddPCM_def Flush_def flushLocked_def NewEvent_def Publish_def acquireSynthesis_def
    acquire_slot_def ctx_done_def
  by (intro keeps_intros; simp)+

lemma calm_kept [keeps_intros]:
  "keeps calm (loadL2OrDB E c u)" "keeps calm (Get E c u)" "keeps calm (Refresh E c u)"
  "keeps calm (observeWallet E c b u)" "keeps calm (Publish E e)" "keeps calm (flushLocked E co w)"
  "keeps calm (AddPCM E co x y)" "keeps calm (Flush E co)" "keeps calm (first_chunk tr start st)"
  "keeps calm (bill E tr ch st)" "keeps calm (settle E sv tr path u start st)" "keeps calm (admit E sv u)"
  unfolding settle_def bill_def first_chunk_def admit_def HasBalance_def Refresh_def Invalidate_def
    observeWallet_def Get_def group_get_def getter_def loadL2OrDB_def loadDB_def ObserveWalletBalance_def
    observe_def AddPCM_def Flush_def flushLocked_def NewEvent_def Publish_def
  by (intro keeps_intros; simp)+

lemma smooth_kept [keeps_intros]:
  "keeps (smooth old) (loadL2OrDB E c u)" "keeps (smooth old) (Get E c u)" "keeps (smooth old) (Refresh E c u)"
  "keeps (smooth old) (observeWallet E c b u)" "keeps (smooth old) (first_chunk tr start st)"
  "keeps (smooth old) (bill E tr ch st)" "keeps (smooth old) (settle E sv tr path u start st)"
  "keeps (smooth old) (admit E sv u)" "keeps (smooth old) (write_chunk fl pcm)" "keeps (smooth old) (ctx_done ctx)"
  "keeps (smooth old) (refresh_due E sv u st1)" "keeps (smooth old) (acquire_slot b ctx)"
  "keeps (smooth old) (release_slot b)" "keeps (smooth old) (Synthesize cl rid m v)"
  unfolding settle_def bill_def first_chunk_def admit_def HasBalance_def Refresh_def Invalidate_def write_chunk_def
    observeWallet_def Get_def group_get_def getter_def loadL2OrDB_def loadDB_def ObserveWalletBalance_def
    observe_def refresh_due_def acquire_slot_def release_slot_def ctx_done_def Synthesize_def
  by (intro keeps_intros; simp add: is_published_def)+

definition slot_taken :: "'v Server \<Rightarrow> effect list" where
  "slot_taken sv = (if Synth sv then [Slot_taken] else [])"

definition stream_ended :: "'v Server \<Rightarrow> effect list" where
  "stream_ended sv = Gauge_dec # (if Synth sv then [Slot_released] else [])"

lemma admit_refuses: "result (admit E sv u) s = Inl resp \<Longrightarrow> rs_code resp \<in> {402, 500}"
  by (auto simp: admit_def split: sum.splits prod.splits if_splits)

lemma acquireSynthesis_run:
  "result (acquireSynthesis sv) s = Some resp \<Longrightarrow> rs_code resp \<in> {0, 503} \<and> w_out (after (acquireSynthesis sv) s) = w_out s"
  "result (acquireSynthesis sv) s = None \<Longrightarrow> w_out (after (acquireSynthesis sv) s) = w_out s @ slot_taken sv"
  by (auto simp: acquireSynthesis_def acquire_slot_def slot_taken_def split: option.splits if_splits)

lemma StreamTTS_refused:
  assumes u: "rq_user r = Some u"
    and ref: "result (admit E sv (ID u)) s = Inl resp \<or>
      result (admit E sv (ID u)) s = Inr snap \<and>
        (case unmarshal TTSRequest_step TTSRequest0 (rq_body r) of
           None \<Rightarrow> True
         | Some req \<Rightarrow> result (acquireSynthesis sv) (after (admit E sv (ID u)) s) \<noteq> None)"
  shows "rs_code (result (StreamTTS E sv r) s) \<in> {0, 400, 402, 500, 503} \<and>
    (\<exists>es. w_out (after (StreamTTS E sv r) s) = w_out s @ es \<and> list_all quiet es)"
proof -
  obtain es where es: "w_out (after (admit E sv (ID u)) s) = w_out s @ es" "list_all quiet es"
    using emits_admit by (rule emitsD)
  show ?thesis
    using ref es admit_refuses [of E sv "ID u" s resp] acquireSynthesis_run(1) [of sv "after (admit E sv (ID u)) s"]
    by (auto simp: StreamTTS_def with_user_def UserFromContext_def u split: option.splits sum.splits)
qed

text \<open>The run of an admitted request: the slot, the gauge and the call around the delivery.\<close>

lemma StreamTTS_ran:
  fixes s :: "'v world"
  assumes u: "rq_user r = Some u"
    and adm: "result (admit E sv (ID u)) s = Inr snap"
    and req: "unmarshal TTSRequest_step TTSRequest0 (rq_body r) = Some req"
    and acq: "result (acquireSynthesis sv) (after (admit E sv (ID u)) s) = None"
  obtains es rid s3 where "list_all quiet es"
    and "w_out s3 = w_out s @ es @ slot_taken sv @ [Gauge_inc, Rpc_synth rid (tr_Text req) (voice_of req)]"
    and "\<And>T. clk_in T s \<Longrightarrow> clk_in T s3"
    and "case rpc_synthesize (Inference sv) rid (tr_Text req) (voice_of req) of
        Inl err \<Rightarrow> result (StreamTTS E sv r) s = http_error (Error E err) 502 \<and>
          w_out (after (StreamTTS E sv r) s) = w_out s3 @ stream_ended sv
      | Inr stream \<Rightarrow> result (StreamTTS E sv r) s = streamed \<and>
          w_out (after (StreamTTS E sv r) s) =
            w_out (after (stream_deliver E sv (ID u) (rq_flusher r) rid snap stream) s3) @ stream_ended sv"
proof -
  define s1 where "s1 = after (admit E sv (ID u)) s"
  define s2 where "s2 = after (acquireSynthesis sv) s1"
  define rid where "rid = w_ids s2 0"
  define m :: "('v, error + recv list) io" where "m = do {
      finish \<leftarrow> TrackActiveStream; requestID \<leftarrow> new_uuid;
      Synthesize (Inference sv) requestID (tr_Text req) (voice_of req) }"
  define s3 where "s3 = after m s2"
  obtain es where es: "w_out s1 = w_out s @ es" "list_all quiet es"
    unfolding s1_def using emits_admit by (rule emitsD)
  have "w_out s2 = w_out s1 @ slot_taken sv"
    unfolding s2_def using acquireSynthesis_run(2) acq s1_def by blast
  then have o3: "w_out s3 = w_out s @ es @ slot_taken sv @ [Gauge_inc, Rpc_synth rid (tr_Text req) (voice_of req)]"
    using es by (simp add: s3_def m_def Synthesize_def rid_def)
  have clk: "clk_in T s3" if "clk_in T s" for T
  proof -
    have "clk_in T s2" unfolding s2_def s1_def
      using that keepsD [OF clk_kept(14)] keepsD [OF clk_kept(13)] by blast
    then show ?thesis by (simp add: s3_def m_def Synthesize_def clk_in_def)
  qed
  have q: "result m s2 = rpc_synthesize (Inference sv) rid (tr_Text req) (voice_of req)"
    by (simp add: m_def Synthesize_def rid_def)
  have "case rpc_synthesize (Inference sv) rid (tr_Text req) (voice_of req) of
        Inl err \<Rightarrow> result (StreamTTS E sv r) s = http_error (Error E err) 502 \<and>
          w_out (after (StreamTTS E sv r) s) = w_out s3 @ stream_ended sv
      | Inr stream \<Rightarrow> result (StreamTTS E sv r) s = streamed \<and>
          w_out (after (StreamTTS E sv r) s) =
            w_out (after (stream_deliver E sv (ID u) (rq_flusher r) rid snap stream) s3) @ stream_ended sv"
    using u adm req acq q
    by (simp add: StreamTTS_def with_user_def UserFromContext_def s1_def [symmetric] s2_def [symmetric]
        s3_def m_def Synthesize_def rid_def release_slot_def stream_ended_def split: sum.splits)
  with es(2) o3 clk show thesis by (rule that)
qed

definition around :: "'v Server \<Rightarrow> effect list \<Rightarrow> string \<Rightarrow> string \<Rightarrow> string \<Rightarrow> effect list \<Rightarrow> effect list" where
  "around sv pre rid msg voice es =
     pre @ slot_taken sv @ [Gauge_inc, Rpc_synth rid msg voice] @ es @ stream_ended sv"

lemma around_simps:
  assumes "list_all quiet pre"
  shows "delivered (around sv pre rid msg voice es) = delivered es"
    and "filter is_published (around sv pre rid msg voice es) = filter is_published es"
  using quiet_all [OF assms]
  by (simp_all add: around_def slot_taken_def stream_ended_def delivered_def chunk_of_def is_published_def)

lemma StreamTTS_streamed:
  fixes s :: "'v world"
  assumes u: "rq_user r = Some u" and streamed: "result (StreamTTS E sv r) s = streamed"
  obtains snap pre rid msg voice stream s3 where "result (admit E sv (ID u)) s = Inr snap"
    and "list_all quiet pre"
    and "\<And>T. clk_in T s \<Longrightarrow> clk_in T s3"
    and "rpc_synthesize (Inference sv) rid msg voice = Inr stream"
    and "\<And>es. w_out (after (stream_deliver E sv (ID u) (rq_flusher r) rid snap stream) s3) = w_out s3 @ es \<Longrightarrow>
      w_out (after (StreamTTS E sv r) s) = w_out s @ around sv pre rid msg voice es"
proof -
  have "\<exists>snap req. result (admit E sv (ID u)) s = Inr snap \<and>
      unmarshal TTSRequest_step TTSRequest0 (rq_body r) = Some req \<and>
      result (acquireSynthesis sv) (after (admit E sv (ID u)) s) = None"
  proof (rule ccontr)
    assume "\<not> ?thesis"
    then obtain resp snap where "result (admit E sv (ID u)) s = Inl resp \<or>
      result (admit E sv (ID u)) s = Inr snap \<and>
        (case unmarshal TTSRequest_step TTSRequest0 (rq_body r) of
           None \<Rightarrow> True
         | Some req \<Rightarrow> result (acquireSynthesis sv) (after (admit E sv (ID u)) s) \<noteq> None)"
      by (cases "result (admit E sv (ID u)) s"; cases "unmarshal TTSRequest_step TTSRequest0 (rq_body r)") auto
    from StreamTTS_refused [OF u this] streamed show False by (simp add: streamed_def)
  qed
  then obtain snap req where a: "result (admit E sv (ID u)) s = Inr snap"
    "unmarshal TTSRequest_step TTSRequest0 (rq_body r) = Some req"
    "result (acquireSynthesis sv) (after (admit E sv (ID u)) s) = None" by blast
  show thesis
  proof (rule StreamTTS_ran [OF u a])
    fix pre rid and s3 :: "'v world"
    assume pre: "list_all quiet pre"
      and o3: "w_out s3 = w_out s @ pre @ slot_taken sv @ [Gauge_inc, Rpc_synth rid (tr_Text req) (voice_of req)]"
      and clk: "\<And>T. clk_in T s \<Longrightarrow> clk_in T s3"
      and run: "case rpc_synthesize (Inference sv) rid (tr_Text req) (voice_of req) of
        Inl err \<Rightarrow> result (StreamTTS E sv r) s = http_error (Error E err) 502 \<and>
          w_out (after (StreamTTS E sv r) s) = w_out s3 @ stream_ended sv
      | Inr stream \<Rightarrow> result (StreamTTS E sv r) s = streamed \<and>
          w_out (after (StreamTTS E sv r) s) =
            w_out (after (stream_deliver E sv (ID u) (rq_flusher r) rid snap stream) s3) @ stream_ended sv"
    from run streamed obtain stream where st: "rpc_synthesize (Inference sv) rid (tr_Text req) (voice_of req) = Inr stream"
      by (cases "rpc_synthesize (Inference sv) rid (tr_Text req) (voice_of req)") (auto simp: streamed_def http_error_def)
    show thesis
      by (rule that [OF a(1) pre clk st]) (use run st o3 in \<open>simp_all add: around_def\<close>)
  qed
qed

lemma stream_accounts:
  assumes "rq_user r = Some u" and "wire_lawful (Inference sv)"
    and streamed: "result (StreamTTS E sv r) s = streamed" and clk: "clk_in T s"
  obtains es rid msg voice stream cs rest segs where
    "w_out (after (StreamTTS E sv r) s) = w_out s @ es"
    and "Rpc_synth rid msg voice \<in> set es" and "rpc_synthesize (Inference sv) rid msg voice = Inr stream"
    and "chunks_of stream = cs @ rest" and "delivered es = map Pcm cs" and "list_all chunk_ok cs"
    and "grouped segs (concat (map secs cs))"
    and "flushed_as E T (NewCoalescer (ID u) rid ''http_stream'' (BillingCoalesce (Cfg sv))) 0 segs (filter is_published es)"
proof -
  obtain snap pre rid msg voice stream s3 where "result (admit E sv (ID u)) s = Inr snap" and pre: "list_all quiet pre"
    and clk3: "\<And>T. clk_in T s \<Longrightarrow> clk_in T s3"
    and st: "rpc_synthesize (Inference sv) rid msg voice = Inr stream"
    and run: "\<And>es. w_out (after (stream_deliver E sv (ID u) (rq_flusher r) rid snap stream) s3) = w_out s3 @ es \<Longrightarrow>
      w_out (after (StreamTTS E sv r) s) = w_out s @ around sv pre rid msg voice es"
    by (rule StreamTTS_streamed [OF assms(1) streamed]) (rule that)
  have ok: "list_all chunk_ok (chunks_of stream)" using assms(2) st by (auto simp: wire_lawful_def)
  from stream_deliver_accounts [where Q = "\<lambda>_ _ _. True", OF ok clk3 [OF clk]] obtain es cs rest segs where
    es: "w_out (after (stream_deliver E sv (ID u) (rq_flusher r) rid snap stream) s3) = w_out s3 @ es"
      "chunks_of stream = cs @ rest" "delivered es = map Pcm cs" "grouped segs (concat (map secs cs))"
      "flushed_as E T (NewCoalescer (ID u) rid ''http_stream'' (BillingCoalesce (Cfg sv))) 0 segs (filter is_published es)"
    by blast
  have "Rpc_synth rid msg voice \<in> set (around sv pre rid msg voice es)" by (simp add: around_def)
  moreover have "list_all chunk_ok cs" using ok es(2) by simp
  ultimately show thesis
    using that [OF run [OF es(1)] _ st es(2)] es(3-5) around_simps [OF pre, of sv rid msg voice es] by simp
qed

lemma smooth_StreamTTS: "keeps (smooth old) (StreamTTS E sv r)"
proof -
  have c: "keeps (smooth old) (stream_chunk E sv u fl start c st)" for u fl start c st
    unfolding stream_chunk_def by (intro keeps_intros)
  have d: "keeps (smooth old) (stream_deliver E sv u fl rid snap stream)" for u fl rid snap stream
    unfolding stream_deliver_def by (intro keeps_intros c)
  show ?thesis
    unfolding StreamTTS_def with_user_def acquireSynthesis_def track_bind
    by (intro keeps_intros d; simp add: is_published_def)
qed

text \<open>
  C2: The HTTP stream hands over for billing exactly what it delivers.  In every run that answers with a
  stream, whatever fails on the way (the inference stream, a write, the cache, the database, the
  client's connection), the client received the first chunks of the inference stream in order, and their
  seconds, in order and none twice, make up the groups for each of which one event was given to NATS,
  under the next number of the request and with the time of a clock reading of the run; a chunk whose
  write failed is in none.  Beside each group stands whether NATS accepted it: where no call fails all are
  accepted; a group that is refused is lost.  (The clock reads instants \<open>time.Time\<close> can encode.)
\<close>

theorem stream_bills_what_it_delivers:
  assumes "rq_user r = Some u" and "wire_lawful (Inference sv)"
    and streamed: "result (StreamTTS E sv r) s = streamed" and enc: "encodes E (range (w_clk s))"
  shows "\<exists>es rid msg voice stream cs rest gs.
    w_out (after (StreamTTS E sv r) s) = w_out s @ es \<and>
    Rpc_synth rid msg voice \<in> set es \<and> rpc_synthesize (Inference sv) rid msg voice = Inr stream \<and>
    chunks_of stream = cs @ rest \<and> delivered es = map Pcm cs \<and> grouped (map fst gs) (concat (map secs cs)) \<and>
    handed_over E (range (w_clk s)) (NewCoalescer (ID u) rid ''http_stream'' (BillingCoalesce (Cfg sv))) 0 gs
      (filter is_published es) \<and>
    (calm s \<longrightarrow> list_all snd gs)"
proof (rule stream_accounts [OF assms(1-3)])
  fix es rid msg voice stream cs rest segs
  let ?T = "range (w_clk s)" and ?c0 = "NewCoalescer (ID u) rid ''http_stream'' (BillingCoalesce (Cfg sv))"
  show "clk_in ?T s" by (simp add: clk_in_def)
  assume es: "w_out (after (StreamTTS E sv r) s) = w_out s @ es" "Rpc_synth rid msg voice \<in> set es"
      "rpc_synthesize (Inference sv) rid msg voice = Inr stream" "chunks_of stream = cs @ rest" "delivered es = map Pcm cs"
    and ok: "list_all chunk_ok cs" and g: "grouped segs (concat (map secs cs))"
      "flushed_as E ?T ?c0 0 segs (filter is_published es)"
  from grouped_handed_over [OF g enc secs_short [OF ok]] obtain gs where
    gs: "grouped (map fst gs) (concat (map secs cs))" "handed_over E ?T ?c0 0 gs (filter is_published es)" .
  have "list_all snd gs" if "calm s"
    using smooth_accepted [OF keepsD [OF smooth_StreamTTS smooth_start [OF that]] es(1) gs(2)] .
  then show ?thesis using es gs by blast
qed

section \<open>Within the budget\<close>

text \<open>Between two refreshes nothing but the costs of delivered chunks changes the budget.\<close>

definition unrefreshed ::
  "'v Server \<Rightarrow> instant \<Rightarrow> WalletSnapshot \<Rightarrow> rat \<Rightarrow> rat \<Rightarrow> AudioChunk list \<Rightarrow> stream_vars \<Rightarrow> 'v world \<Rightarrow> bool" where
  "unrefreshed sv lo snap b p cs st s \<longleftrightarrow>
     clk_within lo (lo + DeliveryRefreshStream (Cfg sv)) s \<and> lo \<le> v_lastRefresh st \<and>
     v_snap st = snap \<and> solvent b p cs (v_budget st)"

lemma unrefreshed_step:
  fixes s :: "'v world"
  assumes inv: "unrefreshed sv lo snap b p cs st s" and c: "chunk_ok c" and p: "0 \<le> p"
    and price: "PricePerAudioMinuteUSD snap = Fin p"
    and ok: "fst (result (stream_chunk E sv u fl start c st) s) = None"
  shows "unrefreshed sv lo snap b p (cs @ [c]) (snd (result (stream_chunk E sv u fl start c st) s))
    (after (stream_chunk E sv u fl start c st) s)"
proof -
  let ?hi = "lo + DeliveryRefreshStream (Cfg sv)"
  define m1 :: "('v, stream_vars) io" where "m1 = first_chunk ''http_stream'' start st"
  define st2 where "st2 = (charge c (v_snap (result m1 s)) (result m1 s))
    \<lparr>v_audioSeconds := fadd (v_audioSeconds (result m1 s)) (SecondsFromPCM (int (length (Pcm c))) (Grpc.SampleRate c))\<rparr>"
  define s3 where "s3 = after (bill E ''http_stream'' c st2) (after (write_chunk fl (Pcm c)) (after m1 s))"
  define st3 where "st3 = result (bill E ''http_stream'' c st2) (after (write_chunk fl (Pcm c)) (after m1 s))"
  have clk: "clk_within lo ?hi s3"
    using inv unfolding unrefreshed_def s3_def m1_def by (intro keepsD [OF clk_kept(10)] keepsD [OF clk_kept(11)] keepsD [OF clk_kept(9)]) simp
  have vars: "v_lastRefresh st3 = v_lastRefresh st" "v_snap st3 = v_snap st"
    "v_budget st3 = fsub (v_budget st) (chunk_cost (Fin p) c)"
    using inv price by (simp_all add: st3_def bill_result st2_def m1_def unrefreshed_def)
  have not_due: "\<not> DeliveryRefreshStream (Cfg sv) \<le> w_clk s3 0 - v_lastRefresh st3"
  proof -
    have "w_clk s3 0 < ?hi" using clk by (simp add: clk_within_def)
    then show ?thesis using inv vars by (simp add: unrefreshed_def)
  qed
  have run: "\<not> flt_le (v_budget st3) f0" "result (stream_chunk E sv u fl start c st) s = (None, st3)"
    "after (stream_chunk E sv u fl start c st) s = after (since (v_lastRefresh st3)) s3"
    using ok not_due
    by (auto simp: stream_chunk_def Let_def m1_def [symmetric] st2_def s3_def st3_def bill_result refresh_due_def
        split: if_splits option.splits)
  have "\<not> flt_less (fsub (v_budget st) (chunk_cost (Fin p) c)) f0"
    using run(1) flt_less_le unfolding vars(3) by blast
  then have "solvent b p (cs @ [c]) (v_budget st3)"
    using inv c p unfolding vars(3) unrefreshed_def by (intro solvent_step) simp_all
  then show ?thesis using clk inv vars run by (simp add: unrefreshed_def clk_within_def)
qed

lemma admit_positive: "result (admit E sv u) s = Inr snap \<Longrightarrow> flt_less f0 (BalanceUSD snap)"
  by (auto simp: admit_def HasBalance_def split: sum.splits prod.splits if_splits)

text \<open>
  C16: A stream stays within the wallet it was admitted with.  While no refresh is due (every clock
  reading of the request lies within one refresh interval), the chunks delivered cost together no
  more than the admitted balance, but for the rounding error of one subtraction per chunk.
\<close>

theorem stream_within_budget:
  assumes "rq_user r = Some u" and "wire_lawful (Inference sv)"
    and streamed: "result (StreamTTS E sv r) s = streamed"
    and adm: "result (admit E sv (ID u)) s = Inr snap"
    and bal: "BalanceUSD snap = Fin b" "is64 (Fin b)" and price: "PricePerAudioMinuteUSD snap = Fin p" "0 \<le> p"
    and clk: "clk_within lo (lo + DeliveryRefreshStream (Cfg sv)) s"
  shows "\<exists>es cs. w_out (after (StreamTTS E sv r) s) = w_out s @ es \<and> delivered es = map Pcm cs \<and> paid_for b p cs"
proof -
  obtain snap' pre rid msg voice stream s3 where adm': "result (admit E sv (ID u)) s = Inr snap'"
    and pre: "list_all quiet pre"
    and clk3: "\<And>T. clk_in T s \<Longrightarrow> clk_in T s3"
    and st: "rpc_synthesize (Inference sv) rid msg voice = Inr stream"
    and run: "\<And>es. w_out (after (stream_deliver E sv (ID u) (rq_flusher r) rid snap' stream) s3) = w_out s3 @ es \<Longrightarrow>
      w_out (after (StreamTTS E sv r) s) = w_out s @ around sv pre rid msg voice es"
    by (rule StreamTTS_streamed [OF assms(1) streamed]) (rule that)
  have snap: "snap' = snap" using adm adm' by simp
  have b: "0 \<le> b" using admit_positive [OF adm] bal by simp
  have ok: "list_all chunk_ok (chunks_of stream)" using assms(2) st by (auto simp: wire_lawful_def)
  let ?Q = "unrefreshed sv lo snap b p"
  have "\<exists>es cs rest segs. w_out (after (stream_deliver E sv (ID u) (rq_flusher r) rid snap stream) s3) = w_out s3 @ es \<and>
    chunks_of stream = cs @ rest \<and> delivered es = map Pcm cs \<and>
    (\<exists>st' s'. ?Q cs st' s') \<and> grouped segs (concat (map secs cs)) \<and>
    flushed_as E {lo ..< lo + DeliveryRefreshStream (Cfg sv)} (NewCoalescer (ID u) rid ''http_stream'' (BillingCoalesce (Cfg sv))) 0 segs (filter is_published es)"
  proof (rule stream_deliver_accounts [OF ok clk3 [OF clk]])
    show "?Q [] (stream_vars0 sv (ID u) rid snap (w_clk s3 1)) (after now (after now s3))"
      using clk3 [OF clk] solvent_start [OF bal(2) b] bal(1)
      by (simp add: unrefreshed_def stream_vars0_def clk_within_def del: is64.simps)
    show "?Q cs st s \<Longrightarrow> ?Q cs st (after (ctx_done Request) s)" for cs st s
      unfolding unrefreshed_def by (auto intro: keepsD [OF clk_kept(12)])
    show "?Q (cs @ [c]) (snd (result (stream_chunk E sv (ID u) (rq_flusher r) start c st) s))
        (after (stream_chunk E sv (ID u) (rq_flusher r) start c st) s)"
      if "set (cs @ [c]) \<subseteq> set (chunks_of stream)" "?Q cs st s"
        "fst (result (stream_chunk E sv (ID u) (rq_flusher r) start c st) s) = None" for start cs c st s
      using that ok price by (intro unrefreshed_step) (auto simp: list_all_iff)
  qed
  then obtain es cs st' s' where es: "w_out (after (stream_deliver E sv (ID u) (rq_flusher r) rid snap stream) s3) = w_out s3 @ es"
    and d: "delivered es = map Pcm cs" and q: "?Q cs st' s'" by blast
  have "paid_for b p cs" using q solvent_paid [OF _ bal(2) b] unfolding unrefreshed_def by blast
  then show ?thesis using run [unfolded snap, OF es] d around_simps(1) [OF pre] by metis
qed

section \<open>The asynchronous job\<close>

definition async_inv ::
  "'v env \<Rightarrow> instant set \<Rightarrow> Coalescer \<Rightarrow> effect list \<Rightarrow> rat \<Rightarrow> rat \<Rightarrow> AudioChunk list \<Rightarrow> async_vars \<Rightarrow> 'v world \<Rightarrow> bool" where
  "async_inv E T c0 old b p cs st s \<longleftrightarrow>
     accounted E T c0 old [] cs (v_coal st) s \<and> v_pcm st = concat (map Pcm cs) \<and> solvent b p cs (v_budget st)"

lemma async_inv_step:
  fixes s :: "'v world"
  assumes inv: "async_inv E T c0 old b p cs st s" and c: "chunk_ok c" and p: "0 \<le> p"
    and price: "PricePerAudioMinuteUSD snap = Fin p"
  shows "case fst (result (async_chunk E snap start c st) s) of
      None \<Rightarrow> async_inv E T c0 old b p (cs @ [c]) (snd (result (async_chunk E snap start c st) s))
                (after (async_chunk E snap start c st) s)
    | Some e \<Rightarrow> e = insufficient_balance \<and>
        accounted E T c0 old [] cs (v_coal (snd (result (async_chunk E snap start c st) s)))
                (after (async_chunk E snap start c st) s) \<and> solvent b p cs (v_budget st)"
proof -
  define m1 :: "('v, async_vars) io" where "m1 = first_chunk ''http_async'' start st"
  define st1 where "st1 = charge c snap (result m1 s)"
  define st2 where "st2 = st1\<lparr>v_audioSeconds := fadd (v_audioSeconds st1) (SecondsFromPCM (int (length (Pcm c))) (Grpc.SampleRate c)),
    v_pcm := v_pcm st1 @ Pcm c\<rparr>"
  define s1 where "s1 = after m1 s"
  have acc: "accounted E T c0 old [] cs (v_coal st) s1"
    using inv unfolding async_inv_def s1_def m1_def by (intro accounted_quiet [OF _ emits_first_chunk]) simp
  have coal: "v_coal st1 = v_coal st" "v_coal st2 = v_coal st" by (simp_all add: st2_def st1_def m1_def)
  have bud: "v_budget st1 = fsub (v_budget st) (chunk_cost (Fin p) c)" "v_budget st2 = v_budget st1"
    using price by (simp_all add: st1_def st2_def m1_def)
  have run: "result (async_chunk E snap start c st) s =
      (if flt_less (v_budget st1) f0 then (Some insufficient_balance, st1)
       else (None, result (bill E ''http_async'' c st2) s1))"
    "after (async_chunk E snap start c st) s =
      (if flt_less (v_budget st1) f0 then s1 else after (bill E ''http_async'' c st2) s1)"
    by (simp_all add: async_chunk_def Let_def m1_def st1_def st2_def s1_def)
  show ?thesis
  proof (cases "flt_less (v_budget st1) f0")
    case True
    then show ?thesis using acc coal inv by (simp add: run async_inv_def)
  next
    case False
    have "clk_in T s1" using acc by (simp add: accounted_def)
    then have "accounted E T c0 old [] (cs @ [c]) (v_coal (result (bill E ''http_async'' c st2) s1))
        (after (bill E ''http_async'' c st2) s1)"
      unfolding bill_result bill_after coal
      using accounted_quiet [OF accounted_AddPCM [OF acc, of s1 "[]" "[]" c] emits_observe] by simp
    moreover have "solvent b p (cs @ [c]) (v_budget st1)"
      using inv False c p unfolding bud async_inv_def by (intro solvent_step) simp_all
    moreover have "v_pcm st2 = concat (map Pcm (cs @ [c]))"
      using inv by (simp add: st2_def st1_def m1_def async_inv_def)
    ultimately show ?thesis using False by (simp add: run async_inv_def bill_result bud)
  qed
qed

text \<open>
  \<open>job_after cs all row row'\<close>: what a job's row may become.  A lost update leaves it as it was or
  running; only a job all of whose chunks were taken is completed, with the WAV file of them all.
\<close>

definition job_after :: "AudioChunk list \<Rightarrow> AudioChunk list \<Rightarrow> job_row \<Rightarrow> job_row \<Rightarrow> bool" where
  "job_after cs full row row' \<longleftrightarrow>
     row' = row \<or> row' = row\<lparr>j_status := Running\<rparr> \<or>
     (\<exists>st msg. row' = row\<lparr>j_status := st, j_error := Some msg\<rparr> \<and> st = Failed) \<or>
     cs = full \<and> row' = row\<lparr>j_status := Completed, j_audio := Some (WrapWAV (concat (map Pcm full)) Audio.SampleRate)\<rparr>"

definition jobs_after :: "uuid \<Rightarrow> AudioChunk list \<Rightarrow> AudioChunk list \<Rightarrow> db \<Rightarrow> db \<Rightarrow> bool" where
  "jobs_after job cs full d d' \<longleftrightarrow>
     d' = d\<lparr>tts_jobs := tts_jobs d'\<rparr> \<and> (\<forall>i. i \<noteq> job \<longrightarrow> tts_jobs d' i = tts_jobs d i) \<and>
     rel_option (job_after cs full) (tts_jobs d job) (tts_jobs d' job)"

lemma rel_option_map_right: "(\<And>x. R x (f x)) \<Longrightarrow> rel_option R v (map_option f v)"
  by (cases v) simp_all

lemma jobs_after_refl [simp]: "jobs_after job cs full d d"
  by (simp add: jobs_after_def job_after_def option.rel_refl)

lemma jobs_after_running: "jobs_after job cs full d (snd (set_running job d))"
  by (auto simp: jobs_after_def set_running_def update_job_def job_after_def intro: rel_option_map_right)

definition started :: "uuid \<Rightarrow> db \<Rightarrow> db \<Rightarrow> bool" where
  "started job d d' \<longleftrightarrow> d' = d \<or> d' = snd (set_running job d)"

lemma jobs_after_failed:
  "started job d d' \<Longrightarrow> jobs_after job cs full d (snd (set_failed job msg d'))"
  by (cases "tts_jobs d job")
    (auto simp: started_def jobs_after_def set_running_def set_failed_def update_job_def job_after_def option.rel_refl)

lemma jobs_after_completed:
  "started job d d' \<Longrightarrow> jobs_after job cs cs d (snd (set_completed job (WrapWAV (concat (map Pcm cs)) Audio.SampleRate) d'))"
  by (cases "tts_jobs d job")
    (auto simp: started_def jobs_after_def set_running_def set_completed_def update_job_def job_after_def option.rel_refl)

lemma jobs_after_started: "started job d d' \<Longrightarrow> jobs_after job cs full d d'"
  using jobs_after_running by (auto simp: started_def)

text \<open>Taking the stream in: the chunks taken are a paid-for beginning of it, and all of it if nothing failed.\<close>

lemma async_copy_taken:
  fixes s :: "'v world" and copy :: "('v, error option \<times> async_vars) io"
  assumes ok: "list_all chunk_ok (chunks_of stream)"
    and price: "PricePerAudioMinuteUSD snap = Fin p" "0 \<le> p"
    and i0: "async_inv E T c0 old b p [] st s"
    and copy: "copy = CopyAudioStream Background stream (async_chunk E snap start) st"
  obtains cs rest bud where "chunks_of stream = cs @ rest"
    and "accounted E T c0 old [] cs (v_coal (snd (result copy s))) (after copy s)" and "solvent b p cs bud"
    and "fst (result copy s) = None \<longrightarrow> cs = chunks_of stream \<and> v_pcm (snd (result copy s)) = concat (map Pcm cs)"
proof -
  let ?I = "async_inv E T c0 old b p"
  let ?A = "\<lambda>cs st t. accounted E T c0 old [] cs (v_coal (st :: async_vars)) t \<and> (\<exists>bud. solvent b p cs bud)"
  have "\<exists>cs. copied ?I (\<lambda>cs c e. ?A cs) stream [] cs (fst (result copy s)) (snd (result copy s)) (after copy s)"
    unfolding copy
  proof (rule CopyAudioStream_copied [where S = "set (chunks_of stream)"])
    show "?I cs st s \<Longrightarrow> ?I cs st (after (ctx_done Background) s)" for cs st s
      unfolding async_inv_def by (auto intro: accounted_out)
    show "case fst (result (async_chunk E snap start c st) t) of
        None \<Rightarrow> ?I (cs @ [c]) (snd (result (async_chunk E snap start c st) t)) (after (async_chunk E snap start c st) t)
      | Some e \<Rightarrow> ?A cs (snd (result (async_chunk E snap start c st) t)) (after (async_chunk E snap start c st) t)"
      if "set (cs @ [c]) \<subseteq> set (chunks_of stream)" "?I cs st t" for cs c st t
    proof -
      have "chunk_ok c" using that(1) ok by (auto simp: list_all_iff)
      from async_inv_step [OF that(2) this price(2,1), of start] show ?thesis by (auto split: option.splits)
    qed
  qed (use i0 in simp_all)
  then obtain cs where cp: "copied ?I (\<lambda>cs c e. ?A cs) stream [] cs (fst (result copy s))
      (snd (result copy s)) (after copy s)" by blast
  then have A: "?A cs (snd (result copy s)) (after copy s)" and pre: "\<exists>rest. chunks_of stream = cs @ rest"
    and all: "fst (result copy s) = None \<longrightarrow> cs = chunks_of stream \<and> v_pcm (snd (result copy s)) = concat (map Pcm cs)"
    unfolding copied_def async_inv_def by auto
  from A obtain bud where bud: "solvent b p cs bud" by (elim conjE exE)
  from pre obtain rest where "chunks_of stream = cs @ rest" by (elim exE)
  from that [OF this conjunct1 [OF A] bud all] show ?thesis .
qed

lemma async_deliver_outcome:
  fixes s :: "'v world"
  assumes ok: "list_all chunk_ok (chunks_of stream)"
    and bal: "BalanceUSD snap = Fin b" "is64 (Fin b)" "0 \<le> b"
    and price: "PricePerAudioMinuteUSD snap = Fin p" "0 \<le> p"
    and d: "started job d (w_db s)" and clk: "clk_in T s"
  shows "\<exists>es cs rest segs. w_out (after (async_deliver E sv job u snap stream) s) = w_out s @ es \<and>
    chunks_of stream = cs @ rest \<and> paid_for b p cs \<and>
    grouped segs (concat (map secs cs)) \<and>
    flushed_as E T (NewCoalescer u job ''http_async'' (BillingCoalesce (Cfg sv))) 0 segs (filter is_published es) \<and>
    jobs_after job cs (chunks_of stream) d (w_db (after (async_deliver E sv job u snap stream) s))"
proof -
  let ?c0 = "NewCoalescer u job ''http_async'' (BillingCoalesce (Cfg sv))"
  define s1 where "s1 = after now s"
  define st where "st = async_vars0 sv u job snap"
  define copy :: "('v, error option \<times> async_vars) io" where
    "copy = CopyAudioStream Background stream (async_chunk E snap (w_clk s 0)) st"
  define close :: "('v, Coalescer) io" where
    "close = settle E sv ''http_async'' ''/v1/tts/async'' u (w_clk s 0) (snd (result copy s1))"
  define s2 where "s2 = after close (after copy s1)"
  define last where "last = (case fst (result copy s1) of Some e \<Rightarrow> set_failed job (Error E e)
    | None \<Rightarrow> set_completed job (WrapWAV (v_pcm (snd (result copy s1))) Audio.SampleRate))"
  have "coal_fresh ?c0" by (simp add: coal_fresh_def NewCoalescer_def)
  then have i0: "async_inv E T ?c0 (w_out s) b p [] st s1"
    using accounted_start [of ?c0 s1 "w_out s" T E] solvent_start [OF bal(2,3)] bal(1) clk
    by (simp add: async_inv_def st_def async_vars0_def s1_def clk_in_def del: is64.simps)
  from async_copy_taken [OF ok price i0 copy_def] obtain cs rest bud where pre: "chunks_of stream = cs @ rest"
    and acc: "accounted E T ?c0 (w_out s) [] cs (v_coal (snd (result copy s1))) (after copy s1)" "solvent b p cs bud"
    and all: "fst (result copy s1) = None \<longrightarrow> cs = chunks_of stream \<and> v_pcm (snd (result copy s1)) = concat (map Pcm cs)" .
  have "list_all chunk_ok cs" using ok pre by simp
  from settled_segments [OF acc(1) refl this s2_def [unfolded close_def]] obtain es segs where
    es: "w_out s2 = w_out s @ es" and "delivered es = map Pcm ([] :: AudioChunk list)" and
      segs: "grouped segs (concat (map secs cs))" "flushed_as E T ?c0 0 segs (filter is_published es)" .
  have k: "keeps (\<lambda>t. w_db t = w_db s) copy" "keeps (\<lambda>t. w_db t = w_db s) close"
    unfolding copy_def close_def async_chunk_def by (intro keeps_intros)+
  have db: "w_db s2 = w_db s"
    unfolding s2_def by (rule keepsD [OF k(2)], rule keepsD [OF k(1)]) (simp add: s1_def)
  have run: "after (async_deliver E sv job u snap stream) s = after (pg last) s2"
    by (simp add: async_deliver_def last_def s2_def close_def copy_def st_def s1_def split_beta split: option.splits)
  have "jobs_after job cs (chunks_of stream) d (snd (last (w_db s)))"
    using all d jobs_after_failed jobs_after_completed by (cases "fst (result copy s1)") (auto simp: last_def)
  then have "jobs_after job cs (chunks_of stream) d (w_db (after (pg last) s2))"
    using jobs_after_started [OF d] by (simp add: w_db_after_pg db)
  then show ?thesis using es segs pre solvent_paid [OF acc(2) bal(2,3)] unfolding run by auto
qed

lemma acquire_background:
  "result (acquire_slot b Background) s = None"
  "w_out (after (acquire_slot (Synth sv) Background) s) = w_out s @ slot_taken sv"
  "w_db (after (acquire_slot b Background) s) = w_db s"
  by (simp_all add: acquire_slot_def ctx_done_def slot_taken_def)

text \<open>The run of a job, up to the delivery of the stream.\<close>

lemma runAsyncJob_run:
  fixes s :: "'v world"
  obtains s3 where "w_out s3 = w_out s @ slot_taken sv @ [Gauge_inc, Rpc_synth job msg voice]"
    and "started job (w_db s) (w_db s3)" and "w_clk s3 = w_clk s"
    and "w_db (after (runAsyncJob E sv job u msg voice snap) s) =
      w_db (after (case rpc_synthesize (Inference sv) job msg voice of
          Inl err \<Rightarrow> do { _ \<leftarrow> pg (set_failed job (Error E err)); ret () }
        | Inr stream \<Rightarrow> async_deliver E sv job u snap stream) s3)"
    and "w_out (after (runAsyncJob E sv job u msg voice snap) s) =
      w_out (after (case rpc_synthesize (Inference sv) job msg voice of
          Inl err \<Rightarrow> do { _ \<leftarrow> pg (set_failed job (Error E err)); ret () }
        | Inr stream \<Rightarrow> async_deliver E sv job u snap stream) s3) @ stream_ended sv"
proof -
  define s1 where "s1 = after (acquire_slot (Synth sv) Background) s"
  define s2 where "s2 = s1\<lparr>w_out := w_out s1 @ [Gauge_inc]\<rparr>"
  define s3 where "s3 = after (emit (Rpc_synth job msg voice)) (after (pg (set_running job)) s2)"
  have "w_out s3 = w_out s @ slot_taken sv @ [Gauge_inc, Rpc_synth job msg voice]"
    by (simp add: s3_def s2_def s1_def acquire_background)
  moreover have "started job (w_db s) (w_db s3)"
    by (simp add: s3_def s2_def s1_def acquire_background w_db_after_pg started_def)
  moreover have "w_clk s3 = w_clk s" by (simp add: s3_def s2_def s1_def acquire_slot_def ctx_done_def)
  moreover define body where "body = (case rpc_synthesize (Inference sv) job msg voice of
          Inl err \<Rightarrow> do { _ \<leftarrow> pg (set_failed job (Error E err)); ret () }
        | Inr stream \<Rightarrow> async_deliver E sv job u snap stream)"
  moreover have "after (runAsyncJob E sv job u msg voice snap) s =
      after (release_slot (Synth sv)) (after (emit Gauge_dec) (after body s3))"
    by (simp add: runAsyncJob_def acquire_background s1_def [symmetric] s2_def [symmetric] Synthesize_def s3_def
        body_def split: sum.splits)
  ultimately show thesis
    by (intro that [of s3]) (simp_all add: release_slot_def stream_ended_def)
qed

lemma smooth_runAsyncJob: "keeps (smooth old) (runAsyncJob E sv job u msg voice snap)"
proof -
  have c: "keeps (smooth old) (async_chunk E snap start c st)" for start c st
    unfolding async_chunk_def by (intro keeps_intros)
  have d: "keeps (smooth old) (async_deliver E sv job u snap stream)" for stream
    unfolding async_deliver_def by (intro keeps_intros c)
  show ?thesis unfolding runAsyncJob_def track_bind by (intro keeps_intros d; simp add: is_published_def)
qed

text \<open>
  C4: An asynchronous job hands over for billing the audio it takes, and stores all of it or none.
  Whatever fails on the way, the seconds of the first chunks of the inference stream, which the admitted balance pays
  for up to rounding, make up the groups for each of which one event was given to NATS (with, beside each
  group, whether NATS accepted it: all are where no call fails, and a refused group is lost); no other job and
  no other table changes; and the job is completed only with the WAV file of the whole stream, and then
  all the chunks of the stream are in those groups.  (A job that fails half-way is billed for the chunks taken and
  keeps no audio.)
\<close>

theorem async_job_bills_what_it_stores:
  assumes wire: "wire_lawful (Inference sv)"
    and st: "rpc_synthesize (Inference sv) job msg voice = Inr stream"
    and bal: "BalanceUSD snap = Fin b" "is64 (Fin b)" "0 \<le> b"
    and price: "PricePerAudioMinuteUSD snap = Fin p" "0 \<le> p"
    and enc: "encodes E (range (w_clk s))"
  shows "\<exists>es cs rest gs. w_out (after (runAsyncJob E sv job u msg voice snap) s) = w_out s @ es \<and>
    chunks_of stream = cs @ rest \<and> paid_for b p cs \<and> grouped (map fst gs) (concat (map secs cs)) \<and>
    handed_over E (range (w_clk s)) (NewCoalescer u job ''http_async'' (BillingCoalesce (Cfg sv))) 0 gs
      (filter is_published es) \<and>
    (calm s \<longrightarrow> list_all snd gs) \<and>
    jobs_after job cs (chunks_of stream) (w_db s) (w_db (after (runAsyncJob E sv job u msg voice snap) s))"
proof -
  let ?T = "range (w_clk s)" and ?c0 = "NewCoalescer u job ''http_async'' (BillingCoalesce (Cfg sv))"
  obtain s3 where o3: "w_out s3 = w_out s @ slot_taken sv @ [Gauge_inc, Rpc_synth job msg voice]"
    and d3: "started job (w_db s) (w_db s3)" and clk: "w_clk s3 = w_clk s"
    and db: "w_db (after (runAsyncJob E sv job u msg voice snap) s) = w_db (after (async_deliver E sv job u snap stream) s3)"
    and out: "w_out (after (runAsyncJob E sv job u msg voice snap) s) =
      w_out (after (async_deliver E sv job u snap stream) s3) @ stream_ended sv"
    by (rule runAsyncJob_run [of s sv job msg voice E u snap]) (simp add: st)
  have ok: "list_all chunk_ok (chunks_of stream)" using wire st by (auto simp: wire_lawful_def)
  have "clk_in ?T s3" by (simp add: clk_in_def clk)
  from async_deliver_outcome [OF ok bal price d3 this] obtain es cs rest segs where
    es: "w_out (after (async_deliver E sv job u snap stream) s3) = w_out s3 @ es" and
    r: "chunks_of stream = cs @ rest" "paid_for b p cs" and g: "grouped segs (concat (map secs cs))"
      "flushed_as E ?T ?c0 0 segs (filter is_published es)" and
    j: "jobs_after job cs (chunks_of stream) (w_db s) (w_db (after (async_deliver E sv job u snap stream) s3))"
    by blast
  have "list_all chunk_ok cs" using ok r(1) by simp
  from grouped_handed_over [OF g enc secs_short [OF this]] obtain gs where
    gs: "grouped (map fst gs) (concat (map secs cs))" "handed_over E ?T ?c0 0 gs (filter is_published es)" .
  have run: "w_out (after (runAsyncJob E sv job u msg voice snap) s) = w_out s @ around sv [] job msg voice es"
    using out es o3 by (simp add: around_def)
  have gs2: "handed_over E ?T ?c0 0 gs (filter is_published (around sv [] job msg voice es))"
    using gs(2) around_simps(2) [of "[]" sv job msg voice es] by simp
  have "list_all snd gs" if "calm s"
    using smooth_accepted [OF keepsD [OF smooth_runAsyncJob smooth_start [OF that]] run gs2] .
  then show ?thesis using run r gs(1) gs2 j unfolding db by blast
qed

section \<open>Slots and gauge\<close>

lemma emits_write_chunk: "emits served (write_chunk fl pcm)"
  by (rule emitsI) (simp only: write_chunk_def, (intro keeps_intros; simp add: served_def))

lemma served_quiet: "quiet e \<Longrightarrow> served e"
  by (cases e) (auto simp: served_def bills_def quiet_def)

lemma served_bills: "bills e \<Longrightarrow> served e"
  by (cases e) (auto simp: served_def)

lemmas emits_served =
  emits_mono [OF emits_first_chunk served_quiet] emits_mono [OF emits_refresh_due served_quiet]
  emits_mono [OF emits_bill served_bills] emits_mono [OF emits_settle served_bills] emits_write_chunk

lemma emits_stream_chunk: "emits served (stream_chunk E sv u fl start c st)"
  by (rule emitsI) (simp only: stream_chunk_def, (intro keeps_intros emits_served [THEN emits_keeps]))

lemma emits_stream_deliver: "emits served (stream_deliver E sv u fl rid snap stream)"
  by (rule emitsI) (simp only: stream_deliver_def,
    (intro keeps_intros emits_served [THEN emits_keeps] emits_stream_chunk [THEN emits_keeps]))

lemma emits_async_chunk: "emits bills (async_chunk E snap start c st)"
  by (rule emitsI) (simp only: async_chunk_def,
    (intro keeps_intros emits_mono [OF emits_first_chunk quiet_bills, THEN emits_keeps] emits_bill [THEN emits_keeps]))

lemma emits_async_deliver: "emits bills (async_deliver E sv job u snap stream)"
  by (rule emitsI) (simp only: async_deliver_def,
    (intro keeps_intros emits_async_chunk [THEN emits_keeps] emits_settle [THEN emits_keeps]))

lemma StreamTTS_balanced:
  "\<exists>es. w_out (after (StreamTTS E sv r) s) = w_out s @ es \<and>
     (list_all quiet es \<or>
      (\<exists>pre rid msg voice body. es = around sv pre rid msg voice body \<and> list_all quiet pre \<and> list_all served body))"
proof (cases "rq_user r")
  case None
  then show ?thesis by (intro exI [of _ "[]"]) (simp add: StreamTTS_def with_user_def UserFromContext_def)
next
  case (Some v)
  show ?thesis
  proof (cases "\<exists>snap req. result (admit E sv (ID v)) s = Inr snap \<and>
      unmarshal TTSRequest_step TTSRequest0 (rq_body r) = Some req \<and>
      result (acquireSynthesis sv) (after (admit E sv (ID v)) s) = None")
    case True
    then obtain snap req where a: "result (admit E sv (ID v)) s = Inr snap"
      "unmarshal TTSRequest_step TTSRequest0 (rq_body r) = Some req"
      "result (acquireSynthesis sv) (after (admit E sv (ID v)) s) = None" by blast
    show ?thesis
    proof (rule StreamTTS_ran [OF Some a])
      fix pre rid s3
      assume pre: "list_all quiet pre"
        and o3: "w_out s3 = w_out s @ pre @ slot_taken sv @ [Gauge_inc, Rpc_synth rid (tr_Text req) (voice_of req)]"
        and run: "case rpc_synthesize (Inference sv) rid (tr_Text req) (voice_of req) of
          Inl err \<Rightarrow> result (StreamTTS E sv r) s = http_error (Error E err) 502 \<and>
            w_out (after (StreamTTS E sv r) s) = w_out s3 @ stream_ended sv
        | Inr stream \<Rightarrow> result (StreamTTS E sv r) s = streamed \<and>
            w_out (after (StreamTTS E sv r) s) =
              w_out (after (stream_deliver E sv (ID v) (rq_flusher r) rid snap stream) s3) @ stream_ended sv"
      show ?thesis
      proof (cases "rpc_synthesize (Inference sv) rid (tr_Text req) (voice_of req)")
        case (Inl err)
        then have "w_out (after (StreamTTS E sv r) s) = w_out s @ around sv pre rid (tr_Text req) (voice_of req) []"
          using run o3 by (simp add: around_def)
        then show ?thesis using pre by (metis list.pred_inject(1))
      next
        case (Inr stream)
        obtain es where "w_out (after (stream_deliver E sv (ID v) (rq_flusher r) rid snap stream) s3) = w_out s3 @ es"
          "list_all served es" using emits_stream_deliver by (rule emitsD)
        then have "w_out (after (StreamTTS E sv r) s) = w_out s @ around sv pre rid (tr_Text req) (voice_of req) es"
          using run Inr o3 by (simp add: around_def)
        then show ?thesis using pre \<open>list_all served es\<close> by blast
      qed
    qed
  next
    case False
    then obtain resp snap where "result (admit E sv (ID v)) s = Inl resp \<or>
      result (admit E sv (ID v)) s = Inr snap \<and>
        (case unmarshal TTSRequest_step TTSRequest0 (rq_body r) of
           None \<Rightarrow> True
         | Some req \<Rightarrow> result (acquireSynthesis sv) (after (admit E sv (ID v)) s) \<noteq> None)"
      by (cases "result (admit E sv (ID v)) s"; cases "unmarshal TTSRequest_step TTSRequest0 (rq_body r)") auto
    from StreamTTS_refused [OF Some this] show ?thesis by blast
  qed
qed

lemma runAsyncJob_balanced:
  "\<exists>body. w_out (after (runAsyncJob E sv job u msg voice snap) s) = w_out s @ around sv [] job msg voice body \<and>
     list_all bills body"
proof -
  obtain s3 where o3: "w_out s3 = w_out s @ slot_taken sv @ [Gauge_inc, Rpc_synth job msg voice]"
    and out: "w_out (after (runAsyncJob E sv job u msg voice snap) s) =
      w_out (after (case rpc_synthesize (Inference sv) job msg voice of
          Inl err \<Rightarrow> do { _ \<leftarrow> pg (set_failed job (Error E err)); ret () }
        | Inr stream \<Rightarrow> async_deliver E sv job u snap stream) s3) @ stream_ended sv"
    by (rule runAsyncJob_run)
  have "\<exists>body. w_out (after (case rpc_synthesize (Inference sv) job msg voice of
          Inl err \<Rightarrow> do { _ \<leftarrow> pg (set_failed job (Error E err)); ret () }
        | Inr stream \<Rightarrow> async_deliver E sv job u snap stream) s3) = w_out s3 @ body \<and> list_all bills body"
  proof (cases "rpc_synthesize (Inference sv) job msg voice")
    case (Inr stream)
    then show ?thesis using emits_async_deliver [of E sv job u snap stream] by (auto elim: emitsD)
  qed auto
  then show ?thesis using out o3 by (auto simp: around_def)
qed

text \<open>
  C12: Synthesis slots and the gauge of streams in flight are returned on every path.  A request for
  a stream either only reads the wallet, or takes one slot, raises the gauge, opens one inference
  stream, delivers, lowers the gauge and gives the slot back, in this order; a job does the latter.
  Inference is never asked without a slot.
\<close>

theorem slots_and_gauge_balanced:
  "(\<exists>es. w_out (after (StreamTTS E sv r) s) = w_out s @ es \<and>
     (list_all quiet es \<or>
      (\<exists>pre rid msg voice body. es = around sv pre rid msg voice body \<and> list_all quiet pre \<and> list_all served body)))
   \<and> (\<exists>body. w_out (after (runAsyncJob E sv job u msg voice snap) s) = w_out s @ around sv [] job msg voice body \<and>
        list_all bills body)"
  using StreamTTS_balanced runAsyncJob_balanced by blast

section \<open>A refresh that fails\<close>

lemma stream_chunk_unpaid:
  assumes "flt_le (fsub (v_budget st) (chunk_cost (PricePerAudioMinuteUSD (v_snap st)) c)) f0"
  shows "fst (result (stream_chunk E sv u fl start c st) s) = Some insufficient_balance"
    and "w_out (after (stream_chunk E sv u fl start c st) s) = w_out (after (first_chunk ''http_stream'' start st) s)"
  using assms by (simp_all add: stream_chunk_def Let_def)

text \<open>
  C40: A refresh that fails ends the stream.  The handler drops the error and goes on with the zero
  snapshot, so from then on, whatever the wallet holds, no chunk is delivered.
\<close>

theorem failed_refresh_ends_stream:
  assumes due: "DeliveryRefreshStream (Cfg sv) \<le> w_clk s 0 - v_lastRefresh st"
    and fails: "result (Refresh E (Wallets sv) u) (after (since (v_lastRefresh st)) s) = Inl err"
    and ok: "list_all chunk_ok (chunks_of stream)"
  shows "\<exists>es. w_out (after (CopyAudioStream Request stream (stream_chunk E sv u fl start)
      (result (refresh_due E sv u st) s)) (after (refresh_due E sv u st) s)) = w_out (after (refresh_due E sv u st) s) @ es
    \<and> delivered es = []"
proof -
  define st' where "st' = result (refresh_due E sv u st) s"
  define s' where "s' = after (ctx_done Request) (after (refresh_due E sv u st) s)"
  have st': "v_budget st' = Fin 0" "PricePerAudioMinuteUSD (v_snap st') = Fin 0"
    using due fails by (simp_all add: st'_def refresh_due_def Let_def snap0_def)
  have "\<exists>es. w_out (after (CopyAudioStream Request stream (stream_chunk E sv u fl start) st') (after (refresh_due E sv u st) s))
      = w_out s' @ es \<and> delivered es = []"
  proof (cases "result (ctx_done Request) (after (refresh_due E sv u st) s) = None \<and> (\<exists>c rest. stream = Chunk c # rest)")
    case False
    then have "w_out (after (CopyAudioStream Request stream (stream_chunk E sv u fl start) st') (after (refresh_due E sv u st) s))
        = w_out s'"
      by (cases stream) (auto simp: s'_def split: option.splits recv.splits)
    then show ?thesis by simp
  next
    case True
    then obtain c rest where c: "stream = Chunk c # rest" by blast
    have "flt_le (fsub (Fin 0) (chunk_cost (Fin 0) c)) f0"
    proof (rule chunk_cost_cases [of c 0])
      fix k assume "chunk_cost (Fin 0) c = Fin k" "0 \<le> k"
      then show ?thesis using f64_mono [of "- k" 0] by (simp add: fsub_def)
    qed (use ok c in \<open>auto simp: fsub_def\<close>)
    then have "flt_le (fsub (v_budget st') (chunk_cost (PricePerAudioMinuteUSD (v_snap st')) c)) f0"
      unfolding st' .
    note stop = stream_chunk_unpaid [OF this, of E sv u fl start s']
    obtain err st2 where r: "result (stream_chunk E sv u fl start c st') s' = (Some err, st2)"
      using stop(1) by (metis prod.collapse)
    obtain es where "w_out (after (first_chunk ''http_stream'' start st') s') = w_out s' @ es" "list_all quiet es"
      using emits_first_chunk by (rule emitsD)
    then show ?thesis using True c stop(2) r quiet_all(1) by (auto simp: s'_def)
  qed
  then show ?thesis by (simp add: st'_def s'_def)
qed

section \<open>Jobs are private\<close>

lemma status_text_completed [simp]: "status_text st = ''completed'' \<longleftrightarrow> st = Completed"
  by (cases st) simp_all

lemma select_job_result:
  "fst (select_job i uid d) =
     (case tts_jobs d i of Some j \<Rightarrow> if j_user j = uid then Inr j else Inl NoRows | None \<Rightarrow> Inl NoRows)"
  by (simp add: select_job_def split: option.splits)

text \<open>
  C25: A job and its audio are shown to its owner only.  To anyone else it looks like a job that does
  not exist; and audio is sent exactly when the job is the caller's, completed and not empty (and the
  query did not fail), and then it is the stored file.
\<close>

theorem jobs_are_private:
  assumes "rq_user r = Some u"
  shows "((\<forall>j. tts_jobs (w_db s) i = Some j \<longrightarrow> j_user j \<noteq> ID u) \<longrightarrow>
      result (GetAsyncJob i r) s = http_error ''not found'' 404 \<and>
      result (GetAsyncJobAudio i r) s = http_error ''not found'' 404)
    \<and> (rs_body (result (GetAsyncJobAudio i r) s) = Bytes b \<longleftrightarrow>
        w_orc s 0 = 0 \<and> b \<noteq> [] \<and>
        (\<exists>j. tts_jobs (w_db s) i = Some j \<and> j_user j = ID u \<and> j_status j = Completed \<and> j_audio j = Some b))"
  using assms
  by (auto simp: GetAsyncJob_def GetAsyncJobAudio_def with_user_def UserFromContext_def result_pg select_job_result
      http_error_def Let_def split: sum.splits option.splits if_splits)

section \<open>A concrete server\<close>

text \<open>One minute of audio at one sample a second.\<close>

definition chunk0 :: AudioChunk where
  "chunk0 = \<lparr>Pcm = replicate 120 0, SampleRate = 1, Seq = 0\<rparr>"

definition inference0 :: Client where
  "inference0 = \<lparr>rpc_health = Inr (True, ''vllm''), rpc_synthesize = (\<lambda>_ _ _. Inr [Chunk chunk0]), rpc_live = None\<rparr>"

definition sv0 :: "mem Server" where
  "sv0 = \<lparr>Wallets = wc0, Inference = inference0, LimiterStore = store0, Synth = True, Cfg = Load (\<lambda>_. []), Live = None\<rparr>"

definition tts_request :: request where
  "tts_request = request0\<lparr>rq_user := Some \<lparr>ID = ''u'', Username = ''dev''\<rparr>,
     rq_body := Some (JObj [(''text'', JStr ''hi'')])\<rparr>"

lemma wire0: "wire_lawful (Inference sv0)"
  by (auto simp: wire_lawful_def sv0_def inference0_def chunk0_def chunk_ok_def in_int64_def)

lemma calm_world_u: "calm world_u"
  by (simp add: calm_def)

lemma admit_world_u: "result (admit mem_env sv0 ''u'') world_u = Inr snap_u"
proof -
  have "result (Get mem_env (Wallets sv0) ''u'') world_u = Inr snap_u" using Get_world_u by (simp add: sv0_def)
  then show ?thesis by (simp add: admit_def HasBalance_def snap_u_def)
qed

lemma tts_request_read:
  "unmarshal TTSRequest_step TTSRequest0 (rq_body tts_request) = Some \<lparr>tr_Text = ''hi'', tr_Voice = None\<rparr>"
  by (simp add: tts_request_def TTSRequest_step_def TTSRequest0_def)

lemma streamed_world_u: "result (StreamTTS mem_env sv0 tts_request) world_u = streamed"
proof -
  have u: "rq_user tts_request = Some \<lparr>ID = ''u'', Username = ''dev''\<rparr>" by (simp add: tts_request_def)
  have "calm (after (admit mem_env sv0 ''u'') world_u)" by (rule keepsD [OF calm_kept(12) calm_world_u])
  then have acq: "result (acquireSynthesis sv0) (after (admit mem_env sv0 ''u'') world_u) = None"
    by (simp add: acquireSynthesis_def acquire_slot_def ctx_done_def calm_def)
  show ?thesis
    by (rule StreamTTS_ran [OF u, where E = mem_env and s = world_u and sv = sv0])
      (use admit_world_u tts_request_read acq in \<open>auto simp: sv0_def inference0_def\<close>)
qed

lemma encodes_world_u: "encodes mem_env (range (w_clk world_u))"
  by (auto simp: encodes_def mem_env_simps in_int64_def)

theorem stream_bills_what_it_delivers_witness:
  "\<exists>es rid txt voice stream cs rest gs.
    w_out (after (StreamTTS mem_env sv0 tts_request) world_u) = w_out world_u @ es \<and>
    Rpc_synth rid txt voice \<in> set es \<and> rpc_synthesize (Inference sv0) rid txt voice = Inr stream \<and>
    chunks_of stream = cs @ rest \<and> delivered es = map Pcm cs \<and> grouped (map fst gs) (concat (map secs cs)) \<and>
    handed_over mem_env (range (w_clk world_u)) (NewCoalescer ''u'' rid ''http_stream'' (BillingCoalesce (Cfg sv0))) 0 gs
      (filter is_published es) \<and> list_all snd gs"
  using stream_bills_what_it_delivers [OF _ wire0 streamed_world_u encodes_world_u, of "\<lparr>ID = ''u'', Username = ''dev''\<rparr>"]
    calm_world_u
  by (simp add: tts_request_def)

theorem stream_within_budget_witness:
  "\<exists>es cs. w_out (after (StreamTTS mem_env sv0 tts_request) world_u) = w_out world_u @ es \<and>
     delivered es = map Pcm cs \<and> paid_for 20 1 cs"
  by (rule stream_within_budget [OF _ wire0 streamed_world_u, where u = "\<lparr>ID = ''u'', Username = ''dev''\<rparr>"
      and snap = snap_u and lo = 0])
    (use admit_world_u in \<open>simp_all add: tts_request_def snap_u_def is64_numeral clk_within_def sv0_def Load_def
      envInt_def times_def second_def wrap64_def del: is64.simps\<close>)

theorem async_job_bills_what_it_stores_witness:
  "\<exists>es cs rest gs. w_out (after (runAsyncJob mem_env sv0 ''j'' ''u'' ''hi'' ''tara'' snap_u) world_u) = w_out world_u @ es \<and>
    chunks_of [Chunk chunk0] = cs @ rest \<and> paid_for 20 1 cs \<and> grouped (map fst gs) (concat (map secs cs)) \<and>
    handed_over mem_env (range (w_clk world_u)) (NewCoalescer ''u'' ''j'' ''http_async'' (BillingCoalesce (Cfg sv0))) 0 gs
      (filter is_published es) \<and>
    (calm world_u \<longrightarrow> list_all snd gs) \<and>
    jobs_after ''j'' cs (chunks_of [Chunk chunk0]) (w_db world_u)
      (w_db (after (runAsyncJob mem_env sv0 ''j'' ''u'' ''hi'' ''tara'' snap_u) world_u))"
  by (rule async_job_bills_what_it_stores [OF wire0])
    (simp_all add: sv0_def inference0_def snap_u_def is64_numeral encodes_world_u [simplified] del: is64.simps)

theorem jobs_are_private_witness:
  "result (GetAsyncJob ''j'' tts_request) world_u = http_error ''not found'' 404"
  using jobs_are_private [of tts_request "\<lparr>ID = ''u'', Username = ''dev''\<rparr>" world_u "''j''"]
  by (simp add: tts_request_def)

text \<open>A minute later, with the database gone.\<close>

definition world_down :: "mem world" where
  "world_down = world_u\<lparr>w_orc := (\<lambda>_. 1), w_clk := (\<lambda>_. 60 * second)\<rparr>"

theorem failed_refresh_ends_stream_witness:
  "\<exists>es. w_out (after (CopyAudioStream Request [Chunk chunk0] (stream_chunk mem_env sv0 ''u'' True 0)
      (result (refresh_due mem_env sv0 ''u'' (stream_vars0 sv0 ''u'' ''r'' snap_u 0)) world_down))
      (after (refresh_due mem_env sv0 ''u'' (stream_vars0 sv0 ''u'' ''r'' snap_u 0)) world_down))
    = w_out (after (refresh_due mem_env sv0 ''u'' (stream_vars0 sv0 ''u'' ''r'' snap_u 0)) world_down) @ es
    \<and> delivered es = []"
proof (rule failed_refresh_ends_stream [where err = "PgError ConnFailed"])
  show "DeliveryRefreshStream (Cfg sv0) \<le> w_clk world_down 0 - v_lastRefresh (stream_vars0 sv0 ''u'' ''r'' snap_u 0)"
    by (simp add: sv0_def Load_def envInt_def times_def second_def wrap64_def world_down_def stream_vars0_def)
  show "result (Refresh mem_env (Wallets sv0) ''u'') (after (since (v_lastRefresh (stream_vars0 sv0 ''u'' ''r'' snap_u 0))) world_down)
      = Inl (PgError ConnFailed)"
    by (simp add: Refresh_def Invalidate_def loadL2OrDB_def mem_env_simps mem0_def mem_step_def cached_snap_def loadDB_def
        result_pg Let_def world_down_def)
qed (simp add: chunk0_def chunk_ok_def in_int64_def)

end
