(* ===== verification/Live.thy ===== *)
theory Live
  imports Server Billing Gen
begin

text \<open>
  \<open>api/internal/ws/live.go\<close>: the live session over a WebSocket.  \<open>ServeHTTP\<close> admits the client and
  then runs two goroutines: the main loop, which reads the client's messages, and the reader, which
  hands the audio of the inference stream to the client.  They share the budget, the coalescer, the
  current utterance, the connection and the cancellation of the session's context.

  Each goroutine is a step function on the shared session, between two accesses to shared variables
  or calls: a section under the mutex is one step, the update of the budget (which no
  mutex protects) is a load and a store.  \<open>live_step\<close> interleaves the two.  What the client sends and
  what inference answers are the two lists of the session; a goroutine that blocks is one that takes
  no step.
\<close>

section \<open>Messages\<close>

record inbound =
  in_Type :: string
  in_Text :: string
  in_Final :: bool
  in_Voice :: string

definition inbound0 :: inbound where
  "inbound0 = \<lparr>in_Type = [], in_Text = [], in_Final = False, in_Voice = []\<rparr>"

definition inbound_step :: "inbound \<Rightarrow> string \<Rightarrow> json \<Rightarrow> inbound option" where
  "inbound_step m k v =
     (if key_is ''type'' k then map_option (\<lambda>x. m\<lparr>in_Type := x\<rparr>) (dec_string (in_Type m) v)
      else if key_is ''text'' k then map_option (\<lambda>x. m\<lparr>in_Text := x\<rparr>) (dec_string (in_Text m) v)
      else if key_is ''final'' k then map_option (\<lambda>x. m\<lparr>in_Final := x\<rparr>) (dec_bool (in_Final m) v)
      else if key_is ''voice'' k then map_option (\<lambda>x. m\<lparr>in_Voice := x\<rparr>) (dec_string (in_Voice m) v)
      else Some m)"

record control =
  c_Type :: string
  c_Message :: string
  c_TTFBMs :: int
  c_Error :: string
  c_DeliveredAudioSeconds :: float64

definition control_of :: "string \<Rightarrow> control" where
  "control_of t = \<lparr>c_Type = t, c_Message = [], c_TTFBMs = 0, c_Error = [], c_DeliveredAudioSeconds = f0\<rparr>"

definition enc_control :: "control \<Rightarrow> json option" where
  "enc_control c = obj
     [always ''type'' (enc_str (c_Type c)),
      if c_Message c = [] then Some [] else always ''message'' (enc_str (c_Message c)),
      if c_TTFBMs c = 0 then Some [] else always ''ttfb_ms'' (enc_int (c_TTFBMs c)),
      if c_Error c = [] then Some [] else always ''error'' (enc_str (c_Error c)),
      if c_DeliveredAudioSeconds c = f0 then Some []
      else always ''delivered_audio_seconds'' (enc_f64 (c_DeliveredAudioSeconds c))]"

text \<open>A control message that cannot be encoded is not written.\<close>

definition WriteJSON :: "control \<Rightarrow> ('v, unit) io" where
  "WriteJSON c = (case enc_control c of None \<Rightarrow> ret () | Some j \<Rightarrow> emit (Ws_json j))"

section \<open>Utterances\<close>

record utteranceMetrics =
  ut_start :: instant
  ut_lastPCM :: instant
  ut_audioSec :: float64
  ut_firstByte :: bool
  ut_active :: bool

definition utt0 :: utteranceMetrics where
  "utt0 = \<lparr>ut_start = zero_time, ut_lastPCM = zero_time, ut_audioSec = f0, ut_firstByte = False, ut_active = False\<rparr>"

definition reset :: "utteranceMetrics \<Rightarrow> utteranceMetrics" where
  "reset utt = utt\<lparr>ut_active := False, ut_firstByte := False, ut_audioSec := f0\<rparr>"

definition flushUtterance :: "utteranceMetrics \<Rightarrow> ('v, utteranceMetrics) io" where
  "flushUtterance utt =
     (if \<not> ut_active utt \<or> flt_le (ut_audioSec utt) f0 then ret (reset utt)
      else do {
        stop \<leftarrow> (if ut_lastPCM utt = zero_time then now else ret (ut_lastPCM utt));
        let proc = dur_seconds (stop - ut_start utt);
        _ \<leftarrow> (if flt_less f0 proc then do {
                _ \<leftarrow> observe RTF [''websocket''] (fdiv proc (ut_audioSec utt));
                observe RequestDuration [''/v1/tts/live'', ''websocket''] proc
              } else ret ());
        ret (reset utt)
      })"

section \<open>The session\<close>

record LiveHandler =
  h_Inference :: Client
  h_Wallets :: WalletCache
  h_Synth :: bool
  h_Coalesce :: duration
  h_RefreshBal :: duration
  h_MetricsWalletPerUser :: bool

text \<open>Where the main loop and the reader are.\<close>

datatype main_pc =
    M_read
  | M_final inbound
  | M_send inbound
  | M_refresh
  | M_set WalletSnapshot
  | M_end
  | M_flush
  | M_observe
  | M_done
  | M_exit
  | M_gone

datatype reader_pc =
    R_top
  | R_recv
  | R_utterance
  | R_report float64
  | R_meter AudioChunk
  | R_load AudioChunk
  | R_store AudioChunk float64
  | R_test AudioChunk
  | R_notice
  | R_close
  | R_write AudioChunk
  | R_bill AudioChunk
  | R_gone

record 'v session =
  s_main :: main_pc
  s_reader :: reader_pc
  s_user :: uuid
  s_request :: string
  s_price :: float64
  s_budget :: float64
  s_lastRefresh :: instant
  s_voice :: string
  s_total :: float64
  s_utt :: utteranceMetrics
  s_coal :: Coalescer
  s_cancelled :: bool
  s_closed :: bool
  s_msgs :: "doc list"
  s_in :: "recv list"
  s_world :: "'v world"

text \<open>Run a call on the session's world.\<close>

definition call :: "('v, 'a) io \<Rightarrow> 'v session \<Rightarrow> 'a \<times> 'v session" where
  "call m s = (result m (s_world s), s\<lparr>s_world := after m (s_world s)\<rparr>)"

definition does :: "('v, unit) io \<Rightarrow> 'v session \<Rightarrow> 'v session" where
  "does m s = s\<lparr>s_world := after m (s_world s)\<rparr>"

subsection \<open>The reader\<close>

definition chunk_seconds :: "AudioChunk \<Rightarrow> float64" where
  "chunk_seconds c = SecondsFromPCM (int (length (Pcm c))) (SampleRate c)"

text \<open>The first section under the mutex: the utterance's first byte, its seconds, the total.\<close>

definition meter :: "AudioChunk \<Rightarrow> utteranceMetrics \<Rightarrow> ('v, utteranceMetrics) io" where
  "meter c utt = do {
     utt \<leftarrow> (if ut_active utt \<and> \<not> ut_firstByte utt then do {
                ttfb \<leftarrow> since (ut_start utt);
                _ \<leftarrow> WriteJSON ((control_of ''metadata'')\<lparr>c_TTFBMs := dur_millis ttfb\<rparr>);
                _ \<leftarrow> observe TTFB [''websocket''] (dur_seconds ttfb);
                ret (utt\<lparr>ut_firstByte := True\<rparr>)
              } else ret utt);
     if ut_active utt then do {
       t \<leftarrow> now;
       ret (utt\<lparr>ut_audioSec := fadd (ut_audioSec utt) (chunk_seconds c), ut_lastPCM := t\<rparr>)
     } else ret utt
   }"

fun reader_step :: "'v env \<Rightarrow> 'v session \<Rightarrow> 'v session option" where
  "reader_step E s =
     (case s_reader s of
        R_top \<Rightarrow>
          (let (d, s') = call (ctx_done Request) s
           in Some (s'\<lparr>s_reader := (if s_cancelled s \<or> d \<noteq> None then R_gone else R_recv)\<rparr>))
      | R_recv \<Rightarrow>
          (case s_in s of
             [] \<Rightarrow> Some (s\<lparr>s_reader := R_gone\<rparr>)
           | Recv_error _ # rs \<Rightarrow> Some (s\<lparr>s_reader := R_gone, s_in := rs\<rparr>)
           | Chunk c # rs \<Rightarrow>
               Some (s\<lparr>s_in := rs,
                 s_reader := (if Seq c < 0 then R_utterance else if Pcm c = [] then R_top else R_meter c)\<rparr>))
      | R_utterance \<Rightarrow>
          (let (utt, s') = call (flushUtterance (s_utt s)) s
           in Some (s'\<lparr>s_utt := utt, s_reader := R_report (ut_audioSec (s_utt s))\<rparr>))
      | R_report audio \<Rightarrow>
          Some (does (WriteJSON ((control_of ''utterance_done'')\<lparr>c_DeliveredAudioSeconds := audio\<rparr>))
            (s\<lparr>s_reader := R_top\<rparr>))
      | R_meter c \<Rightarrow>
          (let (utt, s') = call (meter c (s_utt s)) s
           in Some (s'\<lparr>s_utt := utt, s_total := fadd (s_total s) (chunk_seconds c), s_reader := R_load c\<rparr>))
      | R_load c \<Rightarrow> Some (s\<lparr>s_reader := R_store c (fsub (s_budget s) (CostForSeconds (chunk_seconds c) (s_price s)))\<rparr>)
      | R_store c b \<Rightarrow> Some (s\<lparr>s_budget := b, s_reader := R_test c\<rparr>)
      | R_test c \<Rightarrow> Some (s\<lparr>s_reader := (if flt_le (s_budget s) f0 then R_notice else R_write c)\<rparr>)
      | R_notice \<Rightarrow>
          Some (does (WriteJSON ((control_of ''insufficient_balance'')
              \<lparr>c_Message := ''delivery budget exhausted'', c_DeliveredAudioSeconds := s_total s\<rparr>))
            (s\<lparr>s_reader := R_close\<rparr>))
      | R_close \<Rightarrow>
          Some (does (emit (Ws_close 4020 ''insufficient_balance'')) (s\<lparr>s_cancelled := True, s_reader := R_gone\<rparr>))
      | R_write c \<Rightarrow>
          (let (n, s') = call draw s; ok = (n = 0 \<and> \<not> s_closed s)
           in Some (does (emit (Ws_binary (Pcm c) ok)) (s'\<lparr>s_reader := (if ok then R_bill c else R_gone)\<rparr>)))
      | R_bill c \<Rightarrow>
          (let ((_, coal), s') = call (AddPCM E (s_coal s) (int (length (Pcm c))) (SampleRate c)) s
           in Some (does (observe Metrics.AudioSeconds [''websocket''] (chunk_seconds c))
                (s'\<lparr>s_coal := coal, s_reader := R_top\<rparr>)))
      | R_gone \<Rightarrow> None)"

subsection \<open>The main loop\<close>

text \<open>A message that is not a text, or whose text is blank, is skipped; a voice is kept in both cases.\<close>

definition on_text :: "doc \<Rightarrow> 'v session \<Rightarrow> 'v session" where
  "on_text d s =
     (case unmarshal inbound_step inbound0 d of
        None \<Rightarrow> s
      | Some m \<Rightarrow>
          if in_Type m \<noteq> ''text'' then s
          else
            let s' = (if in_Voice m \<noteq> [] then s\<lparr>s_voice := in_Voice m\<rparr> else s)
            in if trim_space (in_Text m) = [] then s'
               else s'\<lparr>s_main := (if in_Final m then M_final m else M_send m)\<rparr>)"

text \<open>The deferred calls: the connection is closed by the fields of the session.\<close>

definition leave :: "LiveHandler \<Rightarrow> ('v, unit) io" where
  "leave h = do { _ \<leftarrow> emit Gauge_dec; release_slot (h_Synth h) }"

fun main_step :: "'v env \<Rightarrow> LiveHandler \<Rightarrow> 'v session \<Rightarrow> 'v session option" where
  "main_step E h s =
     (case s_main s of
        M_read \<Rightarrow>
          (case s_msgs s of
             [] \<Rightarrow> Some (s\<lparr>s_main := M_end\<rparr>)
           | m # ms \<Rightarrow> Some (on_text m (s\<lparr>s_msgs := ms\<rparr>)))
      | M_final m \<Rightarrow>
          (let (_, s1) = call (flushUtterance (s_utt s)) s;
               (t, s2) = call now s1
           in Some (s2\<lparr>s_utt := utt0\<lparr>ut_start := t, ut_active := True\<rparr>, s_main := M_send m\<rparr>))
      | M_send m \<Rightarrow>
          (let (e, s') = call (SendText (s_request s) (in_Text m) (s_voice s) (in_Final m)) s
           in Some (case e of
                Some err \<Rightarrow> does (WriteJSON ((control_of ''error'')\<lparr>c_Error := Error E err\<rparr>)) (s'\<lparr>s_main := M_read\<rparr>)
              | None \<Rightarrow> s'\<lparr>s_main := M_refresh\<rparr>))
      | M_refresh \<Rightarrow>
          (let (d, s1) = call (since (s_lastRefresh s)) s
           in if h_RefreshBal h \<le> d
              then (let (q, s2) = call (Refresh E (h_Wallets h) (s_user s)) s1
                    in Some (s2\<lparr>s_main := M_set (case q of Inl _ \<Rightarrow> snap0 | Inr w \<Rightarrow> w)\<rparr>))
              else Some (s1\<lparr>s_main := M_read\<rparr>))
      | M_set snap \<Rightarrow>
          (let (t, s') = call now (s\<lparr>s_budget := BalanceUSD snap\<rparr>)
           in Some (does (observeWallet E (h_Wallets h) (h_MetricsWalletPerUser h) (s_user s))
                (s'\<lparr>s_lastRefresh := t, s_main := M_read\<rparr>)))
      | M_end \<Rightarrow>
          (let (utt, s') = call (flushUtterance (s_utt s)) s
           in Some (s'\<lparr>s_utt := utt, s_main := M_flush\<rparr>))
      | M_flush \<Rightarrow>
          (let ((_, coal), s') = call (Flush E (s_coal s)) s
           in Some (s'\<lparr>s_coal := coal, s_main := M_observe\<rparr>))
      | M_observe \<Rightarrow>
          Some (does (observeWallet E (h_Wallets h) (h_MetricsWalletPerUser h) (s_user s)) (s\<lparr>s_main := M_done\<rparr>))
      | M_done \<Rightarrow>
          Some (does (WriteJSON ((control_of ''done'')\<lparr>c_DeliveredAudioSeconds := s_total s\<rparr>)) (s\<lparr>s_main := M_exit\<rparr>))
      | M_exit \<Rightarrow> Some (does (do { _ \<leftarrow> CloseSend; leave h }) (s\<lparr>s_cancelled := True, s_closed := True, s_main := M_gone\<rparr>))
      | M_gone \<Rightarrow> None)"

subsection \<open>Admission\<close>

text \<open>
  \<open>Refused\<close> carries the response; \<open>Ended\<close> is a connection that was upgraded, or whose upgrade was
  answered by the upgrader, and closed before a session began.
\<close>

datatype 'v live_start = Refused response | Ended | Session "'v session"

definition session_of ::
  "LiveHandler \<Rightarrow> uuid \<Rightarrow> string \<Rightarrow> WalletSnapshot \<Rightarrow> instant \<Rightarrow> doc list \<Rightarrow> recv list \<Rightarrow> 'v world \<Rightarrow> 'v session" where
  "session_of h u rid snap t msgs inp w =
     \<lparr>s_main = M_read, s_reader = R_top, s_user = u, s_request = rid, s_price = PricePerAudioMinuteUSD snap,
      s_budget = BalanceUSD snap, s_lastRefresh = t, s_voice = ''tara'', s_total = f0, s_utt = utt0,
      s_coal = NewCoalescer u rid ''websocket'' (h_Coalesce h), s_cancelled = False, s_closed = False,
      s_msgs = msgs, s_in = inp, s_world = w\<rparr>"

definition open_live :: "LiveHandler \<Rightarrow> User \<Rightarrow> 'v env \<Rightarrow> ('v, (string \<times> instant) option) io" where
  "open_live h u E = do {
     _ \<leftarrow> emit Gauge_inc;
     up \<leftarrow> draw;
     if up \<noteq> 0 then do { _ \<leftarrow> leave h; ret None }
     else do {
       rid \<leftarrow> new_uuid;
       _ \<leftarrow> WriteJSON (control_of ''ready'');
       case SynthesizeLive (h_Inference h) of
         Some err \<Rightarrow> do {
           _ \<leftarrow> WriteJSON ((control_of ''error'')\<lparr>c_Error := Error E err\<rparr>);
           _ \<leftarrow> leave h;
           ret None
         }
       | None \<Rightarrow> do { t \<leftarrow> now; ret (Some (rid, t)) }
     }
   }"

definition ServeHTTP ::
  "'v env \<Rightarrow> LiveHandler \<Rightarrow> request \<Rightarrow> doc list \<Rightarrow> recv list \<Rightarrow> 'v world \<Rightarrow> 'v live_start \<times> 'v world" where
  "ServeHTTP E h r msgs inp w =
     (case UserFromContext r of
        None \<Rightarrow> (Refused (http_error ''unauthorized'' 401), w)
      | Some u \<Rightarrow>
          (let q = result (HasBalance E (h_Wallets h) (ID u)) w; w1 = after (HasBalance E (h_Wallets h) (ID u)) w
           in case q of
                Inl err \<Rightarrow> (Refused (http_error ''insufficient balance'' 402), w1)
              | Inr (ok, snap) \<Rightarrow>
                  if \<not> ok then (Refused (http_error ''insufficient balance'' 402), w1)
                  else
                    (let w2 = after (observeWallet E (h_Wallets h) (h_MetricsWalletPerUser h) (ID u)) w1;
                         full = result (acquire_slot (h_Synth h) Request) w2;
                         w3 = after (acquire_slot (h_Synth h) Request) w2
                     in case full of
                          Some err \<Rightarrow> (Refused (http_error ''synthesis capacity exceeded'' 503), w3)
                        | None \<Rightarrow>
                            (let w4 = after (open_live h u E) w3
                             in case result (open_live h u E) w3 of
                                  None \<Rightarrow> (Ended, w4)
                                | Some (rid, t) \<Rightarrow> (Session (session_of h (ID u) rid snap t msgs inp w4), w4)))))"

subsection \<open>Interleaving\<close>

inductive live_step :: "'v env \<Rightarrow> LiveHandler \<Rightarrow> 'v session \<Rightarrow> 'v session \<Rightarrow> bool" for E h where
  by_reader: "reader_step E s = Some s' \<Longrightarrow> live_step E h s s'"
| by_main: "main_step E h s = Some s' \<Longrightarrow> live_step E h s s'"

inductive live_reach :: "'v env \<Rightarrow> LiveHandler \<Rightarrow> 'v session \<Rightarrow> 'v session \<Rightarrow> bool" for E h s0 where
  here: "live_reach E h s0 s0"
| more: "live_reach E h s0 s \<Longrightarrow> live_step E h s s' \<Longrightarrow> live_reach E h s0 s'"

declare reader_step.simps [simp del] main_step.simps [simp del]

inductive_cases live_stepE [elim!]: "live_step E h s s'"

end
