(* ===== verification/LiveSafety.thy ===== *)
theory LiveSafety
  imports Live Delivery
begin

text \<open>
  What the live session guarantees under every interleaving of its two goroutines, by invariants of
  the reachable states: delivery and billing agree, an utterance's figures are consistent, the
  budget holds while it is not refreshed, an exhausted session stays silent, and every session ends
  and gives its slot back.
\<close>

section \<open>Steps and their effects\<close>

lemma call_simps [simp]:
  "fst (call m s) = result m (s_world s)" "snd (call m s) = s\<lparr>s_world := after m (s_world s)\<rparr>"
  by (simp_all add: call_def)

lemma call_split [simp]:
  "(case call m s of (x, s') \<Rightarrow> f x s') = f (result m (s_world s)) (s\<lparr>s_world := after m (s_world s)\<rparr>)"
  by (simp add: call_def)

lemma silent_effects [simp]:
  "silent (Ws_json j)" "silent (Ws_close n m)" "silent (Rpc_text a b c d e)" "silent Gauge_dec" "silent Gauge_inc"
  "silent Slot_released" "silent Slot_taken" "silent (Observed i l v)" "silent (Ws_binary p False)" "silent Rpc_close_send"
  by (simp_all add: silent_def chunk_of_def is_published_def)

lemma emits_WriteJSON: "emits silent (WriteJSON c)"
  by (rule emitsI) (simp only: WriteJSON_def, (intro keeps_intros; simp))

lemma emits_flushUtterance: "emits silent (flushUtterance utt)"
  by (rule emitsI) (simp only: flushUtterance_def observe_def, (intro keeps_intros; simp))

lemma emits_meter: "emits silent (meter c utt)"
  by (rule emitsI) (simp only: meter_def observe_def, (intro keeps_intros emits_keeps [OF emits_WriteJSON]; simp))

lemma emits_SendText: "emits silent (SendText a b c d)"
  by (rule emitsI) (simp only: SendText_def, (intro keeps_intros; simp))

lemma emits_leave: "emits silent (leave h)"
  by (rule emitsI) (simp only: leave_def release_slot_def, (intro keeps_intros; simp))

lemma emits_CloseSend: "emits silent CloseSend"
  by (rule emitsI) (simp only: CloseSend_def, (intro keeps_intros; simp))

lemma emits_emit: "P e \<Longrightarrow> emits P (emit e)"
  by (rule emitsI) (intro keeps_intros)

lemma emits_nothing: "emits P now" "emits P draw" "emits P (since t)" "emits P (ctx_done ctx)"
  by (rule emitsI, intro keeps_intros)+

lemmas emits_silent = emits_WriteJSON emits_flushUtterance emits_meter emits_SendText emits_leave emits_CloseSend emits_nothing
  emits_mono [OF emits_observe quiet_silent] emits_mono [OF emits_Refresh quiet_silent]
  emits_mono [OF emits_observeWallet quiet_silent]

lemmas silent_after = accounted_silent [OF _ emits_emit] accounted_silent [OF _ emits_silent(1)] accounted_silent [OF _ emits_silent(2)]
  accounted_silent [OF _ emits_silent(3)] accounted_silent [OF _ emits_silent(4)]
  accounted_silent [OF _ emits_silent(5)] accounted_silent [OF _ emits_silent(6)]
  accounted_silent [OF _ emits_silent(7)] accounted_silent [OF _ emits_silent(8)]
  accounted_silent [OF _ emits_silent(9)] accounted_silent [OF _ emits_silent(10)]
  accounted_silent [OF _ emits_silent(11)] accounted_silent [OF _ emits_silent(12)] accounted_silent [OF _ emits_silent(13)]

text \<open>The calls a step makes are kept folded where only their effects matter.\<close>

lemmas folded_calls = after_now after_since after_draw after_emit after_observe

section \<open>Delivery and billing\<close>

text \<open>Between the write of a chunk and its billing the chunk is pending.\<close>

definition pending :: "reader_pc \<Rightarrow> AudioChunk list" where
  "pending r = (case r of R_bill c \<Rightarrow> [c] | _ \<Rightarrow> [])"

definition acc_at :: "'v env \<Rightarrow> instant set \<Rightarrow> Coalescer \<Rightarrow> effect list \<Rightarrow> AudioChunk list \<Rightarrow> 'v session \<Rightarrow> bool" where
  "acc_at E T c0 old cs s \<longleftrightarrow> accounted E T c0 old (cs @ pending (s_reader s)) cs (s_coal s) (s_world s)"

lemma on_text_frame [simp]:
  "s_reader (on_text d s) = s_reader s" "s_coal (on_text d s) = s_coal s" "s_world (on_text d s) = s_world s"
  "s_budget (on_text d s) = s_budget s" "s_price (on_text d s) = s_price s" "s_in (on_text d s) = s_in s"
  "s_lastRefresh (on_text d s) = s_lastRefresh s" "s_utt (on_text d s) = s_utt s" "s_msgs (on_text d s) = s_msgs s"
  "s_total (on_text d s) = s_total s" "s_cancelled (on_text d s) = s_cancelled s" "s_closed (on_text d s) = s_closed s"
  by (auto simp: on_text_def Let_def split: option.splits)

lemma acc_main:
  assumes "acc_at E T c0 old cs s" and "main_step E h s = Some s'"
  shows "acc_at E T c0 old cs s'"
proof (cases "s_main s = M_flush")
  case True
  then show ?thesis using assms accounted_Flush [of E T c0 old "cs @ pending (s_reader s)" cs "s_coal s" "s_world s"]
    by (auto simp: main_step.simps acc_at_def split_beta)
next
  case False
  then show ?thesis using assms
    by (cases "s_main s") (auto simp: main_step.simps acc_at_def does_def Let_def silent_after
        split: if_splits list.splits option.splits simp del: folded_calls)
qed

lemma acc_reader:
  assumes inv: "acc_at E T c0 old cs s" and step: "reader_step E s = Some s'"
  shows "acc_at E T c0 old (cs @ pending (s_reader s)) s'"
proof (cases "s_reader s")
  case (R_write c)
  let ?ok = "w_orc (s_world s) 0 = 0 \<and> \<not> s_closed s"
  from inv R_write obtain es where es: "w_out (s_world s) = old @ es" "delivered es = map Pcm cs"
    "billed E T c0 (s_coal s) (concat (map secs cs)) (filter is_published es)"
    unfolding acc_at_def accounted_def pending_def by auto
  have clk: "clk_in T (s_world s)" using inv by (simp add: acc_at_def accounted_def)
  have s': "s_world s' = after (emit (Ws_binary (Pcm c) ?ok)) (after draw (s_world s))" "s_coal s' = s_coal s"
    "s_reader s' = (if ?ok then R_bill c else R_gone)"
    using step R_write by (auto simp: reader_step.simps does_def Let_def)
  have "accounted E T c0 old (cs @ pending (s_reader s')) cs (s_coal s') (s_world s')"
    unfolding accounted_def using es s' clk
    by (intro conjI exI [of _ "es @ [Ws_binary (Pcm c) ?ok]"])
      (simp_all add: pending_def delivered_def chunk_of_def is_published_def clk_in_def)
  then show ?thesis using R_write by (simp add: acc_at_def pending_def)
next
  case (R_bill c)
  have "accounted E T c0 old (cs @ [c]) cs (s_coal s) (s_world s)" using inv R_bill by (simp add: acc_at_def pending_def)
  moreover have "clk_in T (s_world s)" using inv by (simp add: acc_at_def accounted_def)
  ultimately have "accounted E T c0 old ((cs @ [c]) @ []) (cs @ [c])
      (snd (result (AddPCM E (s_coal s) (int (length (Pcm c))) (Grpc.SampleRate c)) (s_world s)))
      (after (AddPCM E (s_coal s) (int (length (Pcm c))) (Grpc.SampleRate c)) (s_world s))"
    by (rule accounted_AddPCM [where ws = "[]" and ds' = "[]"]) simp_all
  with step R_bill
  show ?thesis
    by (auto simp: reader_step.simps acc_at_def does_def Let_def split_beta pending_def silent_after
        simp del: folded_calls)
qed (use inv step in \<open>auto simp: reader_step.simps acc_at_def does_def Let_def pending_def silent_after
      split: if_splits list.splits recv.splits option.splits simp del: folded_calls\<close>)

text \<open>
  Invariants indexed by the chunks billed so far: the main loop keeps the index, the reader bills
  the chunk that was pending.
\<close>

lemma live_reach_inv:
  assumes "live_reach E h s0 s" and "P [] s0"
    and main: "\<And>cs s s'. P cs s \<Longrightarrow> main_step E h s = Some s' \<Longrightarrow> P cs s'"
    and reader: "\<And>cs s s'. P cs s \<Longrightarrow> reader_step E s = Some s' \<Longrightarrow> P (cs @ pending (s_reader s)) s'"
  shows "\<exists>cs. P cs s"
  using assms(1,2)
proof (induction rule: live_reach.induct)
  case here
  then show ?case by blast
next
  case (more s s')
  then obtain cs where p: "P cs s" by blast
  from more.hyps(2) show ?case
  proof (cases rule: live_step.cases)
    case by_reader
    then show ?thesis using reader [OF p] by blast
  next
    case by_main
    then show ?thesis using main [OF p] by blast
  qed
qed

text \<open>The chunk the reader holds, and what it has taken from the stream.\<close>

definition held :: "reader_pc \<Rightarrow> AudioChunk list" where
  "held r = (case r of R_meter c \<Rightarrow> [c] | R_load c \<Rightarrow> [c] | R_store c _ \<Rightarrow> [c] | R_test c \<Rightarrow> [c]
     | R_write c \<Rightarrow> [c] | R_bill c \<Rightarrow> [c] | _ \<Rightarrow> [])"

definition taken :: "recv list \<Rightarrow> AudioChunk list \<Rightarrow> 'v session \<Rightarrow> bool" where
  "taken inp cs s \<longleftrightarrow>
     (\<exists>pre. chunks_of inp = pre @ chunks_of (s_in s) \<and> subseq (cs @ held (s_reader s)) pre)"

lemma subseq_snoc: "subseq xs ys \<Longrightarrow> subseq xs (ys @ zs)"
  using list_emb_append_mono [of "(=)" xs ys "[]" zs] by simp

lemma subseq_left: "subseq (xs @ zs) ys \<Longrightarrow> subseq xs ys"
  by (rule subseq_order.trans [OF subseq_snoc [OF subseq_order.refl]])

lemma taken_main: "taken inp cs s \<Longrightarrow> main_step E h s = Some s' \<Longrightarrow> taken inp cs s'"
  by (cases "s_main s") (auto simp: main_step.simps taken_def does_def Let_def split_beta split: if_splits list.splits option.splits)

lemma taken_reader:
  assumes inv: "taken inp cs s" and step: "reader_step E s = Some s'"
  shows "taken inp (cs @ pending (s_reader s)) s'"
proof (cases "s_reader s")
  case R_recv
  from inv obtain pre where pre: "chunks_of inp = pre @ chunks_of (s_in s)" "subseq cs pre"
    using R_recv by (auto simp: taken_def held_def)
  show ?thesis
  proof (cases "\<exists>c rs. s_in s = Chunk c # rs")
    case True
    then obtain c rs where c: "s_in s = Chunk c # rs" by blast
    then have "chunks_of inp = (pre @ [c]) @ chunks_of rs" "subseq (cs @ [c]) (pre @ [c])" "subseq cs (pre @ [c])"
      using pre subseq_snoc by simp_all
    then show ?thesis using step R_recv c
      by (auto simp: reader_step.simps taken_def held_def pending_def)
  next
    case False
    then show ?thesis using step R_recv pre
      by (auto simp: reader_step.simps taken_def held_def pending_def split: list.splits recv.splits)
  qed
qed (use inv step in \<open>auto simp: reader_step.simps taken_def held_def pending_def does_def Let_def split_beta
      split: if_splits dest: subseq_left\<close>)

lemma acc_start:
  "clk_in T w \<Longrightarrow> acc_at E T (s_coal (session_of h u rid snap t msgs inp w)) (w_out w) [] (session_of h u rid snap t msgs inp w)"
  unfolding acc_at_def session_of_def
  by (simp add: pending_def, rule accounted_start) (simp_all add: coal_fresh_def NewCoalescer_def)

text \<open>A session in a world where no call fails.\<close>

lemma smooth_live [keeps_intros]:
  "keeps (smooth old) (WriteJSON c)" "keeps (smooth old) (flushUtterance utt)" "keeps (smooth old) (meter ch utt)"
  "keeps (smooth old) (SendText a m v f)" "keeps (smooth old) (leave h)" "keeps (smooth old) CloseSend"
  "keeps (smooth old) (observe i l x)"
  unfolding meter_def WriteJSON_def flushUtterance_def SendText_def leave_def CloseSend_def release_slot_def observe_def
  by (intro keeps_intros; simp add: is_published_def)+

lemma smooth_after: "keeps (smooth old) m \<Longrightarrow> smooth old w \<Longrightarrow> smooth old (after m w)"
  by (rule keepsD)

lemma unpublished_effects [simp]: "\<not> is_published (Ws_close n m)" "\<not> is_published (Ws_binary p ok)"
  by (simp_all add: is_published_def)

lemma smooth_main:
  "smooth old (s_world s) \<Longrightarrow> main_step E h s = Some s' \<Longrightarrow> smooth old (s_world s')"
  by (cases "s_main s") (auto simp: main_step.simps does_def Let_def split_beta
      split: if_splits list.splits option.splits simp del: folded_calls intro!: smooth_after keeps_intros)

lemma smooth_reader:
  "smooth old (s_world s) \<Longrightarrow> reader_step E s = Some s' \<Longrightarrow> smooth old (s_world s')"
  by (cases "s_reader s") (auto simp: reader_step.simps does_def Let_def split_beta
      split: if_splits list.splits recv.splits option.splits simp del: folded_calls intro!: smooth_after keeps_intros)

lemma smooth_reach:
  assumes "live_reach E h s0 s" and "smooth old (s_world s0)"
  shows "smooth old (s_world s)"
  using assms
proof (induction rule: live_reach.induct)
  case (more s s')
  from more.hyps(2) show ?case
  proof (cases rule: live_step.cases)
    case by_reader
    then show ?thesis using smooth_reader more by blast
  next
    case by_main
    then show ?thesis using smooth_main more by blast
  qed
qed

text \<open>
  C3: A live session keeps account of every second it delivers, whatever the interleaving.  In every
  reachable state the chunks that reached the client are a subsequence of what inference sent, in its
  order, and their seconds, but for one chunk the reader may have written and not yet added, are, in
  order and none twice, first the groups for each of which one event was given to NATS (with, beside each
  group, whether NATS accepted it: all are where no call fails, and a refused group is lost), then the rest that
  waits in the coalescer's open window; no other seconds are in either.  The main loop's final flush leaves
  nothing waiting: with it all that was delivered by then, but for a chunk in flight, has been handed over.
  What a reader that is still at work adds later waits for a flush that may never come.
\<close>

theorem live_bills_what_it_delivers:
  assumes reach: "live_reach E h (session_of h u rid snap t msgs inp w) s"
    and ok: "list_all chunk_ok (chunks_of inp)" and enc: "encodes E (range (w_clk w))"
    and c0: "c0 = NewCoalescer u rid ''websocket'' (h_Coalesce h)"
  shows "(\<exists>cs es gs rest. w_out (s_world s) = w_out w @ es \<and> delivered es = map Pcm (cs @ pending (s_reader s)) \<and>
        subseq (cs @ pending (s_reader s)) (chunks_of inp) \<and>
        grouped (map fst gs @ (if rest = [] then [] else [rest])) (concat (map secs cs)) \<and>
        handed_over E (range (w_clk w)) c0 0 gs (filter is_published es) \<and> open_seconds (s_coal s) rest \<and>
        (calm w \<longrightarrow> list_all snd gs))
    \<and> (s_main s = M_flush \<longrightarrow>
        (\<exists>s' cs es gs. main_step E h s = Some s' \<and> w_out (s_world s') = w_out w @ es \<and>
          delivered es = map Pcm (cs @ pending (s_reader s)) \<and> grouped (map fst gs) (concat (map secs cs)) \<and>
          handed_over E (range (w_clk w)) c0 0 gs (filter is_published es) \<and> (calm w \<longrightarrow> list_all snd gs)))"
proof -
  let ?s0 = "session_of h u rid snap t msgs inp w" and ?T = "range (w_clk w)"
  let ?P = "\<lambda>cs s. acc_at E ?T c0 (w_out w) cs s \<and> taken inp cs s"
  have s0: "s_coal ?s0 = c0" "s_world ?s0 = w" by (simp_all add: session_of_def c0)
  have "clk_in ?T w" by (simp add: clk_in_def)
  then have "?P [] ?s0" using acc_start [of ?T w E h u rid snap t msgs inp] s0(1)
    by (simp add: taken_def held_def, simp add: session_of_def)
  then have "\<exists>cs. ?P cs s"
    by (intro live_reach_inv [OF reach, where P = ?P]) (blast intro: acc_main taken_main acc_reader taken_reader)+
  then obtain cs where acc: "acc_at E ?T c0 (w_out w) cs s" and tk: "taken inp cs s" by blast
  have "subseq (cs @ pending (s_reader s)) (cs @ held (s_reader s))"
    by (cases "s_reader s") (simp_all add: pending_def held_def subseq_snoc)
  moreover from tk obtain pre where "subseq (cs @ held (s_reader s)) pre" "chunks_of inp = pre @ chunks_of (s_in s)"
    unfolding taken_def by blast
  ultimately have sub: "subseq (cs @ pending (s_reader s)) (chunks_of inp)"
    using subseq_order.trans subseq_snoc by metis
  then have okc: "list_all chunk_ok cs"
    using ok list_emb_set [OF subseq_left] by (fastforce simp: list_all_iff)
  have smooth: "smooth (w_out w) (s_world s)" if "calm w"
    using smooth_reach [OF reach] smooth_start [OF that] s0(2) by simp
  have closed: "\<exists>s' cs es gs. main_step E h s = Some s' \<and> w_out (s_world s') = w_out w @ es \<and>
      delivered es = map Pcm (cs @ pending (s_reader s)) \<and> grouped (map fst gs) (concat (map secs cs)) \<and> handed_over E ?T c0 0 gs (filter is_published es) \<and> (calm w \<longrightarrow> list_all snd gs)"
    if flush: "s_main s = M_flush"
  proof -
    have a: "accounted E ?T c0 (w_out w) (cs @ pending (s_reader s)) cs (s_coal s) (s_world s)" using acc by (simp add: acc_at_def)
    define s' where "s' = s\<lparr>s_coal := snd (result (Flush E (s_coal s)) (s_world s)),
      s_world := after (Flush E (s_coal s)) (s_world s), s_main := M_observe\<rparr>"
    have st: "main_step E h s = Some s'" using flush by (simp add: main_step.simps s'_def split_beta)
    from accounted_Flush [OF a] obtain es where es: "w_out (s_world s') = w_out w @ es"
      "delivered es = map Pcm (cs @ pending (s_reader s))"
      and b: "billed E ?T c0 (s_coal s') (concat (map secs cs)) (filter is_published es)" "coal_settled (s_coal s')"
      unfolding accounted_def s'_def by auto
    from settled_closed [OF b secs_pos [OF okc]] obtain segs where
      "grouped segs (concat (map secs cs))" "flushed_as E ?T c0 0 segs (filter is_published es)"
      by (auto simp: c0 NewCoalescer_def)
    from grouped_handed_over [OF this enc secs_short [OF okc]] obtain gs where
      gs: "grouped (map fst gs) (concat (map secs cs))" "handed_over E ?T c0 0 gs (filter is_published es)" .
    have "list_all snd gs" if "calm w"
      by (rule smooth_accepted [OF smooth_main [OF smooth [OF that] st] es(1) gs(2)])
    then show ?thesis using st es gs by blast
  qed
  from acc obtain es where es: "w_out (s_world s) = w_out w @ es" "delivered es = map Pcm (cs @ pending (s_reader s))"
    "billed E ?T c0 (s_coal s) (concat (map secs cs)) (filter is_published es)" unfolding acc_at_def accounted_def by blast
  from es(3) obtain segs rest where b: "concat (map secs cs) = concat segs @ rest" "[] \<notin> set segs"
    "flushed_as E ?T c0 0 segs (filter is_published es)" "open_seconds (s_coal s) rest"
    unfolding billed_def billed_at_def by (auto simp: c0 NewCoalescer_def)
  have "\<forall>seg \<in> set segs. list_all short seg" using secs_short [OF okc] b(1) by (auto simp: list_all_iff)
  from flushed_handed_over [OF b(3) enc this] obtain gs where
    gs: "map fst gs = segs" "handed_over E ?T c0 0 gs (filter is_published es)" by blast
  have "grouped (map fst gs @ (if rest = [] then [] else [rest])) (concat (map secs cs))"
    using b(1,2) gs(1) by (auto simp: grouped_def)
  moreover have "list_all snd gs" if "calm w" by (rule smooth_accepted [OF smooth [OF that] es(1) gs(2)])
  ultimately show ?thesis using es(1,2) sub gs(2) b(4) closed by blast
qed

section \<open>Every session ends\<close>

fun reader_rank :: "reader_pc \<Rightarrow> nat" where
  "reader_rank R_gone = 0" | "reader_rank R_recv = 1" | "reader_rank R_top = 2" | "reader_rank (R_bill c) = 3"
| "reader_rank (R_write c) = 4" | "reader_rank (R_test c) = 5" | "reader_rank (R_store c b) = 6"
| "reader_rank (R_load c) = 7" | "reader_rank (R_meter c) = 8" | "reader_rank (R_report a) = 3"
| "reader_rank R_utterance = 4" | "reader_rank R_close = 1" | "reader_rank R_notice = 2"

fun main_rank :: "main_pc \<Rightarrow> nat" where
  "main_rank M_gone = 0" | "main_rank M_exit = 1" | "main_rank M_done = 2" | "main_rank M_observe = 3"
| "main_rank M_flush = 4" | "main_rank M_end = 5" | "main_rank M_read = 6" | "main_rank (M_set w) = 7"
| "main_rank M_refresh = 8" | "main_rank (M_send m) = 9" | "main_rank (M_final m) = 10"

definition work :: "'v session \<Rightarrow> nat" where
  "work s = reader_rank (s_reader s) + 8 * length (s_in s) + main_rank (s_main s) + 5 * length (s_msgs s)"

lemma main_frame:
  "main_step E h s = Some s' \<Longrightarrow> s_reader s' = s_reader s \<and> s_in s' = s_in s"
  by (cases "s_main s") (auto simp: main_step.simps does_def Let_def split_beta split: if_splits list.splits option.splits)

lemma reader_frame:
  "reader_step E s = Some s' \<Longrightarrow> s_main s' = s_main s \<and> s_msgs s' = s_msgs s"
  by (cases "s_reader s")
    (auto simp: reader_step.simps does_def Let_def split_beta split: if_splits list.splits recv.splits option.splits)

lemma on_text_main:
  "s_main s = M_read \<Longrightarrow> s_main (on_text d s) = M_read \<or> (\<exists>m. s_main (on_text d s) \<in> {M_final m, M_send m})"
  by (auto simp: on_text_def Let_def split: option.splits)

lemma main_works: "main_step E h s = Some s' \<Longrightarrow> work s' < work s"
proof (cases "s_main s")
  case M_read
  assume st: "main_step E h s = Some s'"
  show ?thesis
  proof (cases "s_msgs s")
    case Nil
    then show ?thesis using st M_read by (auto simp: main_step.simps work_def)
  next
    case (Cons d ds)
    then have "s' = on_text d (s\<lparr>s_msgs := ds\<rparr>)" using st M_read by (simp add: main_step.simps)
    moreover have "main_rank (s_main (on_text d (s\<lparr>s_msgs := ds\<rparr>))) \<le> 10"
      using on_text_main [of "s\<lparr>s_msgs := ds\<rparr>" d] M_read by auto
    ultimately show ?thesis using Cons M_read by (simp add: work_def)
  qed
qed (auto simp: main_step.simps work_def does_def Let_def split_beta split: if_splits option.splits)

lemma reader_works: "reader_step E s = Some s' \<Longrightarrow> work s' < work s"
  by (cases "s_reader s")
    (auto simp: reader_step.simps work_def does_def Let_def split_beta split: if_splits list.splits recv.splits option.splits)

lemma step_works: "live_step E h s s' \<Longrightarrow> work s' < work s"
  by (auto simp: main_works reader_works)

lemma steps_work: "(live_step E h ^^ n) s s' \<Longrightarrow> n + work s' \<le> work s"
proof (induction n arbitrary: s')
  case (Suc n)
  from Suc.prems obtain t where "(live_step E h ^^ n) s t" "live_step E h t s'" by (rule relpowp_Suc_E)
  then show ?case using Suc.IH [of t] step_works [of E h t s'] by simp
qed simp

lemma reader_enabled: "reader_step E s = None \<longleftrightarrow> s_reader s = R_gone"
  by (cases "s_reader s"; simp add: reader_step.simps Let_def split_beta split: list.splits recv.splits)

lemma main_enabled: "main_step E h s = None \<longleftrightarrow> s_main s = M_gone"
  by (cases "s_main s"; simp add: main_step.simps Let_def split_beta split: list.splits)

text \<open>What the session leaves behind for the slot limiter and the gauge.\<close>

definition admission :: "effect \<Rightarrow> bool" where
  "admission e \<longleftrightarrow> e \<in> {Gauge_inc, Gauge_dec, Slot_taken, Slot_released}"

definition left :: "LiveHandler \<Rightarrow> effect list" where
  "left h = Gauge_dec # (if h_Synth h then [Slot_released] else [])"

definition holds_slot :: "LiveHandler \<Rightarrow> effect list \<Rightarrow> 'v session \<Rightarrow> bool" where
  "holds_slot h old s \<longleftrightarrow>
     (\<exists>es. w_out (s_world s) = old @ es \<and> filter admission es = (if s_main s = M_gone then left h else []))"

definition ordinary :: "effect \<Rightarrow> bool" where
  "ordinary e \<longleftrightarrow> \<not> admission e"

lemma ordinary_quiet: "quiet e \<Longrightarrow> ordinary e" and ordinary_published: "is_published e \<Longrightarrow> ordinary e"
  by (cases e; simp add: quiet_def is_published_def ordinary_def admission_def)+

lemma ordinary_effects [simp]:
  "ordinary (Ws_json j)" "ordinary (Ws_close n m)" "ordinary (Rpc_text a b c d e)" "ordinary (Observed i l v)"
  "ordinary (Ws_binary p ok)"
  by (simp_all add: ordinary_def admission_def)

lemma emits_ordinary:
  "emits ordinary (WriteJSON c)" "emits ordinary (flushUtterance utt)" "emits ordinary (meter ch utt)"
  "emits ordinary (SendText a b d f)" "emits ordinary (now :: ('v, instant) io)" "emits ordinary (draw :: ('v, nat) io)"
  "emits ordinary (since t :: ('v, duration) io)" "emits ordinary (ctx_done ctx :: ('v, ctx_error option) io)"
  "emits ordinary (observe i l v)" "emits ordinary (Refresh E w u)" "emits ordinary (observeWallet E w m u)"
  "emits ordinary (AddPCM E co x y)" "emits ordinary (Flush E co)" "ordinary e \<Longrightarrow> emits ordinary (emit e)"
  by (rule emitsI, simp only: WriteJSON_def flushUtterance_def meter_def SendText_def observe_def, (intro keeps_intros; simp))+
    (rule emits_nothing emits_emit emits_mono [OF emits_observe ordinary_quiet] emits_mono [OF emits_Refresh ordinary_quiet]
      emits_mono [OF emits_observeWallet ordinary_quiet] emits_mono [OF emits_AddPCM ordinary_published]
      emits_mono [OF emits_Flush ordinary_published] | assumption)+

lemma main_ordinary:
  assumes "main_step E h s = Some s'" and "s_main s \<noteq> M_exit"
  shows "grew ordinary (s_world s) (s_world s') \<and> s_main s' \<noteq> M_gone"
  using assms
proof (cases "s_main s")
  case M_read
  then show ?thesis using assms on_text_main [of "s\<lparr>s_msgs := tl (s_msgs s)\<rparr>" "hd (s_msgs s)"]
    by (auto simp: main_step.simps split: list.splits)
qed (auto simp: main_step.simps does_def Let_def split_beta split: if_splits option.splits simp del: folded_calls
    intro!: grew_after emits_ordinary)

lemma reader_ordinary:
  "reader_step E s = Some s' \<Longrightarrow> grew ordinary (s_world s) (s_world s')"
  by (cases "s_reader s") (auto simp: reader_step.simps does_def Let_def split_beta
      split: if_splits list.splits recv.splits option.splits simp del: folded_calls intro!: grew_after emits_ordinary)

lemma holds_grew:
  assumes "holds_slot h old s" and "grew ordinary (s_world s) (s_world s')"
    and "s_main s' = M_gone \<longleftrightarrow> s_main s = M_gone"
  shows "holds_slot h old s'"
proof -
  from assms(1) obtain es where es: "w_out (s_world s) = old @ es"
    "filter admission es = (if s_main s = M_gone then left h else [])" unfolding holds_slot_def by blast
  from assms(2) obtain qs where qs: "w_out (s_world s') = w_out (s_world s) @ qs" "list_all ordinary qs"
    by (rule grewD)
  have "filter admission qs = []" using qs(2) by (induction qs) (auto simp: ordinary_def)
  then show ?thesis using es qs(1) assms(3) by (auto simp: holds_slot_def)
qed

lemma holds_main:
  assumes "holds_slot h old s" and "main_step E h s = Some s'"
  shows "holds_slot h old s'"
proof (cases "s_main s = M_exit")
  case True
  then have "s_main s' = M_gone" "w_out (s_world s') = w_out (s_world s) @ Rpc_close_send # left h"
    using assms(2) by (auto simp: main_step.simps does_def leave_def CloseSend_def release_slot_def left_def)
  moreover have "filter admission (Rpc_close_send # left h) = left h" by (simp add: left_def admission_def)
  ultimately show ?thesis using assms(1) True by (auto simp: holds_slot_def)
next
  case False
  moreover have "s_main s \<noteq> M_gone" using assms(2) main_enabled [of E h s] by auto
  ultimately show ?thesis using holds_grew [OF assms(1)] main_ordinary [OF assms(2)] by blast
qed

lemma holds_reader: "holds_slot h old s \<Longrightarrow> reader_step E s = Some s' \<Longrightarrow> holds_slot h old s'"
  using holds_grew reader_ordinary reader_frame by metis

lemma reach_relpow: "live_reach E h s0 s \<longleftrightarrow> (\<exists>n. (live_step E h ^^ n) s0 s)"
proof
  show "live_reach E h s0 s \<Longrightarrow> \<exists>n. (live_step E h ^^ n) s0 s"
    by (induction rule: live_reach.induct) (metis relpowp.simps(1), metis relpowp_Suc_I)
  have "(live_step E h ^^ n) s0 s \<Longrightarrow> live_reach E h s0 s" for n
  proof (induction n arbitrary: s)
    case (Suc n)
    from Suc.prems obtain t where "(live_step E h ^^ n) s0 t" "live_step E h t s" by (rule relpowp_Suc_E)
    then show ?case by (rule live_reach.more [OF Suc.IH])
  qed (simp add: live_reach.here)
  then show "\<exists>n. (live_step E h ^^ n) s0 s \<Longrightarrow> live_reach E h s0 s" by blast
qed

text \<open>
  C13: Every live session ends and gives its slot back.  For a client that sends finitely many
  messages and an inference stream of finitely many, no interleaving of the two goroutines takes
  more than \<open>8 * chunks + 5 * messages + 8\<close> steps; neither ever waits for the other; until the
  main loop has left, the gauge and the synthesis slot taken at admission stay taken, and it returns each
  of them exactly once.
\<close>

theorem live_session_ends:
  assumes s0: "s0 = session_of h u rid snap t msgs inp w"
  shows "((live_step E h ^^ n) s0 s \<longrightarrow> n \<le> 8 * length inp + 5 * length msgs + 8)
    \<and> (live_reach E h s0 s \<longrightarrow>
        ((\<nexists>s'. live_step E h s s') \<longleftrightarrow> s_main s = M_gone \<and> s_reader s = R_gone)
        \<and> (\<exists>es. w_out (s_world s) = w_out w @ es \<and> filter admission es = (if s_main s = M_gone then left h else [])))"
proof (intro conjI impI)
  assume "(live_step E h ^^ n) s0 s"
  then have "n + work s \<le> work s0" by (rule steps_work)
  then show "n \<le> 8 * length inp + 5 * length msgs + 8" by (simp add: s0 work_def session_of_def)
next
  show "(\<nexists>s'. live_step E h s s') \<longleftrightarrow> s_main s = M_gone \<and> s_reader s = R_gone"
  proof -
    have "(\<exists>s'. live_step E h s s') \<longleftrightarrow> reader_step E s \<noteq> None \<or> main_step E h s \<noteq> None"
      by (auto intro: live_step.intros)
    then show ?thesis by (simp add: reader_enabled main_enabled) blast
  qed
next
  assume reach: "live_reach E h s0 s"
  have "holds_slot h (w_out w) s0" by (simp add: holds_slot_def s0 session_of_def)
  then have "\<exists>cs :: AudioChunk list. holds_slot h (w_out w) s"
    by (intro live_reach_inv [OF reach, where P = "\<lambda>_. holds_slot h (w_out w)"]) (blast intro: holds_main holds_reader)+
  then show "\<exists>es. w_out (s_world s) = w_out w @ es \<and> filter admission es = (if s_main s = M_gone then left h else [])"
    by (simp add: holds_slot_def)
qed

section \<open>The budget\<close>

text \<open>What the reader's position says of the budget, after the chunks \<open>cs\<close>.\<close>

definition solv_at :: "rat \<Rightarrow> rat \<Rightarrow> AudioChunk list \<Rightarrow> 'v session \<Rightarrow> bool" where
  "solv_at b p cs s \<longleftrightarrow> s_price s = Fin p \<and> list_all chunk_ok (chunks_of (s_in s) @ held (s_reader s)) \<and>
     (case s_reader s of
        R_store c v \<Rightarrow> solvent b p cs (s_budget s) \<and> v = fsub (s_budget s) (chunk_cost (Fin p) c)
      | R_test c \<Rightarrow> (\<exists>bud. solvent b p cs bud \<and> s_budget s = fsub bud (chunk_cost (Fin p) c))
      | R_write c \<Rightarrow> solvent b p (cs @ [c]) (s_budget s) \<and> (\<exists>bud. solvent b p cs bud)
      | R_bill c \<Rightarrow> solvent b p (cs @ [c]) (s_budget s)
      | R_notice \<Rightarrow> \<exists>bud. solvent b p cs bud
      | R_close \<Rightarrow> \<exists>bud. solvent b p cs bud
      | R_gone \<Rightarrow> \<exists>bud. solvent b p cs bud
      | _ \<Rightarrow> solvent b p cs (s_budget s))"

lemma cost_of_chunk [simp]: "CostForSeconds (chunk_seconds c) p = chunk_cost p c"
  by (simp add: chunk_cost_def chunk_seconds_def)

lemma solv_reader:
  assumes inv: "solv_at b p cs s" and step: "reader_step E s = Some s'" and p: "0 \<le> p"
  shows "solv_at b p (cs @ pending (s_reader s)) s'"
proof (cases "s_reader s")
  case (R_test c)
  from inv R_test obtain bud where bud: "solvent b p cs bud" "s_budget s = fsub bud (chunk_cost (Fin p) c)" "chunk_ok c"
    by (auto simp: solv_at_def held_def)
  have "\<not> flt_le (s_budget s) f0 \<Longrightarrow> solvent b p (cs @ [c]) (s_budget s)"
    using bud p flt_less_le unfolding bud(2) by (intro solvent_step) blast+
  then show ?thesis using inv step R_test bud by (auto simp: reader_step.simps solv_at_def held_def pending_def)
next
  case R_recv
  then show ?thesis using inv step
    by (auto simp: reader_step.simps solv_at_def held_def pending_def split: list.splits recv.splits)
qed (use inv step in \<open>auto simp: reader_step.simps solv_at_def held_def pending_def does_def Let_def split_beta
      split: if_splits\<close>)

definition unrenewed :: "LiveHandler \<Rightarrow> instant \<Rightarrow> 'v session \<Rightarrow> bool" where
  "unrenewed h lo s \<longleftrightarrow>
     clk_within lo (lo + h_RefreshBal h) (s_world s) \<and> lo \<le> s_lastRefresh s \<and> (\<forall>w. s_main s \<noteq> M_set w)"

lemma solv_main:
  assumes "solv_at b p cs s" and "main_step E h s = Some s'" and "\<forall>w. s_main s \<noteq> M_set w"
  shows "solv_at b p cs s'"
proof -
  have "s_reader s' = s_reader s \<and> s_in s' = s_in s \<and> s_budget s' = s_budget s \<and> s_price s' = s_price s"
    using assms(2,3) by (cases "s_main s")
      (auto simp: main_step.simps does_def Let_def split_beta split: if_splits list.splits option.splits)
  then show ?thesis using assms(1) by (cases "s_reader s") (auto simp: solv_at_def)
qed

lemma clk_live [keeps_intros]:
  "keeps (clk_within lo hi) (WriteJSON c)" "keeps (clk_within lo hi) (flushUtterance utt)"
  "keeps (clk_within lo hi) (meter ch utt)" "keeps (clk_within lo hi) (SendText a m v f)"
  "keeps (clk_within lo hi) (leave h)" "keeps (clk_within lo hi) CloseSend" "keeps (clk_within lo hi) (observe i l x)"
  unfolding meter_def WriteJSON_def flushUtterance_def SendText_def leave_def CloseSend_def release_slot_def observe_def
  by (intro keeps_intros; simp)+

lemma clk_after: "keeps (clk_within lo hi) m \<Longrightarrow> clk_within lo hi w \<Longrightarrow> clk_within lo hi (after m w)"
  by (rule keepsD)

lemma unrenewed_main:
  assumes "unrenewed h lo s" and "main_step E h s = Some s'"
  shows "unrenewed h lo s'"
proof -
  have clk: "clk_within lo (lo + h_RefreshBal h) (s_world s)" and last: "lo \<le> s_lastRefresh s"
    and ns: "\<forall>w. s_main s \<noteq> M_set w" using assms(1) by (auto simp: unrenewed_def)
  have "\<not> h_RefreshBal h \<le> w_clk (s_world s) 0 - s_lastRefresh s"
    using clk last by (smt (verit) clk_within_def)
  moreover have "s_main (on_text (hd (s_msgs s)) (s\<lparr>s_msgs := tl (s_msgs s)\<rparr>)) \<noteq> M_set w" if "s_main s = M_read" for w
    using on_text_main [of "s\<lparr>s_msgs := tl (s_msgs s)\<rparr>" "hd (s_msgs s)"] that by auto
  ultimately show ?thesis using assms(2) clk last ns
    by (cases "s_main s") (auto simp: main_step.simps unrenewed_def does_def Let_def split_beta
      split: if_splits list.splits option.splits simp del: folded_calls intro!: clk_after keeps_intros)
qed

lemma unrenewed_reader:
  assumes "unrenewed h lo s" and "reader_step E s = Some s'"
  shows "unrenewed h lo s'"
  using assms by (cases "s_reader s") (auto simp: reader_step.simps unrenewed_def does_def Let_def split_beta
      split: if_splits list.splits recv.splits option.splits simp del: folded_calls intro!: clk_after keeps_intros)

text \<open>
  C10: A live session stays within the wallet it was admitted with.  While no refresh of the budget is
  due (every clock reading of the session lies within one refresh interval), under every
  interleaving the chunks delivered so far cost together no more than the admitted balance, but for the
  rounding error of one subtraction per chunk.
\<close>

theorem live_within_budget:
  assumes reach: "live_reach E h (session_of h u rid snap t msgs inp w) s"
    and ok: "list_all chunk_ok (chunks_of inp)"
    and bal: "BalanceUSD snap = Fin b" "is64 (Fin b)" "0 \<le> b"
    and price: "PricePerAudioMinuteUSD snap = Fin p" "0 \<le> p"
    and clk: "clk_within lo (lo + h_RefreshBal h) w" "lo \<le> t"
  shows "\<exists>es cs. w_out (s_world s) = w_out w @ es \<and> delivered es = map Pcm cs \<and> paid_for b p cs"
proof -
  let ?s0 = "session_of h u rid snap t msgs inp w"
  let ?c0 = "s_coal ?s0"
  let ?P = "\<lambda>cs s. acc_at E UNIV ?c0 (w_out w) cs s \<and> solv_at b p cs s \<and> unrenewed h lo s"
  have "solv_at b p [] ?s0 \<and> unrenewed h lo ?s0" using ok bal price clk solvent_start [OF bal(2,3)]
    by (auto simp: solv_at_def unrenewed_def session_of_def held_def simp del: is64.simps)
  moreover have "clk_in UNIV w" by (simp add: clk_in_def)
  ultimately have "?P [] ?s0" using acc_start by blast
  then have "\<exists>cs. ?P cs s"
  proof (rule live_reach_inv [OF reach, where P = ?P])
    show "?P cs s'" if "?P cs s" "main_step E h s = Some s'" for cs s s'
      using that acc_main solv_main unrenewed_main unfolding unrenewed_def by metis
    show "?P (cs @ pending (s_reader s)) s'" if "?P cs s" "reader_step E s = Some s'" for cs s s'
      using that acc_reader solv_reader [OF _ _ price(2)] unrenewed_reader by metis
  qed
  then obtain cs where a: "acc_at E UNIV ?c0 (w_out w) cs s" and v: "solv_at b p cs s" by blast
  from v have "\<exists>bud. solvent b p (cs @ pending (s_reader s)) bud"
    by (cases "s_reader s") (auto simp: solv_at_def pending_def)
  then have "paid_for b p (cs @ pending (s_reader s))" using solvent_paid [OF _ bal(2,3)] by blast
  then show ?thesis using a unfolding acc_at_def accounted_def by blast
qed

section \<open>An exhausted session\<close>

definition stopped :: "reader_pc \<Rightarrow> bool" where
  "stopped r \<longleftrightarrow> r \<in> {R_notice, R_close, R_gone}"

lemma acc_silent: "emits silent m \<Longrightarrow> grew silent w w' \<Longrightarrow> grew silent w (after m w')"
  by (rule grew_after)

definition voiceless :: "effect \<Rightarrow> bool" where
  "voiceless e \<longleftrightarrow> chunk_of e = []"

lemma voiceless_silent: "silent e \<Longrightarrow> voiceless e" and voiceless_published: "is_published e \<Longrightarrow> voiceless e"
  by (cases e; simp add: silent_def voiceless_def is_published_def chunk_of_def)+

lemma voiceless_close [simp]: "voiceless (Ws_close n m)"
  by (simp add: voiceless_def chunk_of_def)

lemmas emits_voiceless = emits_mono [OF _ voiceless_silent] emits_mono [OF emits_AddPCM voiceless_published]
  emits_mono [OF emits_Flush voiceless_published]

lemma stopped_main: "main_step E h s = Some s' \<Longrightarrow> grew voiceless (s_world s) (s_world s')"
  by (cases "s_main s") (auto simp: main_step.simps does_def Let_def split_beta
      split: if_splits list.splits option.splits simp del: folded_calls
      intro!: grew_after emits_voiceless emits_silent emits_emit)

lemma stopped_reader:
  "reader_step E s = Some s' \<Longrightarrow> stopped (s_reader s) \<Longrightarrow>
    stopped (s_reader s') \<and> grew voiceless (s_world s) (s_world s')"
  by (cases "s_reader s") (auto simp: reader_step.simps does_def Let_def split_beta stopped_def
      simp del: folded_calls intro!: grew_after emits_voiceless emits_silent emits_emit)

text \<open>
  C23: A session whose budget ran out delivers nothing more.  Once the reader has found the budget
  exhausted, under every interleaving, for any further messages of the client, and also when a refresh
  finds the wallet topped up, no chunk reaches the client: what the session still writes is no audio.
\<close>

theorem exhausted_session_stays_silent:
  assumes "s_reader s = R_test c" and "flt_le (s_budget s) f0"
    and "reader_step E s = Some s1" and "live_reach E h s1 s2"
  shows "\<exists>es. w_out (s_world s2) = w_out (s_world s) @ es \<and> delivered es = [] \<and> s_reader s2 \<in> {R_notice, R_close, R_gone}"
proof -
  have s1: "s_reader s1 = R_notice" "s_world s1 = s_world s" using assms(1-3) by (auto simp: reader_step.simps)
  from assms(4) have "stopped (s_reader s2) \<and> grew voiceless (s_world s1) (s_world s2)"
  proof (induction rule: live_reach.induct)
    case here
    then show ?case using s1 by (simp add: stopped_def)
  next
    case (more s s')
    from more.hyps(2) show ?case
    proof (cases rule: live_step.cases)
      case by_reader
      then show ?thesis using stopped_reader more.IH grew_trans by metis
    next
      case by_main
      then show ?thesis using stopped_main main_frame more.IH grew_trans by metis
    qed
  qed
  then obtain es where es: "w_out (s_world s2) = w_out (s_world s) @ es" "list_all voiceless es" "stopped (s_reader s2)"
    using s1 by (auto elim: grewD)
  have "delivered es = []" using es(2) by (induction es) (auto simp: delivered_def voiceless_def)
  then show ?thesis using es unfolding stopped_def by blast
qed

section \<open>Schedules\<close>

text \<open>The run a scheduler chooses: \<open>True\<close> lets the main loop take a step, \<open>False\<close> the reader.\<close>

fun follow :: "'v env \<Rightarrow> LiveHandler \<Rightarrow> bool list \<Rightarrow> 'v session \<Rightarrow> 'v session option" where
  "follow E h [] s = Some s"
| "follow E h (b # bs) s = Option.bind (if b then main_step E h s else reader_step E s) (follow E h bs)"

lemma follow_reach: "follow E h bs s1 = Some s2 \<Longrightarrow> live_reach E h s0 s1 \<Longrightarrow> live_reach E h s0 s2"
proof (induction bs arbitrary: s1)
  case (Cons b bs)
  from Cons.prems(1) obtain t where t: "(if b then main_step E h s1 else reader_step E s1) = Some t" "follow E h bs t = Some s2"
    by (auto simp: bind_eq_Some_conv)
  then have "live_step E h s1 t" by (auto intro: live_step.intros split: if_splits)
  then show ?case by (intro Cons.IH [OF t(2)] live_reach.more [OF Cons.prems(2)])
qed simp

text \<open>
  The budget is not under the mutex: a refresh that comes between the reader's load and its store is
  overwritten by the value computed from the old budget.
\<close>

lemma refresh_is_lost:
  assumes "s_reader s = R_store c b" and "s_main s = M_set snap"
  shows "\<exists>s1 s2. live_step E h s s1 \<and> s_budget s1 = BalanceUSD snap \<and> live_step E h s1 s2 \<and> s_budget s2 = b"
proof -
  obtain s1 where 1: "main_step E h s = Some s1" "s_budget s1 = BalanceUSD snap" "s_reader s1 = R_store c b"
    using assms by (simp add: main_step.simps does_def)
  obtain s2 where "reader_step E s1 = Some s2" "s_budget s2 = b" using 1(3) by (simp add: reader_step.simps)
  then show ?thesis using 1(1,2) live_step.intros by blast
qed

text \<open>The client hangs up while the reader is about to write a chunk.\<close>

definition late_chunk :: "bool list" where
  "late_chunk = replicate 6 False @ [True, True, True, False, False]"

lemma late_chunk_run:
  assumes "w_orc w = (\<lambda>_. 0)" and "w_clk w = (\<lambda>_. t0)" and "0 < h_Coalesce h" and "Pcm c \<noteq> []" and "0 \<le> Seq c"
    and sec: "\<not> flt_le (chunk_seconds c) f0" and bud: "\<not> flt_le (fsub (BalanceUSD snap) (chunk_cost (PricePerAudioMinuteUSD snap) c)) f0"
  shows "\<exists>s x. follow E h late_chunk (session_of h u rid snap t [] [Chunk c] w) = Some s \<and>
    s_main s = M_observe \<and> s_reader s = R_top \<and> \<not> s_cancelled s \<and>
    w_out (s_world s) = w_out w @ [Ws_binary (Pcm c) True, x] \<and> silent x"
  using assms
  by (simp add: late_chunk_def session_of_def main_step.simps reader_step.simps numeral_eq_Suc ctx_done_def
      meter_def utt0_def flushUtterance_def Flush_def NewCoalescer_def AddPCM_def split_beta Let_def does_def
      chunk_seconds_def chunk_cost_def observe_def bind_eq_Some_conv)

lemma leave_run:
  assumes "s_main s = M_observe" and "s_reader s = R_top"
  shows "\<exists>s'. follow E h [True, True, True, False] s = Some s' \<and> s_main s' = M_gone \<and> s_reader s' = R_gone \<and>
    grew silent (s_world s) (s_world s')"
  using assms by (auto simp: main_step.simps reader_step.simps does_def Let_def bind_eq_Some_conv
      simp del: folded_calls intro!: grew_after emits_silent)

text \<open>
  C24: A chunk delivered after the final flush is never billed.  \<open>ServeHTTP\<close> flushes the coalescer
  without waiting for the reader: for every chunk that inference sends and the budget covers there is an
  interleaving, with nothing failing and the client hanging up at the wrong moment, in which the session
  ends, the client has the chunk, and no event was ever published for it.
\<close>

theorem late_chunk_is_never_billed:
  assumes "w_orc w = (\<lambda>_. 0)" and "w_clk w = (\<lambda>_. t0)" and "0 < h_Coalesce h" and "Pcm c \<noteq> []" and "0 \<le> Seq c"
    and "\<not> flt_le (chunk_seconds c) f0" and "\<not> flt_le (fsub (BalanceUSD snap) (chunk_cost (PricePerAudioMinuteUSD snap) c)) f0"
  shows "\<exists>s es. live_reach E h (session_of h u rid snap t [] [Chunk c] w) s \<and> s_main s = M_gone \<and> s_reader s = R_gone \<and>
    w_out (s_world s) = w_out w @ es \<and> delivered es = [Pcm c] \<and> filter is_published es = []"
proof -
  let ?s0 = "session_of h u rid snap t [] [Chunk c] w"
  from late_chunk_run [OF assms, of E u rid t] obtain s1 x where r1: "follow E h late_chunk ?s0 = Some s1"
    and s1: "s_main s1 = M_observe" "s_reader s1 = R_top"
    and out: "w_out (s_world s1) = w_out w @ [Ws_binary (Pcm c) True, x]" and x: "silent x" by blast
  from leave_run [OF s1] obtain s2 where r2: "follow E h [True, True, True, False] s1 = Some s2"
    and s2: "s_main s2 = M_gone" "s_reader s2 = R_gone" "grew silent (s_world s1) (s_world s2)" by blast
  from s2(3) obtain qs where qs: "w_out (s_world s2) = w_out (s_world s1) @ qs" "list_all silent qs"
    by (rule grewD)
  have "live_reach E h ?s0 s2" by (rule follow_reach [OF r2 follow_reach [OF r1 live_reach.here]])
  moreover have "list_all silent (x # qs)" using x qs(2) by simp
  note silent_all [OF this]
  then have "delivered (Ws_binary (Pcm c) True # x # qs) = [Pcm c]" "filter is_published (Ws_binary (Pcm c) True # x # qs) = []"
    by (simp_all add: delivered_def chunk_of_def is_published_def)
  ultimately show ?thesis using s2 qs out by (intro exI [of _ s2] exI [of _ "Ws_binary (Pcm c) True # x # qs"]) simp
qed

section \<open>Utterances\<close>

definition utt_ok :: "utteranceMetrics \<Rightarrow> bool" where
  "utt_ok utt \<longleftrightarrow> flt_le f0 (ut_audioSec utt) \<and> (ut_audioSec utt \<noteq> f0 \<longrightarrow> ut_active utt) \<and>
     (ut_audioSec utt \<noteq> f0 \<longrightarrow> ut_firstByte utt) \<and> (ut_firstByte utt \<longrightarrow> ut_active utt)"

lemma utt_ok_reset [simp]: "utt_ok (reset utt)" "utt_ok utt0" "utt_ok (utt0\<lparr>ut_start := t, ut_active := True\<rparr>)"
  by (simp_all add: utt_ok_def reset_def utt0_def)

lemma flushUtterance_reset [simp]: "result (flushUtterance utt) w = reset utt"
  by (simp add: flushUtterance_def Let_def)

lemma f64_le_PosInf: "flt_le (f64 x) PosInf"
  by (cases x rule: f64_cases) simp_all

lemma fadd_mono: "flt_le f0 a \<Longrightarrow> flt_le a b \<Longrightarrow> flt_le f0 c \<Longrightarrow> flt_le (fadd a c) (fadd b c)"
  by (cases a; cases b; cases c) (auto intro: f64_mono simp: f64_le_PosInf)

lemma chunk_seconds_nonneg: "chunk_ok c \<Longrightarrow> flt_le f0 (chunk_seconds c)"
  unfolding chunk_seconds_def by (rule SecondsFromPCM_nonneg) (simp_all add: chunk_ok_def)

definition utt_at :: "'v session \<Rightarrow> bool" where
  "utt_at s \<longleftrightarrow> list_all chunk_ok (chunks_of (s_in s) @ held (s_reader s)) \<and> utt_ok (s_utt s) \<and>
     flt_le f0 (s_total s) \<and> flt_le (ut_audioSec (s_utt s)) (s_total s) \<and>
     (\<forall>a. s_reader s = R_report a \<longrightarrow> flt_le f0 a \<and> flt_le a (s_total s))"

lemma reset_audio [simp]: "ut_audioSec (reset utt) = f0" "ut_audioSec utt0 = f0"
  by (simp_all add: reset_def utt0_def)

lemma meter_result:
  "ut_active utt \<Longrightarrow> \<exists>t. result (meter c utt) w = utt\<lparr>ut_firstByte := True,
      ut_audioSec := fadd (ut_audioSec utt) (chunk_seconds c), ut_lastPCM := t\<rparr>"
  "\<not> ut_active utt \<Longrightarrow> result (meter c utt) w = utt"
  by (cases utt; cases "ut_firstByte utt"; auto simp: meter_def Let_def)+

lemma utt_main:
  assumes "utt_at s" and "main_step E h s = Some s'"
  shows "utt_at s'"
  using assms by (cases "s_main s") (auto simp: main_step.simps utt_at_def does_def Let_def split_beta
      split: if_splits list.splits option.splits)

lemma utt_reader:
  assumes inv: "utt_at s" and "reader_step E s = Some s'"
  shows "utt_at s'"
proof (cases "s_reader s")
  case (R_meter c)
  let ?utt = "s_utt s"
  have sec: "flt_le f0 (chunk_seconds c)" using inv R_meter chunk_seconds_nonneg [of c] by (auto simp: utt_at_def held_def)
  have inv': "utt_ok ?utt" "flt_le f0 (s_total s)" "flt_le (ut_audioSec ?utt) (s_total s)" using inv by (auto simp: utt_at_def)
  have total: "flt_le f0 (fadd (s_total s) (chunk_seconds c))" using inv'(2) sec by (rule fadd_nonneg)
  have "utt_ok (result (meter c ?utt) (s_world s)) \<and>
      flt_le (ut_audioSec (result (meter c ?utt) (s_world s))) (fadd (s_total s) (chunk_seconds c))"
  proof (cases "ut_active ?utt")
    case True
    from meter_result(1) [OF this] obtain t where "result (meter c ?utt) (s_world s) = ?utt\<lparr>ut_firstByte := True,
      ut_audioSec := fadd (ut_audioSec ?utt) (chunk_seconds c), ut_lastPCM := t\<rparr>" by blast
    then show ?thesis using True inv' sec fadd_mono fadd_nonneg by (auto simp: utt_ok_def)
  next
    case False
    then have "ut_audioSec ?utt = f0" using inv' by (auto simp: utt_ok_def)
    moreover have "result (meter c ?utt) (s_world s) = ?utt" using False by (rule meter_result(2))
    ultimately show ?thesis using inv' total by simp
  qed
  then show ?thesis using assms R_meter total by (auto simp: reader_step.simps utt_at_def held_def Let_def split_beta)
next
  case R_recv
  then show ?thesis using assms by (auto simp: reader_step.simps utt_at_def held_def split: list.splits recv.splits if_splits)
next
  case R_utterance
  have "flt_le f0 (ut_audioSec (s_utt s))" using inv by (simp add: utt_at_def utt_ok_def)
  then show ?thesis using assms R_utterance by (auto simp: reader_step.simps utt_at_def held_def Let_def)
qed (use assms in \<open>auto simp: reader_step.simps utt_at_def held_def does_def Let_def split_beta split: if_splits\<close>)

text \<open>
  The figures a live session reports are well formed.  In every reachable state an utterance has
  seconds only while it is active and after its first byte was announced, its seconds and the session's
  total are not negative (nor NaN), and neither the running utterance nor the figure of an
  \<open>utterance_done\<close> about to be sent exceeds the total.
\<close>

theorem live_figures_well_formed:
  assumes "live_reach E h (session_of h u rid snap t msgs inp w) s"
    and "list_all chunk_ok (chunks_of inp)"
  shows "utt_ok (s_utt s) \<and> flt_le f0 (s_total s) \<and> flt_le (ut_audioSec (s_utt s)) (s_total s) \<and>
    (s_reader s = R_report a \<longrightarrow> flt_le f0 a \<and> flt_le a (s_total s))"
proof -
  have "utt_at (session_of h u rid snap t msgs inp w)" using assms(2) by (simp add: utt_at_def session_of_def held_def)
  then have "\<exists>cs :: AudioChunk list. utt_at s"
    by (rule live_reach_inv [OF assms(1), where P = "\<lambda>_. utt_at"]) (rule utt_main utt_reader; assumption)+
  then show ?thesis by (auto simp: utt_at_def)
qed

section \<open>A concrete session\<close>

definition live0 :: LiveHandler where
  "live0 = \<lparr>h_Inference = inference0, h_Wallets = wc0, h_Synth = True, h_Coalesce = 300 * millisecond,
     h_RefreshBal = 30 * second, h_MetricsWalletPerUser = False\<rparr>"

definition live_u :: "doc list \<Rightarrow> recv list \<Rightarrow> mem session" where
  "live_u msgs inp = session_of live0 ''u'' ''r'' snap_u 0 msgs inp world_u"

lemma chunk0_facts [simp]:
  "chunk_ok chunk0" "Pcm chunk0 \<noteq> []" "0 \<le> Seq chunk0" "chunk_seconds chunk0 = Fin 60"
  "chunk_cost (Fin 1) chunk0 = Fin 1"
  by (simp_all add: chunk0_def chunk_ok_def in_int64_def chunk_seconds_def chunk_cost_def SecondsFromPCM_def
      CostForSeconds_def f_of_int_exact tdiv_nonneg f64_id is64_numeral del: is64.simps)

lemma live_u_late:
  obtains s x where "follow mem_env live0 late_chunk (live_u [] [Chunk chunk0]) = Some s"
    and "live_reach mem_env live0 (live_u [] [Chunk chunk0]) s" and "s_main s = M_observe" and "s_reader s = R_top"
    and "w_out (s_world s) = [Ws_binary (Pcm chunk0) True, x]" and "silent x"
proof -
  have "\<not> flt_le (fsub (BalanceUSD snap_u) (chunk_cost (PricePerAudioMinuteUSD snap_u) chunk0)) f0"
    by (simp add: snap_u_def fsub_def f64_id is64_numeral del: is64.simps)
  from late_chunk_run [OF _ _ _ _ _ _ this, of world_u 0 live0 mem_env "''u''" "''r''" 0]
  obtain s x where "follow mem_env live0 late_chunk (live_u [] [Chunk chunk0]) = Some s"
    "s_main s = M_observe" "s_reader s = R_top" "w_out (s_world s) = [Ws_binary (Pcm chunk0) True, x]" "silent x"
    by (auto simp: live_u_def live0_def millisecond_def)
  then show thesis using that follow_reach live_reach.here by metis
qed

text \<open>The witness sessions: the client has the chunk and has hung up.\<close>

definition after_chunk :: "mem session" where
  "after_chunk = the (follow mem_env live0 late_chunk (live_u [] [Chunk chunk0]))"

lemma after_chunk:
  "live_reach mem_env live0 (session_of live0 ''u'' ''r'' snap_u 0 [] [Chunk chunk0] world_u) after_chunk"
  "s_main after_chunk = M_observe" "s_reader after_chunk = R_top"
  "\<exists>x. silent x \<and> w_out (s_world after_chunk) = [Ws_binary (Pcm chunk0) True, x]"
  using live_u_late by (metis after_chunk_def option.sel live_u_def)+

theorem live_bills_what_it_delivers_witness:
  "\<exists>cs es gs rest. w_out (s_world after_chunk) = es \<and> delivered es = map Pcm cs \<and> subseq cs [chunk0] \<and>
    grouped (map fst gs @ (if rest = [] then [] else [rest])) (concat (map secs cs)) \<and>
    handed_over mem_env (range (w_clk world_u)) (NewCoalescer ''u'' ''r'' ''websocket'' (300 * millisecond)) 0 gs
      (filter is_published es) \<and> open_seconds (s_coal after_chunk) rest"
proof -
  have ok: "list_all chunk_ok (chunks_of [Chunk chunk0])" by simp
  note live = conjunct1 [OF live_bills_what_it_delivers [OF after_chunk(1) ok encodes_world_u refl]]
  have p: "pending (s_reader after_chunk) = []" by (simp add: after_chunk(3) pending_def)
  have h: "h_Coalesce live0 = 300 * millisecond" by (simp add: live0_def)
  show ?thesis using live unfolding p h world_u_simps append_Nil append_Nil2 chunks_of_simps
    by (elim exE conjE) (intro exI conjI)
qed

theorem live_session_ends_witness:
  "\<not> (live_step mem_env live0 ^^ 17) (live_u [] [Chunk chunk0]) after_chunk \<and>
    (\<exists>s'. live_step mem_env live0 after_chunk s') \<and> filter admission (w_out (s_world after_chunk)) = []"
  using live_session_ends [OF live_u_def, where E = mem_env and n = 17 and msgs = "[]" and inp = "[Chunk chunk0]" and s = after_chunk]
    after_chunk(1-3)
  by (auto simp: live_u_def)

theorem live_within_budget_witness:
  "\<exists>es cs. w_out (s_world after_chunk) = w_out world_u @ es \<and> delivered es = map Pcm cs \<and> paid_for 20 1 cs"
  by (rule live_within_budget [OF after_chunk(1), where lo = 0])
    (simp_all add: snap_u_def is64_numeral clk_within_def live0_def second_def del: is64.simps)

theorem live_figures_well_formed_witness:
  "utt_ok (s_utt after_chunk) \<and> flt_le f0 (s_total after_chunk)"
  using live_figures_well_formed [OF after_chunk(1)] by simp

theorem late_chunk_is_never_billed_witness:
  "\<exists>s es. live_reach mem_env live0 (live_u [] [Chunk chunk0]) s \<and> s_main s = M_gone \<and> s_reader s = R_gone \<and>
    w_out (s_world s) = es \<and> delivered es = [Pcm chunk0] \<and> filter is_published es = []"
  using late_chunk_is_never_billed [of world_u 0 live0 chunk0 snap_u mem_env "''u''" "''r''" 0]
  by (simp add: live_u_def live0_def millisecond_def snap_u_def fsub_def f64_id is64_numeral del: is64.simps)

text \<open>A client whose wallet covers less than the chunk.\<close>

definition broke :: "mem session" where
  "broke = (live_u [] [])\<lparr>s_reader := R_test chunk0, s_budget := Fin (- 1)\<rparr>"

theorem exhausted_session_stays_silent_witness:
  "\<exists>s1. reader_step mem_env broke = Some s1 \<and> live_reach mem_env live0 s1 s1 \<and>
    (\<exists>es. w_out (s_world s1) = w_out (s_world broke) @ es \<and> delivered es = [] \<and> s_reader s1 \<in> {R_notice, R_close, R_gone})"
proof -
  have 1: "s_reader broke = R_test chunk0" "flt_le (s_budget broke) f0" by (simp_all add: broke_def)
  then obtain s1 where 2: "reader_step mem_env broke = Some s1" by (simp add: reader_step.simps)
  show ?thesis using exhausted_session_stays_silent [OF 1 2 live_reach.here [of mem_env live0 s1]] 2 live_reach.here by blast
qed

end
