(* ===== verification/Assets.thy ===== *)
theory Assets
  imports Http
begin

text \<open>
  \<open>api/internal/docs\<close> and \<open>api/internal/ui\<close>: the API's documentation and the built web client, which are
  embedded in the binary, and what the two handlers use of \<open>net/http\<close>: \<open>StripPrefix\<close>, a \<open>ServeMux\<close> with
  an exact pattern and the pattern of everything, \<open>FileServer\<close> and \<open>ServeFileFS\<close>.  A path of a request is
  one whose escaped form is the path itself.  The embedded file system gives the node with a name
  under \<open>dist\<close>; the answer to a request for the contents of a file (the media type, which comes from
  the host's tables, ranges and conditions) is the parameter \<open>content\<close>.
\<close>

section \<open>Paths\<close>

fun split_path :: "string \<Rightarrow> string list" where
  "split_path [] = [[]]"
| "split_path (c # cs) =
     (if c = CHR ''/'' then [] # split_path cs
      else (c # hd (split_path cs)) # tl (split_path cs))"

text \<open>The elements of a rooted path without the empty ones, dots and what is left by double dots.\<close>

fun resolve :: "string list \<Rightarrow> string list \<Rightarrow> string list" where
  "resolve up [] = rev up"
| "resolve up (e # es) =
     (if e = [] \<or> e = ''.'' then resolve up es
      else if e = ''..'' then resolve (tl up) es
      else resolve (e # up) es)"

definition join_path :: "string list \<Rightarrow> string" where
  "join_path es = (if es = [] then ''/'' else concat (map (Cons (CHR ''/'')) es))"

definition ends_slash :: "string \<Rightarrow> bool" where
  "ends_slash p \<longleftrightarrow> p \<noteq> [] \<and> last p = CHR ''/''"

text \<open>\<open>cleanPath\<close> of \<open>net/http\<close>.\<close>

definition clean_path :: "string \<Rightarrow> string" where
  "clean_path p =
     (if p = [] then ''/''
      else let np = join_path (resolve [] (split_path p))
           in if ends_slash p \<and> np \<noteq> ''/'' then np @ ''/'' else np)"

text \<open>\<open>path.Base\<close> of a path that does not end in a slash.\<close>

definition base :: "string \<Rightarrow> string" where
  "base p = (if p = [] then ''.'' else last (split_path p))"

definition has_suffix :: "string \<Rightarrow> string \<Rightarrow> bool" where
  "has_suffix s p \<longleftrightarrow> has_prefix (rev s) (rev p)"

definition with_query :: "request \<Rightarrow> string \<Rightarrow> string" where
  "with_query r url = (if rq_rawQuery r = [] then url else url @ ''?'' @ rq_rawQuery r)"

section \<open>The documentation\<close>

fun html_escape :: "string \<Rightarrow> string" where
  "html_escape [] = []"
| "html_escape (c # cs) =
     (if c = CHR ''&'' then ''&amp;'' else if c = CHR ''<'' then ''&lt;''
      else if c = CHR ''>'' then ''&gt;'' else if c = CHR 0x22 then ''&#34;''
      else if c = CHR 0x27 then ''&#39;'' else [c]) @ html_escape cs"

text \<open>\<open>http.Redirect\<close> to a rooted and clean address.\<close>

definition moved_permanently :: "request \<Rightarrow> string \<Rightarrow> response" where
  "moved_permanently r url =
     \<lparr>rs_code = 301,
      rs_header = (''Location'', url) #
        (if rq_method r = ''GET'' \<or> rq_method r = ''HEAD'' then [(''Content-Type'', ''text/html; charset=utf-8'')] else []),
      rs_body =
        (if rq_method r = ''GET'' then Text (''<a href='' @ [CHR 0x22] @ html_escape url @ [CHR 0x22] @
           ''>Moved Permanently</a>.'' @ [CHR 0x0A, CHR 0x0A]) else Empty)\<rparr>"

definition StripPrefix :: "string \<Rightarrow> 'v handler \<Rightarrow> 'v handler" where
  "StripPrefix pre h r =
     (if pre = [] then h r
      else if has_prefix (rq_path r) pre then h (r\<lparr>rq_path := trim_prefix (rq_path r) pre\<rparr>)
      else ret (http_error ''404 page not found'' 404))"

text \<open>
  A \<open>ServeMux\<close> of handlers for exact paths, with one for everything else: a path that is not clean is
  redirected to the clean one.
\<close>

definition serve_mux :: "(string \<times> 'v handler) list \<Rightarrow> 'v handler \<Rightarrow> 'v handler" where
  "serve_mux exact rest r =
     (let p = clean_path (rq_path r)
      in if p \<noteq> rq_path r then ret (moved_permanently r (with_query r p))
         else case map_of exact p of Some h \<Rightarrow> h r | None \<Rightarrow> rest r)"

text \<open>The page, line by line.\<close>

definition swaggerHTML :: string where
  "swaggerHTML = tl (concat (map (Cons (CHR 0x0A))
     [''<!DOCTYPE html>'',
      ''<html>'',
      ''<head>'',
      ''  <title>TTS Platform API</title>'',
      ''  <link rel=\"stylesheet\" href=\"https://unpkg.com/swagger-ui-dist@5/swagger-ui.css\">'',
      ''</head>'',
      ''<body>'',
      ''<div id=\"swagger-ui\"></div>'',
      ''<script src=\"https://unpkg.com/swagger-ui-dist@5/swagger-ui-bundle.js\"></script>'',
      ''<script>'',
      ''SwaggerUIBundle({ url: '' @ [CHR 0x27] @ ''/docs/openapi.yaml'' @ [CHR 0x27] @ '', dom_id: '' @ [CHR 0x27] @ ''#swagger-ui'' @ [CHR 0x27] @ '' });'',
      ''</script>'',
      ''</body>'',
      ''</html>'']))"

text \<open>The document \<open>openapi.yaml\<close> is embedded when the program is built.\<close>

definition docs_Handler :: "byte list \<Rightarrow> 'v handler" where
  "docs_Handler spec = serve_mux
     [(''/openapi.yaml'', \<lambda>_. ret \<lparr>rs_code = 200, rs_header = [(''Content-Type'', ''application/yaml'')], rs_body = Bytes spec\<rparr>)]
     (\<lambda>_. ret \<lparr>rs_code = 200, rs_header = [(''Content-Type'', ''text/html; charset=utf-8'')], rs_body = Text swaggerHTML\<rparr>)"

section \<open>The user interface\<close>

datatype node = File "byte list" | Dir

type_synonym fsys = "string \<Rightarrow> node option"

text \<open>\<open>fs.ValidPath\<close>, which \<open>Open\<close> demands.\<close>

definition valid_path :: "string \<Rightarrow> bool" where
  "valid_path p \<longleftrightarrow> p = ''.'' \<or> (\<forall>e \<in> set (split_path p). e \<noteq> [] \<and> e \<noteq> ''.'' \<and> e \<noteq> ''..'')"

definition Open :: "fsys \<Rightarrow> string \<Rightarrow> node option" where
  "Open fs p = (if valid_path p then fs p else None)"

definition local_redirect :: "request \<Rightarrow> string \<Rightarrow> response" where
  "local_redirect r url = \<lparr>rs_code = 301, rs_header = [(''Location'', with_query r url)], rs_body = Empty\<rparr>"

type_synonym content = "request \<Rightarrow> string \<Rightarrow> byte list \<Rightarrow> response"

definition index_page :: string where
  "index_page = ''/index.html''"

text \<open>
  \<open>FileServer\<close> on a path with the node \<open>Open\<close> found for it: such a path does not end in a slash, so a
  directory is never listed, only redirected.
\<close>

definition file_server :: "content \<Rightarrow> node \<Rightarrow> request \<Rightarrow> response" where
  "file_server content nd r =
     (let upath = (if has_prefix (rq_path r) ''/'' then rq_path r else ''/'' @ rq_path r)
      in if has_suffix upath index_page then local_redirect r ''./''
         else case nd of
           Dir \<Rightarrow> local_redirect r (base upath @ ''/'')
         | File b \<Rightarrow> content r (base upath) b)"

text \<open>\<open>ServeFileFS\<close> for \<open>name\<close>.\<close>

definition dot_dot :: "string \<Rightarrow> bool" where
  "dot_dot p \<longleftrightarrow> ''..'' \<in> set (split_path (map (\<lambda>c. if c = CHR 0x5C then CHR ''/'' else c) p))"

definition serve_file_fs :: "content \<Rightarrow> fsys \<Rightarrow> string \<Rightarrow> request \<Rightarrow> response" where
  "serve_file_fs content fs name r =
     (if dot_dot (rq_path r) then http_error ''invalid URL path'' 400
      else if has_suffix (rq_path r) index_page then local_redirect r ''./''
      else case Open fs name of
        Some (File b) \<Rightarrow> content r name b
      | Some Dir \<Rightarrow> local_redirect r (base (rq_path r) @ ''/'')
      | None \<Rightarrow> http_error ''404 page not found'' 404)"

text \<open>\<open>fs.Sub\<close> fails only for a name that is no path; \<open>dist\<close> is one.\<close>

definition ui_Handler :: "content \<Rightarrow> fsys \<Rightarrow> 'v handler" where
  "ui_Handler content fs r = ret
     (let path = trim_prefix (rq_path r) ''/'';
          path = (if path = [] then ''index.html'' else path)
      in case Open fs path of
           None \<Rightarrow> serve_file_fs content fs ''index.html'' r
         | Some nd \<Rightarrow> file_server content nd r)"

section \<open>What is served\<close>

lemma docs_page: "rq_path r = ''/docs/'' \<Longrightarrow> StripPrefix ''/docs'' (docs_Handler spec) r =
    ret \<lparr>rs_code = 200, rs_header = [(''Content-Type'', ''text/html; charset=utf-8'')], rs_body = Text swaggerHTML\<rparr>"
  by (simp add: StripPrefix_def docs_Handler_def serve_mux_def clean_path_def join_path_def ends_slash_def
      has_prefix_def trim_prefix_def Let_def)

lemma docs_document: "rq_path r = ''/docs/openapi.yaml'' \<Longrightarrow> StripPrefix ''/docs'' (docs_Handler spec) r =
    ret \<lparr>rs_code = 200, rs_header = [(''Content-Type'', ''application/yaml'')], rs_body = Bytes spec\<rparr>"
  by (simp add: StripPrefix_def docs_Handler_def serve_mux_def clean_path_def join_path_def ends_slash_def
      has_prefix_def trim_prefix_def Let_def)

text \<open>Without the slash the stripped path is empty, and the clean form of that is the root of the site.\<close>

lemma docs_root_leaves: "rq_path r = ''/docs'' \<Longrightarrow> StripPrefix ''/docs'' (docs_Handler spec) r =
    ret (moved_permanently (r\<lparr>rq_path := []\<rparr>) (with_query r ''/''))"
  by (simp add: StripPrefix_def docs_Handler_def serve_mux_def clean_path_def
      has_prefix_def trim_prefix_def Let_def with_query_def)

lemma OpenD: "Open fs p = Some nd \<Longrightarrow> valid_path p \<and> fs p = Some nd"
  by (simp add: Open_def split: if_splits)

text \<open>What the user interface answers comes from the embedded files.\<close>

lemma ui_within_dist:
  "(\<exists>n nm b. result (ui_Handler content fs r) s = content r nm b \<and> valid_path n \<and> fs n = Some (File b))
    \<or> (\<exists>url. result (ui_Handler content fs r) s = local_redirect r url)
    \<or> result (ui_Handler content fs r) s = http_error ''invalid URL path'' 400
    \<or> result (ui_Handler content fs r) s = http_error ''404 page not found'' 404 \<and> Open fs ''index.html'' = None"
proof (cases "Open fs (if trim_prefix (rq_path r) ''/'' = [] then ''index.html'' else trim_prefix (rq_path r) ''/'')")
  case None
  show ?thesis
  proof (cases "Open fs ''index.html''")
    case (Some nd)
    then show ?thesis using None OpenD [OF Some]
      by (cases nd) (simp_all add: ui_Handler_def serve_file_fs_def Let_def, blast+)
  qed (use None in \<open>auto simp: ui_Handler_def serve_file_fs_def Let_def\<close>)
next
  case (Some nd)
  then show ?thesis using OpenD [OF Some] by (cases nd) (simp_all add: ui_Handler_def file_server_def Let_def, blast+)
qed

lemma ui_file:
  assumes "rq_path r = ''/'' @ p" and "p \<noteq> []" and "Open fs p = Some (File b)" and "\<not> has_suffix (rq_path r) index_page"
  shows "result (ui_Handler content fs r) s = content r (base (rq_path r)) b"
  using assms by (simp add: ui_Handler_def file_server_def Let_def has_prefix_def trim_prefix_def)

text \<open>Every other address is the application's own: it gets the index page.\<close>

lemma ui_fallback:
  assumes "rq_path r = ''/'' @ p" and "p \<noteq> []" and "Open fs p = None" and "\<not> dot_dot (rq_path r)"
    and "\<not> has_suffix (rq_path r) index_page" and "Open fs ''index.html'' = Some (File b)"
  shows "result (ui_Handler content fs r) s = content r ''index.html'' b"
  using assms by (simp add: ui_Handler_def serve_file_fs_def Let_def has_prefix_def trim_prefix_def)

end
