(* ===== verification/Router.thy ===== *)
theory Router
  imports SynthLimit Synthesis Live Assets
begin

text \<open>
  \<open>api/cmd/api/main.go\<close>: how the process is assembled from its settings, the table of its routes with the
  middleware in front of each, and the steps of its startup; and \<open>HTTPMetricsMiddleware\<close> of
  \<open>handler/server.go\<close>, which is in front of all of them.  Which registered route serves a request, and
  with which path parameters, is chi's to decide (\<open>chi\<close>), as is its answer to a method it has no route
  for; its own middleware only numbers, logs and recovers.  The metrics endpoint is the Prometheus client's, a parameter; so are the two things the
  build embeds, the API's document and the built web client.
\<close>

section \<open>Assembly\<close>

definition redisAddr :: "string \<Rightarrow> string" where
  "redisAddr valkeyURL =
     (let u = trim_prefix valkeyURL ''redis://'';
          u = (case index_byte u (CHR ''/'') of Some i \<Rightarrow> take i u | None \<Rightarrow> u)
      in if u = [] then ''localhost:6379'' else u)"

text \<open>
  A session's client and interleaving: the messages the client sends, what inference answers, and the
  state at which the session has ended.
\<close>

record 'v play =
  pl_msgs :: "request \<Rightarrow> doc list"
  pl_inp :: "request \<Rightarrow> recv list"
  pl_end :: "'v session \<Rightarrow> 'v session"

text \<open>As an HTTP handler: a connection that was taken over leaves no response to be seen.\<close>

definition live_handler :: "'v env \<Rightarrow> LiveHandler \<Rightarrow> 'v play \<Rightarrow> 'v handler" where
  "live_handler E h p r = act (\<lambda>w.
     case ServeHTTP E h r (pl_msgs p r) (pl_inp p r) w of
       (Refused resp, w') \<Rightarrow> (resp, w')
     | (Ended, w') \<Rightarrow> (no_response, w')
     | (Session s, w') \<Rightarrow> (no_response, s_world (pl_end p s)))"

record 'v platform =
  pf_slots :: Limiter
  pf_live :: LiveHandler
  pf_server :: "'v Server"
  pf_registry :: registry

definition live_of :: "Config \<Rightarrow> Client \<Rightarrow> LiveHandler" where
  "live_of cfg client =
     \<lparr>h_Inference = client, h_Wallets = NewWalletCache (PlatformDefaultPricePerMinute cfg), h_Synth = True,
      h_Coalesce = BillingCoalesce cfg, h_RefreshBal = DeliveryRefreshWS cfg,
      h_MetricsWalletPerUser = MetricsWalletPerUser cfg\<rparr>"

definition assemble :: "'v env \<Rightarrow> 'v play \<Rightarrow> Config \<Rightarrow> Client \<Rightarrow> registry \<Rightarrow> 'v platform" where
  "assemble E p cfg client reg =
     \<lparr>pf_slots = New (MaxConcurrentSynthesis cfg),
      pf_live = live_of cfg client,
      pf_server =
        \<lparr>Wallets = NewWalletCache (PlatformDefaultPricePerMinute cfg), Inference = client,
         LimiterStore = NewStore True True
           \<lparr>RPM = RateLimitRPM cfg, RPH = RateLimitRPH cfg, RPD = RateLimitRPD cfg\<rparr>,
         Synth = True, Cfg = cfg, Live = Some (live_handler E (live_of cfg client) p)\<rparr>,
      pf_registry = reg\<rparr>"

section \<open>Routes\<close>

definition server_interface :: "'v env \<Rightarrow> 'v Server \<Rightarrow> 'v ServerInterface" where
  "server_interface E sv = \<lparr>
     si_GetHealth = GetHealth, si_ListApiKeys = ListApiKeys E, si_CreateApiKey = CreateApiKey E,
     si_RevokeApiKey = RevokeApiKey, si_LoginUser = LoginUser E, si_LogoutUser = LogoutUser,
     si_RegisterUser = RegisterUser E sv, si_GetMetaVoices = GetMetaVoices,
     si_CreateAsyncTTS = CreateAsyncTTS E sv, si_GetAsyncJob = GetAsyncJob,
     si_GetAsyncJobAudio = GetAsyncJobAudio, si_LiveTTSWebSocket = LiveTTSWebSocket sv,
     si_StreamTTS = StreamTTS E sv, si_ListUsage = ListUsage E, si_GetWallet = GetWallet E sv\<rparr>"

definition HTTPMetricsMiddleware :: "'v middleware" where
  "HTTPMetricsMiddleware next r = do {
     start \<leftarrow> now;
     resp \<leftarrow> next r;
     d \<leftarrow> since start;
     _ \<leftarrow> observe HTTPDuration [rq_method r, rq_path r, itoa (rs_code resp)] (dur_seconds d);
     ret resp
   }"

text \<open>Middleware in the order of \<open>Use\<close>: the first is the outermost.\<close>

definition behind :: "'v middleware list \<Rightarrow> 'v route \<Rightarrow> 'v route" where
  "behind ms rt = rt\<lparr>rt_handler := foldr (\<lambda>m h. m h) ms (rt_handler rt)\<rparr>"

record 'v static =
  st_metrics :: "'v handler"
  st_not_allowed :: "request \<Rightarrow> response"
  st_spec :: "byte list"
  st_dist :: fsys
  st_content :: content

definition uiHandler :: "'v static \<Rightarrow> 'v handler" where
  "uiHandler st = ui_Handler (st_content st) (st_dist st)"

text \<open>
  \<open>Handle\<close> and \<open>Mount\<close> register for every method (\<open>''*''\<close>), \<open>Mount\<close> the pattern, the pattern with a slash
  and all below it; at the root these are one.
\<close>

definition mounted :: "string \<Rightarrow> string list" where
  "mounted p = (if ends_slash p then [p @ ''*''] else [p, p @ ''/'', p @ ''/*''])"

text \<open>
  A mounted router that has no route for a request falls back on its own: it takes over the \<open>NotFound\<close>
  of the router it is mounted in, or answers that the method is not allowed.  Either is behind the
  middleware of the mount.
\<close>

definition missed :: "'v static \<Rightarrow> string \<Rightarrow> 'v router" where
  "missed st p = concat (map (\<lambda>q. [route ''*'' q (uiHandler st), route ''*'' q (\<lambda>r. ret (st_not_allowed st r))]) (mounted p))"

definition open_routes :: "'v env \<Rightarrow> 'v static \<Rightarrow> 'v Server \<Rightarrow> 'v router" where
  "open_routes E st sv =
     [route ''*'' ''/metrics'' (st_metrics st)] @
     map (\<lambda>p. route ''*'' p (StripPrefix ''/docs'' (docs_Handler (st_spec st)))) (mounted ''/docs'') @
     [route ''GET'' ''/health'' GetHealth,
      route ''GET'' ''/livez'' GetHealth,
      route ''GET'' ''/v1/meta/inference'' (GetMetaInference sv),
      route ''POST'' ''/v1/auth/register'' (RegisterUser E sv),
      route ''POST'' ''/v1/auth/login'' (LoginUser E),
      route ''POST'' ''/v1/auth/logout'' LogoutUser,
      route ''GET'' ''/'' (uiHandler st),
      route ''*'' ''/assets/*'' (uiHandler st)]"

definition admin_routes :: "'v env \<Rightarrow> 'v static \<Rightarrow> 'v Server \<Rightarrow> 'v router" where
  "admin_routes E st sv = map (behind [AdminMiddleware (PlatformAdminKey (Cfg sv))])
     ([route ''GET'' ''/v1/admin/users/{userId}/rate-limit'' (AdminGetUserRateLimit E (LimiterStore sv)),
      route ''PUT'' ''/v1/admin/users/{userId}/rate-limit'' (AdminSetUserRateLimit E (LimiterStore sv)),
      route ''DELETE'' ''/v1/admin/users/{userId}/rate-limit'' (AdminDeleteUserRateLimit E (LimiterStore sv))]
     @ missed st ''/v1/admin'')"

definition account_routes :: "'v env \<Rightarrow> 'v Server \<Rightarrow> 'v router" where
  "account_routes E sv = map (behind [BearerMiddleware E])
     [route ''GET'' ''/v1/account/rate-limit'' (GetAccountRateLimit E (LimiterStore sv))]"

definition api_routes :: "'v env \<Rightarrow> bindings \<Rightarrow> 'v static \<Rightarrow> 'v Server \<Rightarrow> 'v router" where
  "api_routes E bd st sv =
     map (behind [BearerMiddleware E, rateLimitMiddleware E (Some (LimiterStore sv))])
       (HandlerFromMux bd (server_interface E sv) [] @ missed st ''/'')"

definition routes :: "'v env \<Rightarrow> bindings \<Rightarrow> 'v static \<Rightarrow> 'v Server \<Rightarrow> 'v router" where
  "routes E bd st sv = open_routes E st sv @ admin_routes E st sv @ account_routes E sv @ api_routes E bd st sv"

text \<open>What chi answers for a method and a path, given all that is registered.\<close>

datatype chi_answer = Endpoint nat "string \<Rightarrow> string" | No_route | No_method

type_synonym chi_find = "(string \<times> string) list \<Rightarrow> string \<Rightarrow> string \<Rightarrow> chi_answer"

definition dispatch :: "chi_find \<Rightarrow> 'v handler \<Rightarrow> (request \<Rightarrow> response) \<Rightarrow> 'v router \<Rightarrow> 'v handler" where
  "dispatch chi notFound notAllowed rts r =
     (case chi (map (\<lambda>rt. (rt_method rt, rt_pattern rt)) rts) (rq_method r) (rq_path r) of
        Endpoint i ps \<Rightarrow> if i < length rts then rt_handler (rts ! i) (r\<lparr>rq_param := ps\<rparr>) else notFound r
      | No_route \<Rightarrow> notFound r
      | No_method \<Rightarrow> ret (notAllowed r))"

definition router :: "'v env \<Rightarrow> bindings \<Rightarrow> chi_find \<Rightarrow> 'v static \<Rightarrow> 'v Server \<Rightarrow> 'v handler" where
  "router E bd chi st sv =
     HTTPMetricsMiddleware (dispatch chi (uiHandler st) (st_not_allowed st) (routes E bd st sv))"

section \<open>Startup\<close>

text \<open>
  \<open>db.Migrate\<close> and \<open>db.Connect\<close> of \<open>api/internal/db/db.go\<close>; the calls into the libraries draw their outcome.
  Migrating draws 0 when migrations were applied and 1 when there was nothing to apply.
\<close>

definition Migrate :: "('v, error option) io" where
  "Migrate = do {
     source \<leftarrow> draw;
     if source \<noteq> 0 then ret (Some (PgError ConnFailed))
     else do {
       up \<leftarrow> draw;
       ret (if up \<noteq> 0 \<and> up \<noteq> 1 then Some (PgError ConnFailed) else None)
     }
   }"

definition Connect :: "('v, error option) io" where
  "Connect = do {
     pool \<leftarrow> draw;
     if pool \<noteq> 0 then ret (Some (Msg ''pgx pool''))
     else do {
       ping \<leftarrow> draw;
       ret (if ping \<noteq> 0 then Some (Msg ''postgres ping'') else None)
     }
   }"

text \<open>
  \<open>registered\<close> is the default registry when the process serves; a duplicate name would be a panic.
  Valkey's ping, which only logs, and NATS draw theirs too.  \<open>Fatal\<close> is \<open>log.Fatalf\<close> with the part
  that failed.
\<close>

definition registered :: "bool \<Rightarrow> registry option" where
  "registered perUser = (if perUser then Option.bind promauto RegisterWalletBalance else promauto)"

datatype 'v started = Fatal string | Serving "'v platform" string

definition startup ::
  "'v env \<Rightarrow> 'v play \<Rightarrow> (string \<Rightarrow> bool \<Rightarrow> error + Client) \<Rightarrow> (string \<Rightarrow> string) \<Rightarrow> ('v, 'v started) io" where
  "startup E p dial getenv = do {
     let cfg = Load getenv;
     migrate \<leftarrow> Migrate;
     if migrate \<noteq> None then ret (Fatal ''migrate'')
     else do {
       pool \<leftarrow> Connect;
       if pool \<noteq> None then ret (Fatal ''db'')
       else do {
         _ \<leftarrow> draw;
         nc \<leftarrow> draw;
         if nc \<noteq> 0 then ret (Fatal ''nats'')
         else case registered (MetricsWalletPerUser cfg) of
           None \<Rightarrow> ret (Fatal ''duplicate metrics collector registration attempted'')
         | Some reg \<Rightarrow> case Dial E dial (InferenceGRPCAddr cfg) of
           Inl err \<Rightarrow> ret (Fatal ''inference grpc dial'')
         | Inr client \<Rightarrow>
             (case HealthDetail client of
                (_, _, Some err) \<Rightarrow> ret (Fatal ''inference grpc health'')
              | (_, _, None) \<Rightarrow> do {
                  q \<leftarrow> EnsureDefaultUser E (DefaultUsername cfg) (DefaultPassword cfg) (DefaultWalletUSD cfg)
                        (PlatformDefaultPricePerMinute cfg);
                  ret (case q of
                         Inl err \<Rightarrow> Fatal ''seed user''
                       | Inr (_, devKey) \<Rightarrow> Serving (assemble E p cfg client reg) devKey)
                })
       }
     }
   }"

section \<open>Who gets through\<close>

text \<open>The routes anyone may call.\<close>

definition open_patterns :: "string list" where
  "open_patterns = [''/metrics'', ''/docs'', ''/docs/'', ''/docs/*'', ''/health'', ''/livez'', ''/v1/meta/inference'', ''/v1/auth/register'',
     ''/v1/auth/login'', ''/v1/auth/logout'', ''/'', ''/assets/*'']"

definition admin_pattern :: string where
  "admin_pattern = ''/v1/admin/users/{userId}/rate-limit''"

definition admin_patterns :: "string list" where
  "admin_patterns = [admin_pattern, ''/v1/admin'', ''/v1/admin/'', ''/v1/admin/*'']"

definition account_pattern :: string where
  "account_pattern = ''/v1/account/rate-limit''"

lemma behind_simps [simp]:
  "rt_pattern (behind ms rt) = rt_pattern rt" "rt_method (behind ms rt) = rt_method rt"
  "rt_handler (behind ms rt) = foldr (\<lambda>m h. m h) ms (rt_handler rt)"
  by (simp_all add: behind_def)

lemma route_simps [simp]: "rt_pattern (route m p h) = p" "rt_handler (route m p h) = h" "rt_method (route m p h) = m"
  by (simp_all add: route_def)

lemma open_routes_patterns: "rt \<in> set (open_routes E st sv) \<Longrightarrow> rt_pattern rt \<in> set open_patterns"
  by (auto simp: open_routes_def open_patterns_def mounted_def ends_slash_def)

lemma missed_patterns:
  "rt \<in> set (missed st ''/v1/admin'') \<Longrightarrow> rt_pattern rt \<in> set admin_patterns"
  "rt \<in> set (missed st ''/'') \<Longrightarrow> rt_pattern rt = ''/*''"
  by (auto simp: missed_def mounted_def ends_slash_def admin_patterns_def)

lemma admin_routes_guarded:
  "rt \<in> set (admin_routes E st sv) \<Longrightarrow> rt_pattern rt \<in> set admin_patterns \<and>
    (\<exists>next. rt_handler rt = AdminMiddleware (PlatformAdminKey (Cfg sv)) next)"
  using missed_patterns(1) by (fastforce simp: admin_routes_def admin_pattern_def admin_patterns_def)

lemma account_routes_guarded:
  "rt \<in> set (account_routes E sv) \<Longrightarrow> rt_pattern rt = account_pattern \<and> (\<exists>next. rt_handler rt = BearerMiddleware E next)"
  by (auto simp: account_routes_def account_pattern_def)

lemma api_routes_guarded:
  "rt \<in> set (api_routes E bd st sv) \<Longrightarrow>
    rt_pattern rt \<notin> insert account_pattern (set admin_patterns) \<and>
    (\<exists>next. rt_handler rt = BearerMiddleware E (rateLimitMiddleware E (Some (LimiterStore sv)) next))"
  by (auto simp: api_routes_def HandlerFromMux_def HandlerWithOptions_def admin_patterns_def admin_pattern_def
      account_pattern_def Let_def dest: missed_patterns(2))

lemma routes_guarded:
  assumes "rt \<in> set (routes E bd st sv)" and "rt_pattern rt \<notin> set open_patterns"
  obtains (admin) nxt where "rt_pattern rt \<in> set admin_patterns"
      and "rt_handler rt = AdminMiddleware (PlatformAdminKey (Cfg sv)) nxt"
  | (account) nxt where "rt_pattern rt = account_pattern" and "rt_handler rt = BearerMiddleware E nxt"
  | (api) nxt where "rt_pattern rt \<notin> insert account_pattern (set admin_patterns)"
      and "rt_handler rt = BearerMiddleware E (rateLimitMiddleware E (Some (LimiterStore sv)) nxt)"
  using assms open_routes_patterns admin_routes_guarded account_routes_guarded api_routes_guarded
  unfolding routes_def by (metis Un_iff set_append)

text \<open>What the router does for a request that chi sends to the route \<open>i\<close>.\<close>

lemma router_run:
  fixes s :: "'v world"
  assumes "chi (map (\<lambda>rt. (rt_method rt, rt_pattern rt)) (routes E bd st sv)) (rq_method r) (rq_path r) = Endpoint i ps"
    and "i < length (routes E bd st sv)" and "h = rt_handler (routes E bd st sv ! i) (r\<lparr>rq_param := ps\<rparr>)"
    and "s1 = s\<lparr>w_clk := (\<lambda>n. w_clk s (Suc n))\<rparr>"
  shows "result (router E bd chi st sv r) s = result h s1"
    and "\<exists>x. after (router E bd chi st sv r) s = (after h s1)\<lparr>w_clk := (\<lambda>n. w_clk (after h s1) (Suc n)),
      w_out := w_out (after h s1) @ [Observed (i_Name HTTPDuration)
        [rq_method r, rq_path r, itoa (rs_code (result h s1))] x]\<rparr>"
  using assms by (auto simp: router_def dispatch_def HTTPMetricsMiddleware_def Let_def)

definition routed :: "'v env \<Rightarrow> bindings \<Rightarrow> chi_find \<Rightarrow> 'v static \<Rightarrow> 'v Server \<Rightarrow> request \<Rightarrow> 'v route \<Rightarrow> bool" where
  "routed E bd chi st sv r rt \<longleftrightarrow>
     (\<exists>i ps. chi (map (\<lambda>rt. (rt_method rt, rt_pattern rt)) (routes E bd st sv)) (rq_method r) (rq_path r) = Endpoint i ps
        \<and> i < length (routes E bd st sv) \<and> rt = routes E bd st sv ! i)"

text \<open>Nothing happened but that the request was observed with its status.\<close>

definition only_observed :: "request \<Rightarrow> int \<Rightarrow> 'v world \<Rightarrow> 'v world \<Rightarrow> bool" where
  "only_observed r code s t \<longleftrightarrow>
     w_db t = w_db s \<and> w_ext t = w_ext s \<and>
     (\<exists>x. w_out t = w_out s @ [Observed (i_Name HTTPDuration)
        [rq_method r, rq_path r, itoa code] x])"

lemma routed_obtains:
  fixes s :: "'v world"
  assumes "routed E bd chi st sv r rt"
  obtains ps s1 where "rt \<in> set (routes E bd st sv)" and "s1 = after now s" and "w_db s1 = w_db s"
    and "result (router E bd chi st sv r) s = result (rt_handler rt (r\<lparr>rq_param := ps\<rparr>)) s1"
    and "\<And>code. rs_code (result (rt_handler rt (r\<lparr>rq_param := ps\<rparr>)) s1) = code \<Longrightarrow>
      w_db (after (rt_handler rt (r\<lparr>rq_param := ps\<rparr>)) s1) = w_db s1 \<Longrightarrow>
      w_ext (after (rt_handler rt (r\<lparr>rq_param := ps\<rparr>)) s1) = w_ext s1 \<Longrightarrow>
      w_out (after (rt_handler rt (r\<lparr>rq_param := ps\<rparr>)) s1) = w_out s1 \<Longrightarrow>
      only_observed r code s (after (router E bd chi st sv r) s)"
proof -
  define s1 where "s1 = s\<lparr>w_clk := (\<lambda>n. w_clk s (Suc n))\<rparr>"
  from assms obtain i ps where c: "chi (map (\<lambda>rt. (rt_method rt, rt_pattern rt)) (routes E bd st sv)) (rq_method r) (rq_path r) = Endpoint i ps"
    and i: "i < length (routes E bd st sv)" and rt: "rt = routes E bd st sv ! i" unfolding routed_def by blast
  note run = router_run [where s = s and chi = chi and E = E and bd = bd and st = st and sv = sv and r = r and i = i and ps = ps,
      OF c i refl s1_def, folded rt]
  show thesis
  proof (rule that [of s1 ps])
    show "s1 = after now s" "w_db s1 = w_db s" by (simp_all add: s1_def)
    show "rt \<in> set (routes E bd st sv)" using i rt by simp
    show "result (router E bd chi st sv r) s = result (rt_handler rt (r\<lparr>rq_param := ps\<rparr>)) s1" by (rule run(1))
  qed (use run(2) in \<open>auto simp: only_observed_def s1_def\<close>)
qed

lemma TokenFromRequest_param [simp]: "TokenFromRequest (r\<lparr>rq_param := ps\<rparr>) = TokenFromRequest r"
  by (simp add: TokenFromRequest_def Let_def cong: if_cong)

text \<open>
  C11: No protected endpoint serves a request without a live key.  Whatever chi does with the
  parameters, every route but the listed open ones and the administrator's, that for all other paths
  included, answers 401 to a request whose token is no secret of a live key, and the database, the caches and the outside see nothing of it but the
  latency metric with that status.
\<close>

theorem protected_routes_need_a_live_key:
  assumes rt: "routed E bd chi st sv r rt" and "rt_pattern rt \<notin> set open_patterns" and "rt_pattern rt \<notin> set admin_patterns"
    and "rq_path r \<notin> set publicPaths"
    and key: "\<forall>k \<in> set (api_keys (w_db s)). k_revoked_at k = None \<longrightarrow>
      k_hash k \<noteq> HashAPIKey E (full_secret (TokenFromRequest r))"
  shows "result (router E bd chi st sv r) s = unauthorized \<and> only_observed r 401 s (after (router E bd chi st sv r) s)"
proof (rule routed_obtains [OF rt, where s = s])
  fix ps s1
  let ?r = "r\<lparr>rq_param := ps\<rparr>"
  assume mem: "rt \<in> set (routes E bd st sv)" and db: "w_db s1 = w_db s"
    and res: "result (router E bd chi st sv r) s = result (rt_handler rt ?r) s1"
    and obs: "\<And>code. rs_code (result (rt_handler rt ?r) s1) = code \<Longrightarrow> w_db (after (rt_handler rt ?r) s1) = w_db s1 \<Longrightarrow>
      w_ext (after (rt_handler rt ?r) s1) = w_ext s1 \<Longrightarrow> w_out (after (rt_handler rt ?r) s1) = w_out s1 \<Longrightarrow>
      only_observed r code s (after (router E bd chi st sv r) s)"
  obtain nxt where h: "rt_handler rt = BearerMiddleware E nxt"
    by (rule routes_guarded [OF mem assms(2)]) (use assms(3) in auto)
  have "result (rt_handler rt ?r) s1 = unauthorized \<and> w_db (after (rt_handler rt ?r) s1) = w_db s1 \<and>
      w_ext (after (rt_handler rt ?r) s1) = w_ext s1 \<and> w_out (after (rt_handler rt ?r) s1) = w_out s1"
    unfolding h using assms(4) key db
    by (intro bearer_refuses [OF _ _ refl]) simp_all
  then show ?thesis using res obs [of 401] by (simp add: unauthorized_def)
qed

text \<open>The key a request presents to the administrator's endpoints.\<close>

definition presented_key :: "request \<Rightarrow> string" where
  "presented_key r =
     (let key = rq_header r ''X-Admin-Key''; h = rq_header r ''Authorization''
      in if key = [] \<and> has_prefix h ''Bearer '' then trim_prefix h ''Bearer '' else key)"

lemma AdminMiddleware_run:
  "AdminMiddleware adminKey nxt r =
     (if adminKey = [] then ret (http_error ''admin API not configured'' 501)
      else if presented_key r \<noteq> adminKey then ret (http_error ''unauthorized'' 401) else nxt r)"
  by (simp add: AdminMiddleware_def presented_key_def Let_def)

lemma presented_key_param [simp]: "presented_key (r\<lparr>rq_param := ps\<rparr>) = presented_key r"
  by (simp add: presented_key_def Let_def cong: if_cong)

text \<open>
  C29: The administrator's endpoints, and every other path below \<open>/v1/admin\<close>, open to the administrator's
  key only.  Without a configured key they answer 501, to any other key, an empty one included, 401, and nothing is read or written; a
  user's own key is no help, as no route of theirs looks at it.
\<close>

theorem admin_routes_need_the_key:
  assumes rt: "routed E bd chi st sv r rt" and pat: "rt_pattern rt \<in> set admin_patterns"
    and key: "PlatformAdminKey (Cfg sv) = [] \<or> presented_key r \<noteq> PlatformAdminKey (Cfg sv)"
  shows "rs_code (result (router E bd chi st sv r) s) = (if PlatformAdminKey (Cfg sv) = [] then 501 else 401) \<and>
    only_observed r (if PlatformAdminKey (Cfg sv) = [] then 501 else 401) s (after (router E bd chi st sv r) s)"
proof (rule routed_obtains [OF rt, where s = s])
  fix ps s1
  let ?r = "r\<lparr>rq_param := ps\<rparr>"
  let ?code = "if PlatformAdminKey (Cfg sv) = [] then 501 else 401"
  assume mem: "rt \<in> set (routes E bd st sv)"
    and res: "result (router E bd chi st sv r) s = result (rt_handler rt ?r) s1"
    and obs: "\<And>code. rs_code (result (rt_handler rt ?r) s1) = code \<Longrightarrow> w_db (after (rt_handler rt ?r) s1) = w_db s1 \<Longrightarrow>
      w_ext (after (rt_handler rt ?r) s1) = w_ext s1 \<Longrightarrow> w_out (after (rt_handler rt ?r) s1) = w_out s1 \<Longrightarrow>
      only_observed r code s (after (router E bd chi st sv r) s)"
  have "rt_pattern rt \<notin> set open_patterns" using pat by (auto simp: admin_patterns_def open_patterns_def admin_pattern_def)
  then obtain nxt where h: "rt_handler rt = AdminMiddleware (PlatformAdminKey (Cfg sv)) nxt"
    by (rule routes_guarded [OF mem]) (use pat in \<open>auto simp: admin_patterns_def admin_pattern_def account_pattern_def\<close>)
  have "rs_code (result (rt_handler rt ?r) s1) = ?code \<and> after (rt_handler rt ?r) s1 = s1"
    unfolding h using key by (auto simp: AdminMiddleware_run)
  then show ?thesis using res obs [of ?code] by simp
qed

text \<open>
  C27: The quota stands in front of every endpoint of the API.  A user the limiter turns away gets
  429 with the time to wait on every route behind a key, except the one that shows the user's own
  limits.
\<close>

theorem quota_guards_the_api:
  assumes rt: "routed E bd chi st sv r rt"
    and pat: "rt_pattern rt \<notin> set open_patterns" "rt_pattern rt \<notin> insert account_pattern (set admin_patterns)"
    and pub: "rq_path r \<notin> set publicPaths" "TokenFromRequest r \<noteq> []"
    and user: "result (ResolveAPIKey E (TokenFromRequest r)) (after now s) = Inr u"
    and spent: "result (Allow E (LimiterStore sv) (ID u)) (after (ResolveAPIKey E (TokenFromRequest r)) (after now s)) =
      Inr (False, retry)"
  shows "result (router E bd chi st sv r) s = set_header ''Retry-After'' (RetryAfterHeader retry) (http_error ''rate limited'' 429)"
proof (rule routed_obtains [OF rt, where s = s])
  fix ps s1
  let ?r = "r\<lparr>rq_param := ps\<rparr>"
  assume mem: "rt \<in> set (routes E bd st sv)" and s1: "s1 = after now s"
    and res: "result (router E bd chi st sv r) s = result (rt_handler rt ?r) s1"
  obtain nxt where h: "rt_handler rt = BearerMiddleware E (rateLimitMiddleware E (Some (LimiterStore sv)) nxt)"
    by (rule routes_guarded [OF mem pat(1)]) (use pat(2) in auto)
  show ?thesis using res pub user spent unfolding s1 [symmetric]
    by (simp add: h BearerMiddleware_def rateLimitMiddleware_def UserFromContext_def WithUser_def Let_def)
qed

section \<open>What startup guarantees\<close>

definition named :: "string \<Rightarrow> db \<Rightarrow> bool" where
  "named n d \<longleftrightarrow> (\<exists>u \<in> set (users d). u_username u = n)"

lemma find_named: "named n d \<longleftrightarrow> (\<exists>u. find (\<lambda>u. u_username u = n) (users d) = Some u)"
proof -
  have "named n d \<longleftrightarrow> find (\<lambda>u. u_username u = n) (users d) \<noteq> None" by (auto simp: named_def find_None_iff)
  then show ?thesis by simp
qed

lemma writes_keep_named: "writes_keep E (named n)"
  by (auto simp: writes_keep_def named_def insert_user_def insert_wallet_def insert_key_def update_revoked_def
      split: option.splits)

lemma EnsureDefaultUser_known:
  assumes "find (\<lambda>u. u_username u = n) (users (w_db s)) = Some x"
  shows "result (EnsureDefaultUser E n p w r) s \<in> {Inr (u_id x, []), Inl (PgError ConnFailed), Inl (PgError Constraint)}
    \<and> w_db (after (EnsureDefaultUser E n p w r) s) = w_db s"
  using assms by (auto simp: EnsureDefaultUser_def result_pg select_user_id_def w_db_after_pg split: option.splits if_splits)

lemma EnsureDefaultUser_named:
  fixes s :: "'v world"
  assumes "result (EnsureDefaultUser E n p w r) s = Inr q"
  shows "named n (w_db (after (EnsureDefaultUser E n p w r) s))"
proof (cases "named n (w_db s)")
  case True
  then show ?thesis using EnsureDefaultUser_known by (metis find_named)
next
  case False
  then have none: "find (\<lambda>u. u_username u = n) (users (w_db s)) = None" by (simp add: find_named)
  define rest :: "User \<Rightarrow> ('v, error + uuid \<times> string) io" where "rest = (\<lambda>u. do {
      q \<leftarrow> pg (insert_wallet E (ID u) w);
      case q of
        Inl err \<Rightarrow> ret (Inl (PgError err))
      | Inr _ \<Rightarrow> do {
          k \<leftarrow> CreateAPIKey E (ID u);
          ret (case k of Inl err \<Rightarrow> Inl err | Inr (_, _, secret) \<Rightarrow> Inr (ID u, secret))
        }
    })"
  have keep: "keeps (\<lambda>s. named n (w_db s)) (rest u)" for u
    unfolding rest_def by (intro keeps_intros keeps_CreateAPIKey writes_keep_named)
      (use writes_keep_named [of E n] in \<open>auto simp: writes_keep_def\<close>)
  show ?thesis using assms none keepsD [OF keep]
    by (auto simp: EnsureDefaultUser_def result_pg select_user_id_def w_db_after_pg insert_user_def named_def
        split: option.splits if_splits sum.splits simp flip: rest_def)
qed

lemma registered_cases:
  obtains reg where "registered b = Some reg" and "reg = (if b then declared @ [WalletBalance] else declared)"
  by (simp add: registered_def)

lemma startup_served:
  fixes s :: "'v world"
  assumes "result (startup E p dial getenv) s = Serving pf devKey"
  obtains client backend s1 q reg where "w_db s1 = w_db s" and "HealthDetail client = (True, backend, None)"
    and "pf = assemble E p (Load getenv) client reg"
    and "registered (MetricsWalletPerUser (Load getenv)) = Some reg" and "Dial E dial (InferenceGRPCAddr (Load getenv)) = Inr client"
    and "result (EnsureDefaultUser E (DefaultUsername (Load getenv)) (DefaultPassword (Load getenv))
          (DefaultWalletUSD (Load getenv)) (PlatformDefaultPricePerMinute (Load getenv))) s1 = Inr (q, devKey)"
    and "w_db (after (startup E p dial getenv) s) = w_db (after (EnsureDefaultUser E (DefaultUsername (Load getenv))
          (DefaultPassword (Load getenv)) (DefaultWalletUSD (Load getenv)) (PlatformDefaultPricePerMinute (Load getenv))) s1)"
proof -
  define cfg where "cfg = Load getenv"
  define seed :: "('v, error + uuid \<times> string) io" where
    "seed = EnsureDefaultUser E (DefaultUsername cfg) (DefaultPassword cfg) (DefaultWalletUSD cfg) (PlatformDefaultPricePerMinute cfg)"
  define s0 where "s0 = after Connect (after Migrate s)"
  define s1 where "s1 = after draw (after draw s0)"
  have db0: "w_db s0 = w_db s" by (simp add: s0_def Connect_def Migrate_def)
  note st = startup_def [of E p dial getenv, folded cfg_def, unfolded Let_def, folded seed_def]
  have o: "result Migrate s = None" "result Connect (after Migrate s) = None" "w_orc s0 (Suc 0) = 0"
    using assms by (auto simp: st s0_def split: if_splits)
  obtain reg where reg: "registered (MetricsWalletPerUser cfg) = Some reg" by (rule registered_cases)
  from o obtain client where d: "Dial E dial (InferenceGRPCAddr cfg) = Inr client"
    using assms reg by (auto simp: st s0_def split: sum.splits)
  obtain ok backend err where hd: "HealthDetail client = (ok, backend, err)" by (cases "HealthDetail client")
  have err: "err = None" using assms o d hd reg by (auto simp: st s0_def split: option.splits)
  have ok: "ok" using err hd by (auto simp: HealthDetail_def split: sum.splits prod.splits if_splits)
  have run: "result (startup E p dial getenv) s = (case result seed s1 of Inl err \<Rightarrow> Fatal ''seed user''
      | Inr (_, devKey) \<Rightarrow> Serving (assemble E p cfg client reg) devKey)" "after (startup E p dial getenv) s = after seed s1"
    using o d hd err reg by (simp_all add: st s1_def s0_def)
  from assms run(1) obtain q where "result seed s1 = Inr (q, devKey)" "pf = assemble E p cfg client reg"
    by (auto split: sum.splits prod.splits)
  then show thesis using that [of s1 client backend reg q] hd err ok d reg run(2)
    by (simp add: s1_def seed_def cfg_def db0)
qed

text \<open>
  C30: A platform that serves has been able to start.  When startup reaches the point of serving, the
  inference service has answered that it is healthy, an account with the configured name exists, and at
  least one synthesis slot is configured; where the account existed before, the start has changed
  nothing in the database and announces no key.
\<close>

theorem startup_guarantees:
  assumes "result (startup E p dial getenv) s = Serving pf devKey"
  shows "(\<exists>backend. HealthDetail (Inference (pf_server pf)) = (True, backend, None))
    \<and> named (DefaultUsername (Cfg (pf_server pf))) (w_db (after (startup E p dial getenv) s))
    \<and> 1 \<le> ch_cap (pf_slots pf)
    \<and> (named (DefaultUsername (Cfg (pf_server pf))) (w_db s) \<longrightarrow>
        w_db (after (startup E p dial getenv) s) = w_db s \<and> devKey = [])"
proof (rule startup_served [OF assms])
  fix client backend s1 q reg
  let ?cfg = "Load getenv"
  let ?seed = "EnsureDefaultUser E (DefaultUsername ?cfg) (DefaultPassword ?cfg) (DefaultWalletUSD ?cfg) (PlatformDefaultPricePerMinute ?cfg)"
  assume db: "w_db s1 = w_db s" and hd: "HealthDetail client = (True, backend, None)" and pf: "pf = assemble E p ?cfg client reg"
    and seed: "result ?seed s1 = Inr (q, devKey)" and aft: "w_db (after (startup E p dial getenv) s) = w_db (after ?seed s1)"
  have old: "w_db (after ?seed s1) = w_db s \<and> devKey = []" if old: "named (DefaultUsername ?cfg) (w_db s)"
  proof -
    obtain x where x: "find (\<lambda>u. u_username u = DefaultUsername ?cfg) (users (w_db s1)) = Some x"
      using old db find_named by metis
    from EnsureDefaultUser_known [OF x, of E "DefaultPassword ?cfg" "DefaultWalletUSD ?cfg" "PlatformDefaultPricePerMinute ?cfg"]
    show ?thesis using seed db by simp
  qed
  have "named (DefaultUsername ?cfg) (w_db (after ?seed s1))" by (rule EnsureDefaultUser_named [OF seed])
  moreover have "1 \<le> ch_cap (New n)" for n by (simp add: New_def) arith
  ultimately show ?thesis using hd old aft by (simp add: pf assemble_def)
qed

section \<open>A concrete router\<close>

definition bindings0 :: bindings where
  "bindings0 = \<lparr>bind_path_uuid = (\<lambda>_ x. Inr x), bind_query_int = (\<lambda>_ _. Inr None)\<rparr>"

definition static0 :: "mem static" where
  "static0 = \<lparr>st_metrics = (\<lambda>_. ret no_response), st_not_allowed = (\<lambda>_. no_response), st_spec = [], st_dist = Map.empty,
     st_content = (\<lambda>_ _ b. no_response\<lparr>rs_body := Bytes b\<rparr>)\<rparr>"

definition client0 :: Client where
  "client0 = \<lparr>rpc_health = Inr (True, ''vllm''), rpc_synthesize = (\<lambda>_ _ _. Inr []), rpc_live = None\<rparr>"

definition play0 :: "mem play" where
  "play0 = \<lparr>pl_msgs = (\<lambda>_. []), pl_inp = (\<lambda>_. []), pl_end = id\<rparr>"

text \<open>A configuration that lets no request of a user through.\<close>

definition getenv0 :: "string \<Rightarrow> string" where
  "getenv0 k = (if k = ''RATE_LIMIT_RPM'' then ''0'' else if k = ''PLATFORM_ADMIN_KEY'' then ''root'' else [])"

definition server0 :: "mem Server" where
  "server0 = pf_server (assemble mem_env play0 (Load getenv0) client0 declared)"

text \<open>A router that sends every request to the route with this number.\<close>

definition chi_to :: "nat \<Rightarrow> chi_find" where
  "chi_to n = (\<lambda>_ _ _. Endpoint n (\<lambda>_. []))"

definition wallet_request :: request where
  "wallet_request = request0\<lparr>rq_path := ''/v1/wallet''\<rparr>"

lemma routed0:
  "n < 39 \<Longrightarrow> routed mem_env bindings0 (chi_to n) static0 server0 r (routes mem_env bindings0 static0 server0 ! n)"
  by (simp add: routed_def chi_to_def routes_def open_routes_def admin_routes_def account_routes_def api_routes_def
      HandlerFromMux_def HandlerWithOptions_def missed_def mounted_def ends_slash_def Let_def)

lemma patterns0:
  "rt_pattern (routes mem_env bindings0 static0 server0 ! 36) = ''/v1/wallet''"
  "rt_pattern (routes mem_env bindings0 static0 server0 ! 13) = admin_pattern"
  "rt_pattern (routes mem_env bindings0 static0 server0 ! 37) = ''/*''"
  by (simp_all add: routes_def open_routes_def admin_routes_def account_routes_def api_routes_def
      HandlerFromMux_def HandlerWithOptions_def missed_def mounted_def ends_slash_def Let_def admin_pattern_def nth_append)

theorem protected_routes_need_a_live_key_witness:
  "result (router mem_env bindings0 (chi_to 36) static0 server0 wallet_request) world_u = unauthorized \<and>
   only_observed wallet_request 401 world_u (after (router mem_env bindings0 (chi_to 36) static0 server0 wallet_request) world_u)"
  by (rule protected_routes_need_a_live_key [OF routed0 [of 36]])
    (simp_all add: patterns0 open_patterns_def admin_patterns_def admin_pattern_def wallet_request_def publicPaths_def)

theorem admin_routes_need_the_key_witness:
  "rs_code (result (router mem_env bindings0 (chi_to 13) static0 server0 wallet_request) world_u) = 401 \<and>
   only_observed wallet_request 401 world_u (after (router mem_env bindings0 (chi_to 13) static0 server0 wallet_request) world_u)"
proof -
  have k: "PlatformAdminKey (Cfg server0) = ''root''" "presented_key wallet_request = []"
    by (simp_all add: server0_def assemble_def Load_def env_str_def getenv0_def presented_key_def wallet_request_def
        request0_def has_prefix_def)
  show ?thesis using admin_routes_need_the_key [OF routed0 [of 13], of wallet_request world_u] k
    by (simp add: patterns0 admin_patterns_def)
qed

theorem startup_guarantees_witness:
  "\<exists>devKey. result (startup mem_env play0 (\<lambda>_ _. Inr client0) getenv0) world_u =
      Serving (assemble mem_env play0 (Load getenv0) client0 declared) devKey
    \<and> w_db (after (startup mem_env play0 (\<lambda>_ _. Inr client0) getenv0) world_u) = db_u \<and> devKey = []"
proof -
  have cfg: "DefaultUsername (Load getenv0) = ''dev''" by (simp add: Load_def env_str_def getenv0_def)
  moreover have "MetricsWalletPerUser (Load getenv0) = False" by (simp add: Load_def env_str_def getenv0_def)
  ultimately obtain devKey where r: "result (startup mem_env play0 (\<lambda>_ _. Inr client0) getenv0) world_u =
      Serving (assemble mem_env play0 (Load getenv0) client0 declared) devKey"
    by (simp add: startup_def registered_def Migrate_def Connect_def Let_def Dial_def dial_target_def split_beta HealthDetail_def client0_def
        EnsureDefaultUser_def result_pg select_user_id_def pg_text_def)
  from startup_guarantees [OF r] r cfg show ?thesis by (auto simp: assemble_def named_def)
qed

text \<open>A world in which the user has a key, and a request with its secret.\<close>

definition secret0 :: string where
  "secret0 = APIKeyPrefix @ replicate 48 (CHR ''0'')"

definition world_key :: "mem world" where
  "world_key = world_u\<lparr>w_db := db_u\<lparr>api_keys := [\<lparr>k_id = ''k'', k_user = ''u'', k_prefix = replicate 8 (CHR ''0''),
     k_hash = HashAPIKey mem_env secret0, k_revoked_at = None, k_created_at = 0\<rparr>]\<rparr>\<rparr>"

definition key_request :: request where
  "key_request = wallet_request\<lparr>rq_header := (\<lambda>h. if h = ''Authorization'' then ''Bearer '' @ secret0 else [])\<rparr>"

lemma secret0_trimmed [simp]: "trim_space secret0 = secret0"
  by (rule trim_space_graphic) (simp add: secret0_def APIKeyPrefix_def graphic_def list_all_iff)

lemma key_request_token [simp]: "TokenFromRequest key_request = secret0"
proof -
  have "trim_prefix (''Bearer '' @ secret0) ''Bearer '' = secret0" by (rule trim_prefix_append)
  then show ?thesis by (simp add: TokenFromRequest_def key_request_def has_prefix_def)
qed

lemma resolves0:
  "result (ResolveAPIKey mem_env secret0) (after now world_key) = Inr \<lparr>ID = ''u'', Username = ''dev''\<rparr>"
  "after (ResolveAPIKey mem_env secret0) (after now world_key) = after draw (after now world_key)"
proof -
  have s: "secret0 \<noteq> []" "has_prefix secret0 APIKeyPrefix" "\<not> length secret0 < length APIKeyPrefix + 8"
    "take 8 (drop (length APIKeyPrefix) secret0) = replicate 8 (CHR ''0'')"
    by (simp_all add: secret0_def has_prefix_def)
  have k: "api_keys (w_db world_key) = [\<lparr>k_id = ''k'', k_user = ''u'', k_prefix = replicate 8 (CHR ''0''),
     k_hash = HashAPIKey mem_env secret0, k_revoked_at = None, k_created_at = 0\<rparr>]"
    "users (w_db world_key) = users db_u" "w_orc world_key = (\<lambda>_. 0)"
    by (simp_all add: world_key_def)
  show "result (ResolveAPIKey mem_env secret0) (after now world_key) = Inr \<lparr>ID = ''u'', Username = ''dev''\<rparr>"
    "after (ResolveAPIKey mem_env secret0) (after now world_key) = after draw (after now world_key)"
    using s k by (simp_all add: ResolveAPIKey_def Let_def pg_def select_key_def live_key_def)
qed

theorem quota_guards_the_api_witness:
  "rs_code (result (router mem_env bindings0 (chi_to 36) static0 server0 key_request) world_key) = 429"
proof -
  have zero: "atoi ''0'' = Some 0"
    using atoi_itoa [of 0] by (simp add: itoa_def nat_str.simps in_int64_def digit_char_def char_of_def)
  have "LimiterStore server0 = NewStore True True \<lparr>RPM = 0, RPH = 1000, RPD = 10000\<rparr>"
    by (simp add: server0_def assemble_def Load_def envInt_def getenv0_def zero)
  then have "result (Allow mem_env (LimiterStore server0) ''u'') (after draw (after now world_key)) = Inr (False, 60 * second)"
    by (simp add: Allow_def Effective_def NewStore_def world_key_def mem0_def cached_limits_def mem_pipe
        result_pg select_limits_def rate_keys_def expiries_def mem_step_def second_of_minute_def
        mem_env_def unix_seconds_def split: prod.splits)
  then have a: "result (Allow mem_env (LimiterStore server0) (ID \<lparr>ID = ''u'', Username = ''dev''\<rparr>))
      (after (ResolveAPIKey mem_env (TokenFromRequest key_request)) (after now world_key)) = Inr (False, 60 * second)"
    by (simp only: key_request_token resolves0 User.select_convs)
  have u: "result (ResolveAPIKey mem_env (TokenFromRequest key_request)) (after now world_key) =
      Inr \<lparr>ID = ''u'', Username = ''dev''\<rparr>" by (simp only: key_request_token resolves0)
  have "rq_path key_request = ''/v1/wallet''" by (simp add: key_request_def wallet_request_def)
  then have p: "rq_path key_request \<notin> set publicPaths" by (simp add: publicPaths_def)
  have t: "TokenFromRequest key_request \<noteq> []" by (simp add: secret0_def)
  have "result (router mem_env bindings0 (chi_to 36) static0 server0 key_request) world_key =
      set_header ''Retry-After'' (RetryAfterHeader (60 * second)) (http_error ''rate limited'' 429)"
    by (rule quota_guards_the_api [OF routed0 [of 36] _ _ p t u a])
      (simp_all add: patterns0 open_patterns_def admin_patterns_def admin_pattern_def account_pattern_def)
  then show ?thesis by simp
qed

end
