(* ===== verification/Pipeline.thy ===== *)
theory Pipeline
  imports Delivery Metering Config Assets
begin

text \<open>
  From the handlers of the API to the ledger of the metering service: the payloads of a request that NATS
  accepted, delivered in order, are gathered as one event per group of seconds, and the next tick records
  them and debits the wallet at the user's price.
\<close>

section \<open>The metering process\<close>

text \<open>
  \<open>metering/cmd/metering/main.go\<close>: the pool, NATS and the subscription may fail, which ends the process;
  then the consumer runs on what arrives.  No signal is handled and the context is never cancelled, so a
  run is whatever had happened when the process was killed.
\<close>

definition metering_main ::
  "'v env \<Rightarrow> (string \<Rightarrow> string) \<Rightarrow> consumer_op list \<Rightarrow> ('v, string + Consumer) io" where
  "metering_main E getenv ops = do {
     let cfg = metering_settings getenv;
     pool \<leftarrow> draw;
     if pool \<noteq> 0 then ret (Inl ''db'')
     else do {
       nc \<leftarrow> draw;
       if nc \<noteq> 0 then ret (Inl ''nats'')
       else do {
         sub \<leftarrow> draw;
         if sub \<noteq> 0 then ret (Inl ''consumer'')
         else do {
           c \<leftarrow> run_consumer E ops (NewConsumer (m_defPPM cfg) (300 * millisecond));
           ret (Inr c)
         }
       }
     }
   }"

text \<open>
  The goroutine that serves HTTP, on \<open>net/http\<close>'s default \<open>ServeMux\<close>: the Prometheus client's handler,
  a parameter, and the constant answer about health, whose media type \<open>Write\<close> detects.
\<close>

definition metering_health :: "'v handler" where
  "metering_health r = ret \<lparr>rs_code = 200, rs_header = [(''Content-Type'', ''text/plain; charset=utf-8'')],
     rs_body = Text ''{\"status\":\"ok\"}''\<rparr>"

definition metering_mux :: "'v handler \<Rightarrow> 'v handler" where
  "metering_mux metrics = serve_mux [(''/metrics'', metrics), (''/health'', metering_health)]
     (\<lambda>_. ret (http_error ''404 page not found'' 404))"

text \<open>The process answers about its health whatever state it is in; only Prometheus's handler does anything.\<close>

lemma metering_answers:
  shows "rq_path r = ''/health'' \<Longrightarrow> rs_code (result (metering_mux metrics r) s) = 200"
    and "rq_path r \<noteq> ''/metrics'' \<Longrightarrow> after (metering_mux metrics r) s = s"
    and "rq_path r \<notin> {''/metrics'', ''/health''} \<Longrightarrow> rs_code (result (metering_mux metrics r) s) \<in> {301, 404}"
  by (auto simp: metering_mux_def serve_mux_def metering_health_def moved_permanently_def http_error_def
      clean_path_def join_path_def ends_slash_def Let_def)

text \<open>What was gathered since the last tick is in no ledger: the end of the process loses it.\<close>

lemma unticked_events_unrecorded:
  "\<forall>order. Tick order \<notin> set ops \<Longrightarrow> after (run_consumer E ops c) s = s"
proof (induction ops arbitrary: c)
  case (Cons op ops)
  then show ?case by (cases op) auto
qed simp

section \<open>From payloads to events\<close>

definition payload :: "effect \<Rightarrow> doc" where
  "payload e = (case e of Published subj j sent \<Rightarrow> Some j | _ \<Rightarrow> None)"

lemma payload_simps [simp]: "payload (Published subj j sent) = Some j"
  by (simp add: payload_def)








lemma is64_sum [simp]: "is64 a \<Longrightarrow> is64 (foldl fadd a xs)"
  by (induction xs arbitrary: a) (simp_all del: is64.simps)





section \<open>The tick after the request\<close>









section \<open>A concrete minute\<close>




lemma settings0 [simp]:
  "Wallets sv0 = wc0" "Inference sv0 = inference0" "Synth sv0" "BillingCoalesce (Cfg sv0) = 300000000"
  "DeliveryRefreshStream (Cfg sv0) = 5000000000" "\<not> MetricsWalletPerUser (Cfg sv0)"
  by (simp_all add: sv0_def Load_def envInt_def env_str_def times_def second_def millisecond_def wrap64_def)

lemma chunk0_simps [simp]: "Pcm chunk0 = replicate 120 0" "Grpc.SampleRate chunk0 = 1"
  by (simp_all add: chunk0_def)

lemma Get_kept [simp]:
  "w_clk (after (Get mem_env wc0 ''u'') world_u) = (\<lambda>_. 0)" "w_orc (after (Get mem_env wc0 ''u'') world_u) = (\<lambda>_. 0)"
  "filter is_published (w_out (after (Get mem_env wc0 ''u'') world_u)) = []"
proof -
  let ?t = "after (Get mem_env wc0 ''u'') world_u"
  have "clk_within 0 1 world_u" by (simp add: clk_within_def)
  then have "clk_within 0 1 ?t" by (rule keepsD [OF clk_kept(2)])
  then have "w_clk ?t n = 0" for n by (smt (verit) clk_within_def)
  then show "w_clk ?t = (\<lambda>_. 0)" by blast
  show "w_orc ?t = (\<lambda>_. 0)" using keepsD [OF calm_kept(2) calm_world_u] by (simp add: calm_def)
  show "filter is_published (w_out ?t) = []"
    using emits_Get quiet_all(2) by (metis emitsD append_Nil world_u_simps(5))
qed












end
