(* ===== verification/Contract.thy ===== *)
theory Contract
  imports Router
begin

text \<open>
  What every request of the API keeps.  A predicate on the tables and the output that is closed under
  the statements the handlers issue and the outputs they make is kept by the whole router, whatever
  fails; the locales state the closure once, their lemmas walk through the program, and each
  interpretation gives a property of the platform.
\<close>

section \<open>What the handlers write and say\<close>

inductive routine_write :: "'v env \<Rightarrow> db \<Rightarrow> db \<Rightarrow> bool" for E d where
  nothing: "routine_write E d d"
| user: "routine_write E d (snd (insert_user i n h p d))"
| wallet: "routine_write E d (snd (insert_wallet E u x d))"
| key: "routine_write E d (snd (insert_key i t u pfx h d))"
| revoked: "routine_write E d (snd (update_revoked k u t d))"
| limits: "routine_write E d (snd (upsert_limits u l d))"
| cleared: "routine_write E d (snd (delete_limits u d))"

fun is_spawn :: "effect \<Rightarrow> bool" where
  "is_spawn (Go_async i u m v b p) = True"
| "is_spawn _ = False"

locale api_contract =
  fixes E :: "'v env" and I :: "'v world \<Rightarrow> bool" and writes :: "db \<Rightarrow> db \<Rightarrow> bool" and allowed :: "effect \<Rightarrow> bool"
  assumes moves: "I s \<Longrightarrow> w_db t = w_db s \<Longrightarrow> w_out t = w_out s \<Longrightarrow> I t"
    and stores: "I s \<Longrightarrow> writes (w_db s) d \<Longrightarrow> I (s\<lparr>w_db := d\<rparr>)"
    and says: "I s \<Longrightarrow> allowed e \<Longrightarrow> I (s\<lparr>w_out := w_out s @ [e]\<rparr>)"
    and routine: "routine_write E d d' \<Longrightarrow> writes d d'"
    and ordinary: "accepted declared e \<Longrightarrow> \<not> is_spawn e \<Longrightarrow> allowed e"

text \<open>Labels that are constants of the program, and its instruments.\<close>

lemma accepted_plain [simp]: "(\<And>n ls v. e \<noteq> Observed n ls v) \<Longrightarrow> accepted reg e"
  by (cases e) (auto simp: accepted_def labelled_def)

lemma declared_instruments [simp]:
  "TTFB \<in> set declared" "RequestDuration \<in> set declared" "RTF \<in> set declared" "Metrics.AudioSeconds \<in> set declared"
  "HTTPDuration \<in> set declared"
  by (simp_all add: declared_def)

lemma instrument_shapes [simp]:
  "length (i_labels TTFB) = 1" "length (i_labels RTF) = 1" "length (i_labels RequestDuration) = 2"
  "length (i_labels Metrics.AudioSeconds) = 1" "length (i_labels HTTPDuration) = 3"
  "i_kind TTFB \<noteq> Counter" "i_kind RTF \<noteq> Counter" "i_kind RequestDuration \<noteq> Counter" "i_kind HTTPDuration \<noteq> Counter"
  by (simp_all add: instrument_defs)

lemma accepted_observed:
  assumes "i \<in> set reg" and "length ls = length (i_labels i)" and "list_all valid_utf8 ls"
    and "i_kind i = Counter \<Longrightarrow> \<not> flt_less v f0"
  shows "accepted reg (Observed (i_Name i) ls v)"
  using assms by (auto simp: accepted_def labelled_def list_ex_iff)

lemma transport_names [simp]:
  "valid_utf8 ''http_async''" "valid_utf8 ''http_stream''" "valid_utf8 ''websocket''"
  "valid_utf8 ''/v1/tts/async''" "valid_utf8 ''/v1/tts/stream''" "valid_utf8 ''/v1/tts/live''"
  by (rule valid_utf8_ascii, simp add: is_ascii_def)+

context api_contract
begin

lemma prims [keeps_intros]:
  "keeps I now" "keeps I draw" "keeps I new_uuid" "keeps I (since t)" "keeps I (rand_bytes n)" "keeps I (ext g)"
  by (rule keepsI, erule moves; simp add: rand_bytes_def)+

lemma writes_pg:
  assumes "\<And>d. routine_write E d (snd (f d))"
  shows "keeps I (pg f)"
proof (rule keepsI)
  fix s assume i: "I s"
  have "I (s\<lparr>w_db := w_db (after (pg f) s)\<rparr>)"
    using i assms by (intro stores routine) (auto simp: w_db_after_pg intro: routine_write.nothing)
  then show "I (after (pg f) s)" by (rule moves) simp_all
qed

lemma reads_pg: "(\<And>d. snd (f d) = d) \<Longrightarrow> keeps I (pg f)"
  by (rule writes_pg) (simp add: routine_write.nothing)

lemma says_emit: "allowed e \<Longrightarrow> keeps I (emit e)"
  by (rule keepsI) (simp add: says)

lemma plain_emit [keeps_intros]:
  "keeps I (emit (Published a b c))" "keeps I (emit Gauge_inc)" "keeps I (emit Gauge_dec)"
  "keeps I (emit (Wallet_gauge u x))" "keeps I (emit L2_miss)" "keeps I (emit Slot_taken)" "keeps I (emit Slot_released)"
  "keeps I (emit (Body_chunk q k))" "keeps I (emit Flushed)" "keeps I (emit (Ws_json j))" "keeps I (emit (Ws_binary q k))"
  "keeps I (emit (Ws_close n m))" "keeps I (emit (Rpc_synth a1 a2 a3))" "keeps I (emit (Rpc_text b1 b2 b3 b4 b5))"
  "keeps I (emit Rpc_close_send)"
  by (rule says_emit, rule ordinary; simp)+

lemma observed [keeps_intros]:
  "i \<in> set declared \<Longrightarrow> length ls = length (i_labels i) \<Longrightarrow> list_all valid_utf8 ls \<Longrightarrow>
    (i_kind i = Counter \<Longrightarrow> \<not> flt_less v f0) \<Longrightarrow> keeps I (observe i ls v)"
  unfolding observe_def by (rule says_emit, rule ordinary, rule accepted_observed) simp_all

text \<open>Wallets and billing.\<close>

lemma wallet_calls [keeps_intros]:
  "keeps I (loadDB E c u)" "keeps I (loadL2OrDB E c u)" "keeps I (getter E c k)" "keeps I (group_get E c k)"
  "keeps I (Get E c u)" "keeps I (Invalidate E u)" "keeps I (HasBalance E c u)" "keeps I (Refresh E c u)"
  "keeps I (ObserveWalletBalance en u x)" "keeps I (observeWallet E c en u)"
proof -
  show db: "keeps I (loadDB E c u)" for c u
    unfolding loadDB_def by (intro keeps_intros reads_pg) (simp add: select_wallet_def split: option.splits)
  show l2: "keeps I (loadL2OrDB E c u)" for c u unfolding loadL2OrDB_def by (intro keeps_intros db)
  show g: "keeps I (getter E c k)" for c k unfolding getter_def by (intro keeps_intros l2)
  show gg: "keeps I (group_get E c k)" for c k unfolding group_get_def by (intro keeps_intros g)
  show get: "keeps I (Get E c u)" for c u unfolding Get_def by (intro keeps_intros gg)
  show inv: "keeps I (Invalidate E u)" for u unfolding Invalidate_def by (intro keeps_intros)
  show "keeps I (HasBalance E c u)" unfolding HasBalance_def by (intro keeps_intros get)
  show "keeps I (Refresh E c u)" unfolding Refresh_def by (intro keeps_intros inv l2)
  show o: "keeps I (ObserveWalletBalance en u x)" for en x unfolding ObserveWalletBalance_def by (intro keeps_intros)
  show "keeps I (observeWallet E c en u)" unfolding observeWallet_def by (intro keeps_intros get o)
qed

lemma billing_calls [keeps_intros]: "keeps I (AddPCM E c b r)" "keeps I (Flush E c)"
proof -
  have p: "keeps I (Publish E e)" for e unfolding Publish_def by (intro keeps_intros)
  have n: "keeps I (NewEvent u rid tr k x)" for u rid tr k x unfolding NewEvent_def by (intro keeps_intros)
  have f: "keeps I (flushLocked E c w)" for c w unfolding flushLocked_def by (intro keeps_intros p n)
  show "keeps I (AddPCM E c b r)" unfolding AddPCM_def by (intro keeps_intros f)
  show "keeps I (Flush E c)" unfolding Flush_def by (intro keeps_intros f)
qed

text \<open>Accounts, keys and quotas.\<close>

lemma auth_calls [keeps_intros]:
  "keeps I (Register E n p w)" "keeps I (AuthenticatePassword E n p)" "keeps I (ResolveAPIKey E b)"
  "keeps I (CreateAPIKey E u)" "keeps I (ListAPIKeys u)" "keeps I (RevokeAPIKey u k)"
proof -
  have h: "keeps I (HashPassword E p)" for p unfolding HashPassword_def by (intro keeps_intros)
  have g: "keeps I GenerateAPIKey" unfolding GenerateAPIKey_def by (intro keeps_intros)
  note w = writes_pg [OF routine_write.user] writes_pg [OF routine_write.wallet] writes_pg [OF routine_write.key]
    writes_pg [OF routine_write.revoked]
  show "keeps I (Register E n p w)" unfolding Register_def by (intro keeps_intros h w)
  show "keeps I (AuthenticatePassword E n p)" unfolding AuthenticatePassword_def by (intro keeps_intros reads_pg) simp
  show "keeps I (ResolveAPIKey E b)" unfolding ResolveAPIKey_def by (intro keeps_intros reads_pg) simp
  show "keeps I (CreateAPIKey E u)" unfolding CreateAPIKey_def by (intro keeps_intros g w)
  show "keeps I (ListAPIKeys u)" unfolding ListAPIKeys_def by (intro keeps_intros reads_pg) simp
  show "keeps I (RevokeAPIKey u k)" unfolding RevokeAPIKey_def by (intro keeps_intros w)
qed

lemma quota_calls [keeps_intros]:
  "keeps I (Effective E st u)" "keeps I (SetOverride E st u l)" "keeps I (ClearOverride E st u)" "keeps I (Allow E st u)"
proof -
  have c: "keeps I (cache E st u l)" for st u l unfolding cache_def by (intro keeps_intros)
  show e: "keeps I (Effective E st u)" for st u
    unfolding Effective_def by (intro keeps_intros reads_pg c) (simp add: select_limits_def split: option.splits)
  note w = writes_pg [OF routine_write.limits] writes_pg [OF routine_write.cleared]
  show "keeps I (SetOverride E st u l)" unfolding SetOverride_def by (intro keeps_intros c w)
  show "keeps I (ClearOverride E st u)" unfolding ClearOverride_def by (intro keeps_intros w)
  show "keeps I (Allow E st u)" unfolding Allow_def by (intro keeps_intros e)
qed

text \<open>Handlers that do not synthesize.\<close>

lemma middlewares [keeps_intros]:
  "(\<And>r. keeps I (h r)) \<Longrightarrow> keeps I (BearerMiddleware E h r)"
  "(\<And>r. keeps I (h r)) \<Longrightarrow> keeps I (AdminMiddleware k h r)"
  "(\<And>r. keeps I (h r)) \<Longrightarrow> keeps I (rateLimitMiddleware E l h r)"
  unfolding BearerMiddleware_def AdminMiddleware_def rateLimitMiddleware_def by (intro keeps_intros; assumption)+

lemma with_user [keeps_intros]: "(\<And>u. keeps I (f u)) \<Longrightarrow> keeps I (with_user r f)"
  unfolding with_user_def by (intro keeps_intros)

lemma quota_handlers [keeps_intros]:
  "keeps I (GetAccountRateLimit E st r)" "keeps I (AdminGetUserRateLimit E st r)"
  "keeps I (AdminSetUserRateLimit E st r)" "keeps I (AdminDeleteUserRateLimit E st r)"
proof -
  have w: "keeps I (writeRateLimit E u st)" for u unfolding writeRateLimit_def by (intro keeps_intros)
  show "keeps I (GetAccountRateLimit E st r)" unfolding GetAccountRateLimit_def by (intro keeps_intros w)
  show "keeps I (AdminGetUserRateLimit E st r)" unfolding AdminGetUserRateLimit_def by (intro keeps_intros w)
  show "keeps I (AdminSetUserRateLimit E st r)" unfolding AdminSetUserRateLimit_def by (intro keeps_intros w)
  show "keeps I (AdminDeleteUserRateLimit E st r)" unfolding AdminDeleteUserRateLimit_def by (intro keeps_intros)
qed

lemma plain_handlers [keeps_intros]:
  "keeps I (GetHealth r)" "keeps I (LogoutUser r)" "keeps I (RegisterUser E sv r)" "keeps I (LoginUser E r)"
  "keeps I (CreateApiKey E r)" "keeps I (ListApiKeys E r)" "keeps I (RevokeApiKey k r)" "keeps I (GetWallet E sv r)"
  "keeps I (GetMetaVoices r)" "keeps I (GetMetaInference sv r)" "keeps I (GetAsyncJob i r)" "keeps I (GetAsyncJobAudio i r)"
proof -
  show "keeps I (GetHealth r)" "keeps I (LogoutUser r)" "keeps I (GetMetaVoices r)" "keeps I (GetMetaInference sv r)"
    unfolding GetHealth_def LogoutUser_def GetMetaVoices_def GetMetaInference_def by (intro keeps_intros)+
  show "keeps I (RegisterUser E sv r)" "keeps I (LoginUser E r)"
    unfolding RegisterUser_def LoginUser_def by (intro keeps_intros)+
  show "keeps I (CreateApiKey E r)" "keeps I (ListApiKeys E r)" "keeps I (RevokeApiKey k r)" "keeps I (GetWallet E sv r)"
    unfolding CreateApiKey_def ListApiKeys_def RevokeApiKey_def GetWallet_def by (intro keeps_intros)+
  have j: "keeps I (pg (select_job i u))" for i u
    by (rule reads_pg) (simp add: select_job_def split: option.splits)
  show "keeps I (GetAsyncJob i r)" "keeps I (GetAsyncJobAudio i r)"
    unfolding GetAsyncJob_def GetAsyncJobAudio_def by (intro keeps_intros j)+
qed

lemma usage_handler [keeps_intros]: "keeps I (ListUsage E ps r)"
proof -
  have c: "keeps I (pg (count_usage u))" for u by (rule reads_pg) (simp add: count_usage_def)
  have p: "keeps I (pg (usage_page u a b))" for u a b by (rule reads_pg) (simp add: usage_page_def)
  have r: "keeps I (read_rows xs)" for xs :: "usage_row list" unfolding read_rows_def by (intro keeps_intros)
  show ?thesis unfolding ListUsage_def by (intro keeps_intros c p r)
qed

text \<open>What both transports of a synthesis share.\<close>

lemma synthesis_calls [keeps_intros]:
  "keeps I (admit E sv u)" "keeps I (acquireSynthesis sv)" "keeps I (acquire_slot b ctx)" "keeps I (release_slot b)"
  "keeps I (ctx_done ctx)" "keeps I (Synthesize cl rid txt voice)" "keeps I TrackActiveStream"
proof -
  show d: "keeps I (ctx_done ctx)" for ctx unfolding ctx_done_def by (cases ctx) (simp_all, intro keeps_intros)
  show a: "keeps I (acquire_slot b ctx)" for b ctx unfolding acquire_slot_def by (intro keeps_intros d)
  show "keeps I (acquireSynthesis sv)" unfolding acquireSynthesis_def by (intro keeps_intros a)
  show "keeps I (admit E sv u)" unfolding admit_def by (intro keeps_intros)
  show "keeps I (release_slot b)" unfolding release_slot_def by (intro keeps_intros)
  show "keeps I (Synthesize cl rid txt voice)" unfolding Synthesize_def by (intro keeps_intros)
  show "keeps I TrackActiveStream" unfolding TrackActiveStream_def by (intro keeps_intros)
qed

lemma copy_stream [keeps_intros]:
  assumes "\<And>c st. keeps I (f c st)"
  shows "keeps I (CopyAudioStream ctx stream f st)"
proof (induction stream arbitrary: st)
  case Nil
  show ?case by (simp only: CopyAudioStream.simps) (intro keeps_intros)
next
  case (Cons r stream)
  show ?case by (cases r; simp only: CopyAudioStream.simps recv.case; intro keeps_intros assms Cons)
qed

lemma transport_calls:
  assumes "valid_utf8 tr" and "valid_utf8 path"
  shows "keeps I (first_chunk tr start st)" and "keeps I (bill E tr c st)" and "keeps I (settle E sv tr path u start st)"
proof -
  show "keeps I (first_chunk tr start st)" unfolding first_chunk_def
    by (intro keeps_intros) (simp_all add: assms)
  show "keeps I (bill E tr c st)" unfolding bill_def
    by (intro keeps_intros) (simp_all add: assms SecondsFromPCM_not_negative)
  show "keeps I (settle E sv tr path u start st)" unfolding settle_def
    by (intro keeps_intros) (simp_all add: assms)
qed

lemma stream_handler [keeps_intros]: "keeps I (StreamTTS E sv r)"
proof -
  note t = transport_calls [OF transport_names(2) transport_names(5)]
  have w: "keeps I (write_chunk fl q)" for fl q unfolding write_chunk_def by (intro keeps_intros)
  have rd: "keeps I (refresh_due E sv u st)" for u st unfolding refresh_due_def by (intro keeps_intros)
  have c: "keeps I (stream_chunk E sv u fl start c st)" for u fl start c st
    unfolding stream_chunk_def by (intro keeps_intros t w rd)
  have d: "keeps I (stream_deliver E sv u fl rid snap stream)" for u fl rid snap stream
    unfolding stream_deliver_def by (intro keeps_intros t c)
  show ?thesis unfolding StreamTTS_def track_bind by (intro keeps_intros d)
qed

text \<open>The live session, under every interleaving.\<close>

lemma live_calls [keeps_intros]:
  "keeps I (WriteJSON c)" "keeps I (flushUtterance utt)" "keeps I (meter ch utt)" "keeps I (leave h)" "keeps I CloseSend"
  "keeps I (SendText rid m v fin)" "keeps I (open_live h u E)"
proof -
  show w: "keeps I (WriteJSON c)" for c unfolding WriteJSON_def by (intro keeps_intros)
  show "keeps I (flushUtterance utt)" unfolding flushUtterance_def by (intro keeps_intros) simp_all
  show "keeps I (meter ch utt)" unfolding meter_def by (intro keeps_intros w) simp_all
  show l: "keeps I (leave h)" unfolding leave_def by (intro keeps_intros)
  show "keeps I CloseSend" unfolding CloseSend_def by (intro keeps_intros)
  show "keeps I (SendText rid m v fin)" unfolding SendText_def by (intro keeps_intros)
  show "keeps I (open_live h u E)" unfolding open_live_def by (intro keeps_intros w l)
qed

lemma ran: "keeps I m \<Longrightarrow> I s \<Longrightarrow> I (after m s)"
  by (rule keepsD)

lemma reader_keeps:
  assumes i: "I (s_world s)" and step: "reader_step E s = Some s'"
  shows "I (s_world s')"
proof -
  have o: "keeps I (observe Metrics.AudioSeconds [''websocket''] (chunk_seconds c))" for c
    by (rule observed) (simp_all add: chunk_seconds_def SecondsFromPCM_not_negative)
  show ?thesis using i step
    by (cases "s_reader s")
      (auto simp: reader_step.simps call_def does_def Let_def split_beta simp del: run_simps
        intro!: ran o keeps_intros split: list.splits recv.splits)
qed

lemma on_text_world [simp]: "s_world (on_text m s) = s_world s"
  by (simp add: on_text_def Let_def split: option.splits)

lemma main_keeps:
  assumes i: "I (s_world s)" and step: "main_step E h s = Some s'"
  shows "I (s_world s')"
  using i step
  by (cases "s_main s")
    (auto simp: main_step.simps call_def does_def Let_def split_beta simp del: run_simps
      intro!: ran keeps_intros split: list.splits option.splits if_splits)

lemma session_keeps: "live_reach E h s s' \<Longrightarrow> I (s_world s) \<Longrightarrow> I (s_world s')"
  by (induction rule: live_reach.induct) (auto elim!: live_stepE intro: reader_keeps main_keeps)

lemma live_served:
  assumes "I w" and "\<And>s. live_reach E h s (pl_end p s)"
  shows "I (after (live_handler E h p r) w)"
proof -
  obtain st w' where run: "ServeHTTP E h r (pl_msgs p r) (pl_inp p r) w = (st, w')"
    by (cases "ServeHTTP E h r (pl_msgs p r) (pl_inp p r) w")
  have "I w' \<and> (\<forall>s. st = Session s \<longrightarrow> I (s_world s))"
    using assms(1) run by (auto simp: ServeHTTP_def session_of_def Let_def split_beta simp del: run_simps
      intro!: ran keeps_intros split: option.splits sum.splits prod.splits if_splits)
  then show ?thesis using session_keeps [OF assms(2)] run by (cases st) (simp_all add: live_handler_def)
qed

text \<open>
  The whole router.  The start of an asynchronous job, whose output carries what was written before
  it, is asked for apart, as is the label of the request's path.
\<close>

lemma generated_routes:
  assumes "rt \<in> set (HandlerFromMux bd (server_interface E sv) [])"
    and live: "\<And>r. keeps I (LiveTTSWebSocket sv r)" and create: "\<And>r. keeps I (CreateAsyncTTS E sv r)"
  shows "keeps I (rt_handler rt r)"
  using assms(1)
  by (auto simp: HandlerFromMux_def HandlerWithOptions_def Let_def siw_GetHealth_def siw_ListApiKeys_def
      siw_CreateApiKey_def siw_RevokeApiKey_def siw_LoginUser_def siw_LogoutUser_def siw_RegisterUser_def
      siw_GetMetaVoices_def siw_CreateAsyncTTS_def siw_GetAsyncJob_def siw_GetAsyncJobAudio_def
      siw_LiveTTSWebSocket_def siw_StreamTTS_def siw_ListUsage_def siw_GetWallet_def apply_middlewares_def
      server_interface_def intro!: keeps_intros live create split: sum.splits)

lemma every_route:
  assumes "rt \<in> set (routes E bd st sv)" and "\<And>r. keeps I (st_metrics st r)"
    and "\<And>r. keeps I (LiveTTSWebSocket sv r)" and "\<And>r. keeps I (CreateAsyncTTS E sv r)"
  shows "keeps I (rt_handler rt r)"
proof -
  have ui: "keeps I (uiHandler st r)" for r unfolding uiHandler_def ui_Handler_def by (intro keeps_intros)
  have docs: "keeps I (StripPrefix ''/docs'' (docs_Handler (st_spec st)) r)" for r
    by (simp add: StripPrefix_def docs_Handler_def serve_mux_def Let_def)
  have missed: "x \<in> set (missed st p) \<Longrightarrow> keeps I (rt_handler x r)" for x p r
    by (auto simp: missed_def intro!: keeps_intros ui)
  have api: "keeps I (rt_handler x r)" if "x \<in> set (HandlerFromMux bd (server_interface E sv) [])" for x r
    using that assms(3,4) by (rule generated_routes)
  have "keeps I (rt_handler rt r)" if "rt \<in> set (open_routes E st sv)"
    using that by (auto simp: open_routes_def intro!: keeps_intros ui docs assms(2))
  moreover have "keeps I (rt_handler rt r)" if "rt \<in> set (admin_routes E st sv)"
    using that by (auto simp: admin_routes_def intro!: keeps_intros intro: missed)
  moreover have "keeps I (rt_handler rt r)" if "rt \<in> set (account_routes E sv)"
    using that by (auto simp: account_routes_def intro!: keeps_intros)
  moreover have "keeps I (rt_handler rt r)" if "rt \<in> set (api_routes E bd st sv)"
    using that by (auto simp: api_routes_def) (intro middlewares api missed; assumption)+
  ultimately show ?thesis using assms(1) unfolding routes_def by auto
qed

lemma dispatch_keeps:
  assumes "\<And>r. keeps I (st_metrics st r)" and "\<And>r. keeps I (LiveTTSWebSocket sv r)"
    and "\<And>r. keeps I (CreateAsyncTTS E sv r)"
  shows "keeps I (dispatch chi (uiHandler st) (st_not_allowed st) (routes E bd st sv) r)"
proof -
  have ui: "keeps I (uiHandler st r)" for r unfolding uiHandler_def ui_Handler_def by (intro keeps_intros)
  show ?thesis
    by (cases "chi (map (\<lambda>rt. (rt_method rt, rt_pattern rt)) (routes E bd st sv)) (rq_method r) (rq_path r)";
        simp add: dispatch_def; intro impI conjI keeps_intros ui every_route [OF nth_mem] assms)
qed

lemma router_keeps:
  assumes "\<And>r. keeps I (st_metrics st r)" and "\<And>r. keeps I (LiveTTSWebSocket sv r)"
    and "\<And>r. keeps I (CreateAsyncTTS E sv r)"
    and http: "\<And>code x. allowed (Observed (i_Name HTTPDuration) [rq_method r, rq_path r, itoa code] x)"
  shows "keeps I (router E bd chi st sv r)"
  unfolding router_def HTTPMetricsMiddleware_def observe_def
  by (intro keeps_intros says_emit http dispatch_keeps assms(1-3))

lemma live_route:
  assumes "\<And>h s. live_reach E h s (pl_end p s)"
  shows "keeps I (LiveTTSWebSocket (pf_server (assemble E p cfg client reg)) r)"
  unfolding LiveTTSWebSocket_def by (rule keepsI) (simp add: assemble_def live_served assms)

end

text \<open>With the statements and the start of asynchronous jobs.\<close>

locale platform_contract = api_contract +
  assumes job_inserts: "writes d (snd (insert_job i u m v d))"
    and job_updates: "writes d (snd (set_running i d))" "writes d (snd (set_failed i msg d))"
      "writes d (snd (set_completed i wav d))"
    and spawns: "is_spawn e \<Longrightarrow> allowed e"

context platform_contract
begin

lemma stores_pg:
  assumes "\<And>d. writes d (snd (f d))"
  shows "keeps I (pg f)"
proof (rule keepsI)
  fix s assume i: "I s"
  have "I (s\<lparr>w_db := w_db (after (pg f) s)\<rparr>)"
    using i assms by (intro stores) (auto simp: w_db_after_pg intro: routine routine_write.nothing)
  then show "I (after (pg f) s)" by (rule moves) simp_all
qed

lemma create_keeps: "keeps I (CreateAsyncTTS E sv r)"
  unfolding CreateAsyncTTS_def by (intro keeps_intros stores_pg job_inserts says_emit spawns) simp

lemma job_keeps: "keeps I (runAsyncJob E sv i u m v snap)"
proof -
  note t = transport_calls [OF transport_names(1) transport_names(4)]
  have w: "keeps I (pg (set_running i))" "keeps I (pg (set_completed i wav))" "keeps I (pg (set_failed i msg))" for wav msg
    by (rule stores_pg, rule job_updates)+
  have c: "keeps I (async_chunk E snap start c st)" for start c st
    unfolding async_chunk_def by (intro keeps_intros t)
  have d: "keeps I (async_deliver E sv i u snap stream)" for stream
    unfolding async_deliver_def by (intro keeps_intros t c w)
  show ?thesis unfolding runAsyncJob_def track_bind by (intro keeps_intros d w)
qed

end

section \<open>The metrics of the API are well formed\<close>

interpretation metered: platform_contract E "\<lambda>s. appends (accepted declared) old (w_out s)" "\<lambda>_ _. True" "accepted declared"
  for E :: "'v env" and old
  by unfold_locales (auto simp: appends_def elim!: is_spawn.elims)

lemma appends_start: "appends P (w_out s) (w_out s)"
  by (simp add: appends_def)

text \<open>
  C28: No use of the metrics makes the Prometheus client panic, but for one.  Whatever a request does, in
  any handler, with any failure and under any interleaving of a live session, every observation names a
  declared instrument, has a value for each of its labels and adds nothing negative to a counter, and
  so does every asynchronous job; the only values that can be refused are the method and the path of
  the request, which the middleware in front of all handlers uses as they are: exactly the requests
  whose method or path is not valid UTF-8 end in a panic.
\<close>

theorem metric_calls_accepted:
  assumes sv: "sv = pf_server (assemble E p cfg client reg)" and live: "\<forall>h s. live_reach E h s (pl_end p s)"
    and metrics: "\<forall>r s. w_out (after (st_metrics st r) s) = w_out s"
  shows "(\<exists>es. w_out (after (router E bd chi st sv r) s) = w_out s @ es \<and>
      (list_all (accepted declared) es \<longleftrightarrow> valid_utf8 (rq_method r) \<and> valid_utf8 (rq_path r)))
    \<and> (\<exists>es. w_out (after (runAsyncJob E sv i u msg v snap) s) = w_out s @ es \<and> list_all (accepted declared) es)"
proof
  let ?m = "dispatch chi (uiHandler st) (st_not_allowed st) (routes E bd st sv) r"
  have "appends (accepted declared) (w_out s) (w_out (after ?m (after now s)))"
    using metrics live unfolding sv
    by (intro keepsD [OF metered.dispatch_keeps] metered.live_route metered.create_keeps)
      (auto intro: keepsI simp: appends_def)
  then obtain es where es: "w_out (after ?m (after now s)) = w_out s @ es" "list_all (accepted declared) es"
    by (auto simp: appends_def)
  define last where "last code x = Observed (i_Name HTTPDuration) [rq_method r, rq_path r, itoa code] x" for code x
  have "\<exists>code x. w_out (after (router E bd chi st sv r) s) = w_out s @ es @ [last code x]"
    using es(1) by (auto simp: router_def HTTPMetricsMiddleware_def last_def)
  moreover have "accepted declared (last code x) \<longleftrightarrow> valid_utf8 (rq_method r) \<and> valid_utf8 (rq_path r)" for code x
    unfolding last_def by (auto simp: accepted_def labelled_def list_ex_iff intro!: bexI [of _ HTTPDuration])
  ultimately show "\<exists>es. w_out (after (router E bd chi st sv r) s) = w_out s @ es \<and>
      (list_all (accepted declared) es \<longleftrightarrow> valid_utf8 (rq_method r) \<and> valid_utf8 (rq_path r))"
    using es(2) by (metis list_all_append list.pred_inject(1,2))
next
  show "\<exists>es. w_out (after (runAsyncJob E sv i u msg v snap) s) = w_out s @ es \<and> list_all (accepted declared) es"
    using keepsD [OF metered.job_keeps appends_start] by (simp add: appends_def)
qed

definition broken_path :: request where
  "broken_path = request0\<lparr>rq_path := ''/'' @ [CHR 0xFF]\<rparr>"

theorem metric_calls_accepted_witness:
  "\<exists>es. w_out (after (router mem_env bindings0 (chi_to 10) static0 server0 broken_path) world_u) = es \<and>
    \<not> list_all (accepted declared) es"
proof -
  have bad: "\<not> valid_utf8 (rq_path broken_path)"
    by (simp add: broken_path_def valid_utf8.simps [of "''/'' @ x" for x] valid_utf8.simps utf8_len_def Let_def)
  have "w_out world_u = []" by simp
  then show ?thesis
    using metric_calls_accepted [OF server0_def, of static0 bindings0 "chi_to 10" broken_path world_u] bad
    by (auto simp: play0_def static0_def live_reach.here)
qed

end
