(* ===== verification/Platform.thy ===== *)
theory Platform
  imports Contract Metering
begin

text \<open>
  The platform at work: both processes on one world.  \<open>plat_step\<close> interleaves the requests to the API,
  the goroutines of asynchronous jobs and the metering service; what it leaves of the database is
  \<open>schema_ok\<close>, the constraints of the migrations and what the code adds to them.
\<close>

section \<open>Runs\<close>

text \<open>
  A step is a request, the goroutine of a job that waits, some messages and ticks of the metering
  service with any batch, or a drift of what is not the database: time passes, a cache loses an entry.
  Beside the world, the state has the goroutines that were started and have not run; each runs once.
  (The statements of a goroutine concern the row of its own job, which no other step writes, so that
  it may take all of its turns at once.)
\<close>

inductive plat_step ::
  "'v env \<Rightarrow> bindings \<Rightarrow> chi_find \<Rightarrow> 'v static \<Rightarrow> 'v Server \<Rightarrow> 'v world \<times> effect list \<Rightarrow> 'v world \<times> effect list \<Rightarrow> bool"
  for E bd chi st sv where
  request: "w_out (after (router E bd chi st sv r) w) = w_out w @ es \<Longrightarrow>
    plat_step E bd chi st sv (w, js) (after (router E bd chi st sv r) w, js @ filter is_spawn es)"
| goroutine: "plat_step E bd chi st sv (w, xs @ Go_async i u m v b p # ys)
    (after (runAsyncJob E sv i u m v \<lparr>BalanceUSD = b, PricePerAudioMinuteUSD = p\<rparr>) w, xs @ ys)"
| metering: "plat_step E bd chi st sv (w, js) (after (run_consumer E ops c) w, js)"
| drift: "w_db w' = w_db w \<Longrightarrow> plat_step E bd chi st sv (w, js) (w', js)"

inductive_cases plat_stepE: "plat_step E bd chi st sv x y"

text \<open>
  The server of an assembled platform, whose live sessions end somewhere in their runs, and whose
  metrics endpoint only reads.
\<close>

definition platform_of :: "'v env \<Rightarrow> 'v static \<Rightarrow> 'v Server \<Rightarrow> bool" where
  "platform_of E st sv \<longleftrightarrow>
     (\<exists>p cfg client reg. sv = pf_server (assemble E p cfg client reg) \<and> (\<forall>h s. live_reach E h s (pl_end p s))) \<and>
     (\<forall>r s. w_db (after (st_metrics st r) s) = w_db s \<and> w_out (after (st_metrics st r) s) = w_out s)"

lemma platform_ofE:
  assumes "platform_of E st sv"
  obtains p cfg client reg where "sv = pf_server (assemble E p cfg client reg)" and "\<And>h s. live_reach E h s (pl_end p s)"
    and "\<And>r s. w_db (after (st_metrics st r) s) = w_db s" and "\<And>r s. w_out (after (st_metrics st r) s) = w_out s"
  using assms unfolding platform_of_def by blast

lemma platform0: "platform_of mem_env static0 server0"
proof -
  have "live_reach mem_env h s (pl_end play0 s)" for h s by (simp add: play0_def live_reach.here)
  moreover have "w_db (after (st_metrics static0 r) s) = w_db s \<and> w_out (after (st_metrics static0 r) s) = w_out s" for r s
    by (simp add: static0_def)
  ultimately show ?thesis unfolding platform_of_def server0_def by blast
qed

text \<open>What a contract says of the requests of a platform.\<close>

context api_contract
begin

lemma platform_request:
  assumes "platform_of E st sv" and create: "\<And>r. keeps I (CreateAsyncTTS E sv r)"
    and http: "\<And>code x. allowed (Observed (i_Name HTTPDuration) [rq_method r, rq_path r, itoa code] x)"
  shows "keeps I (router E bd chi st sv r)"
  using assms(1)
proof (rule platform_ofE)
  fix p cfg client reg
  assume sv: "sv = pf_server (assemble E p cfg client reg)" and live: "\<And>h s. live_reach E h s (pl_end p s)"
    and m: "\<And>r s. w_db (after (st_metrics st r) s) = w_db s" "\<And>r s. w_out (after (st_metrics st r) s) = w_out s"
  have "keeps I (st_metrics st r)" for r by (rule keepsI, erule moves) (simp_all add: m)
  moreover have "keeps I (LiveTTSWebSocket sv r)" for r unfolding sv by (rule live_route [OF live])
  ultimately show ?thesis by (intro router_keeps create http) simp_all
qed

end

section \<open>The tables\<close>

definition job_ok :: "job_row \<Rightarrow> bool" where
  "job_ok j \<longleftrightarrow> (j_status j = Completed \<longrightarrow> j_audio j \<noteq> None) \<and> (j_status j = Failed \<longrightarrow> j_error j \<noteq> None)"

text \<open>
  Names, identifiers and idempotency keys are unique; every key, wallet, transaction, usage event, job and
  quota belongs to a user there is; quotas are positive; a completed job has its audio and a failed
  one its error.
\<close>

definition schema_ok :: "db \<Rightarrow> bool" where
  "schema_ok d \<longleftrightarrow> accounts_ok d \<and>
     distinct (map ue_key (usage_events d)) \<and> distinct (map ue_id (usage_events d)) \<and>
     (\<forall>e \<in> set (usage_events d). has_user d (ue_user e)) \<and> (\<forall>x \<in> set (txns d). has_user d (tx_user x)) \<and>
     (\<forall>i j. tts_jobs d i = Some j \<longrightarrow> has_user d (j_user j) \<and> job_ok j) \<and>
     (\<forall>u l. user_rate_limits d u = Some l \<longrightarrow> has_user d u \<and> 0 < rl_rpm l \<and> 0 < rl_rph l \<and> 0 < rl_rpd l)"

lemma has_user_frames [simp]:
  "has_user (d\<lparr>txns := a\<rparr>) = has_user d" "has_user (d\<lparr>usage_events := b\<rparr>) = has_user d"
  "has_user (d\<lparr>tts_jobs := c\<rparr>) = has_user d" "has_user (d\<lparr>user_rate_limits := e\<rparr>) = has_user d"
  by (auto simp: has_user_def fun_eq_iff)

lemma accounts_frames [simp]:
  "accounts_ok (d\<lparr>txns := a\<rparr>) = accounts_ok d" "accounts_ok (d\<lparr>usage_events := b\<rparr>) = accounts_ok d"
  "accounts_ok (d\<lparr>tts_jobs := c\<rparr>) = accounts_ok d" "accounts_ok (d\<lparr>user_rate_limits := e\<rparr>) = accounts_ok d"
  by (simp_all add: accounts_ok_def)

text \<open>A statement on accounts and keys keeps the rest when it keeps the other tables and loses no user.\<close>

lemma schema_accounts:
  assumes "schema_ok d" and "accounts_ok d'" and "\<And>u. has_user d u \<Longrightarrow> has_user d' u"
    and "usage_events d' = usage_events d" and "txns d' = txns d" and "tts_jobs d' = tts_jobs d"
    and "user_rate_limits d' = user_rate_limits d"
  shows "schema_ok d'"
  using assms unfolding schema_ok_def by auto

lemma schema_routine: "routine_write E d d' \<Longrightarrow> schema_ok d \<Longrightarrow> schema_ok d'"
proof (induction rule: routine_write.induct)
  case (user i n h p)
  have a: "accounts_ok (snd (insert_user i n h p d))"
    using writes_keep_accounts [of E] user by (simp add: writes_keep_def schema_ok_def)
  show ?case by (rule schema_accounts [OF user a]) (auto simp: insert_user_def has_user_def)
next
  case (wallet u x)
  have a: "accounts_ok (snd (insert_wallet E u x d))"
    using writes_keep_accounts [of E] wallet by (simp add: writes_keep_def schema_ok_def)
  show ?case by (rule schema_accounts [OF wallet a]) (auto simp: insert_wallet_def split: option.splits)
next
  case (key i t u pfx h)
  have a: "accounts_ok (snd (insert_key i t u pfx h d))"
    using writes_keep_accounts [of E] key by (simp add: writes_keep_def schema_ok_def)
  show ?case by (rule schema_accounts [OF key a]) (auto simp: insert_key_def)
next
  case (revoked k u t)
  have a: "accounts_ok (snd (update_revoked k u t d))"
    using writes_keep_accounts [of E] revoked by (simp add: writes_keep_def schema_ok_def)
  show ?case by (rule schema_accounts [OF revoked a]) (auto simp: update_revoked_def has_user_def)
next
  case (limits u l)
  then show ?case by (auto simp: upsert_limits_def schema_ok_def valid_def)
next
  case (cleared u)
  then show ?case by (auto simp: delete_limits_def schema_ok_def)
qed

lemma schema_job: "schema_ok d \<Longrightarrow> (\<And>j. j_user (f j) = j_user j \<and> (job_ok j \<longrightarrow> job_ok (f j))) \<Longrightarrow> schema_ok (snd (update_job i f d))"
  by (auto simp: schema_ok_def update_job_def)

text \<open>
  The statements of both services, each of which the database executes atomically: those on accounts, keys
  and quotas, on jobs, and those of a debit.
\<close>

inductive statement :: "'v env \<Rightarrow> db \<Rightarrow> db \<Rightarrow> bool" for E d where
  routine: "routine_write E d d' \<Longrightarrow> statement E d d'"
| job_created: "statement E d (snd (insert_job i u m v d))"
| job_started: "statement E d (snd (set_running i d))"
| job_failed: "statement E d (snd (set_failed i msg d))"
| job_completed: "statement E d (snd (set_completed i wav d))"
| recorded: "statement E d (snd (insert_usage E i uid e x d))"
| debited: "statement E d (snd (update_wallet E uid x d))"
| entered: "statement E d (snd (insert_txn E uid x note d))"

lemma schema_statement:
  assumes "statement E d d'" and "schema_ok d"
  shows "schema_ok d'"
  using assms
proof cases
  case routine
  then show ?thesis using schema_routine assms(2) by blast
next
  case job_created
  then show ?thesis using assms(2) by (auto simp: insert_job_def schema_ok_def job_ok_def)
qed (use assms(2) in \<open>auto simp: set_running_def set_failed_def set_completed_def job_ok_def intro!: schema_job\<close>,
  use assms(2) in \<open>auto simp: insert_usage_def update_wallet_def insert_txn_def schema_ok_def accounts_ok_def split: option.splits\<close>)

lemma schema_statements: "rtranclp (statement E) d d' \<Longrightarrow> schema_ok d \<Longrightarrow> schema_ok d'"
  by (induction rule: rtranclp_induct) (auto intro: schema_statement)

text \<open>No statement changes or removes what a ledger records.\<close>

lemma statement_extends:
  "statement E d d' \<Longrightarrow> prefix (usage_events d) (usage_events d') \<and> prefix (txns d) (txns d')"
proof (induction rule: statement.induct)
  case (routine d')
  then show ?case
    by (induction rule: routine_write.induct) (auto simp: insert_user_def insert_wallet_def insert_key_def
        update_revoked_def upsert_limits_def delete_limits_def split: option.splits)
qed (auto simp: insert_job_def set_running_def set_failed_def set_completed_def update_job_def
    insert_usage_def update_wallet_def insert_txn_def split: option.splits)

lemma statements_extend:
  "rtranclp (statement E) d d' \<Longrightarrow> prefix (usage_events d) (usage_events d') \<and> prefix (txns d) (txns d')"
  by (induction rule: rtranclp_induct) (auto dest: statement_extends prefix_order.trans)

text \<open>Whatever runs, what it leaves of the tables is the effect of a sequence of these statements.\<close>

interpretation statements: platform_contract E "\<lambda>s. rtranclp (statement E) d0 (w_db s)" "rtranclp (statement E)" "\<lambda>_. True"
  for E :: "'v env" and d0
  by unfold_locales (auto intro: statement.intros)

lemma metering_statements: "metering_writes_keep E (rtranclp (statement E) d0)"
  unfolding metering_writes_keep_def by (auto intro: statement.intros rtranclp.rtrancl_into_rtrancl)

lemma plat_step_statements:
  assumes "platform_of E st sv" and "plat_step E bd chi st sv x y"
  shows "rtranclp (statement E) (w_db (fst x)) (w_db (fst y))"
  using assms(2)
proof cases
  case (request r w es js)
  then show ?thesis
    using keepsD [OF statements.platform_request [OF assms(1) statements.create_keeps TrueI], of "w_db w" w] by simp
next
  case (goroutine w xs i u m v b p ys)
  then show ?thesis using keepsD [OF statements.job_keeps, of E "w_db w" w] by simp
next
  case (metering w js ops c)
  then show ?thesis using keepsD [OF keeps_run_consumer [OF metering_statements], of E "w_db w" w] by simp
next
  case (drift w' w js)
  then show ?thesis by simp
qed

text \<open>
  C22: The tables stay consistent.  Any run of the platform, whatever requests come, however they, the
  goroutines of jobs and the metering service interleave and whichever calls fail, changes the tables by
  a sequence of the statements above; and whatever sequence of them is executed, in whichever order and with
  whichever values, as requests that are served at the same time may interleave theirs, names, identifiers
  and idempotency keys stay unique, nothing belongs to a user there is not, quotas are positive,
  completed jobs have their audio, failed ones their error, and the ledgers of usage and of transactions are
  only extended.
\<close>

theorem tables_stay_consistent:
  assumes "platform_of E st sv" and "schema_ok (w_db w)"
    and "rtranclp (plat_step E bd chi st sv) (w, js) (w', js')"
  shows "rtranclp (statement E) (w_db w) (w_db w') \<and> schema_ok (w_db w')
    \<and> (\<forall>d. rtranclp (statement E) (w_db w) d \<longrightarrow>
          schema_ok d \<and> prefix (usage_events (w_db w)) (usage_events d) \<and> prefix (txns (w_db w)) (txns d))"
proof -
  have "rtranclp (statement E) (w_db (fst x)) (w_db (fst y))" if "rtranclp (plat_step E bd chi st sv) x y" for x y
    using that by (induction rule: rtranclp_induct) (auto dest: plat_step_statements [OF assms(1)])
  from this [OF assms(3)] show ?thesis
    by (auto dest: schema_statements [OF _ assms(2)] statements_extend)
qed

theorem tables_stay_consistent_witness:
  "schema_ok (w_db (after (run_consumer mem_env [Deliver (Some (JObj [(''user_id'', JStr ''u'')])), Tick [''u'']] cons0) world_u))"
proof (rule tables_stay_consistent [OF platform0, THEN conjunct2, THEN conjunct1])
  show "schema_ok (w_db world_u)" using accounts_ok_u by (simp add: schema_ok_def)
  show "rtranclp (plat_step mem_env bindings0 (chi_to 36) static0 server0) (world_u, [])
    (after (run_consumer mem_env [Deliver (Some (JObj [(''user_id'', JStr ''u'')])), Tick [''u'']] cons0) world_u, [])"
    by (rule r_into_rtranclp, rule plat_step.metering)
qed

end
