(* ===== verification/Jobs.thy ===== *)
theory Jobs
  imports Platform Delivery
begin

text \<open>
  The life of an asynchronous job, from the request that creates it over the goroutine that runs it to
  the requests that read it.  The status of a job is ordered by its life; in any run of the platform,
  in which requests, job goroutines and the metering service interleave, every job only moves up that
  order.
\<close>

section \<open>The order of the statuses\<close>

instantiation job_status :: order_bot
begin

definition less_eq_job_status :: "job_status \<Rightarrow> job_status \<Rightarrow> bool" where
  "a \<le> b \<longleftrightarrow> a = b \<or> a = Pending \<or> a = Running \<and> b \<noteq> Pending"

definition less_job_status :: "job_status \<Rightarrow> job_status \<Rightarrow> bool" where
  "a < b \<longleftrightarrow> a \<le> b \<and> \<not> b \<le> (a :: job_status)"

definition bot_job_status :: job_status where
  "bot = Pending"

instance
proof
  fix a b c :: job_status
  show "a < b \<longleftrightarrow> a \<le> b \<and> \<not> b \<le> a" by (rule less_job_status_def)
  show "a \<le> a" by (simp add: less_eq_job_status_def)
  show "a \<le> b \<Longrightarrow> b \<le> c \<Longrightarrow> a \<le> c" by (cases a; cases b; cases c) (simp_all add: less_eq_job_status_def)
  show "a \<le> b \<Longrightarrow> b \<le> a \<Longrightarrow> a = b" by (cases a; cases b) (simp_all add: less_eq_job_status_def)
  show "bot \<le> a" by (simp add: less_eq_job_status_def bot_job_status_def)
qed

end

lemma status_le_simps [simp]:
  "Pending \<le> b" "Running \<le> b \<longleftrightarrow> b \<noteq> Pending" "Completed \<le> b \<longleftrightarrow> b = Completed" "Failed \<le> b \<longleftrightarrow> b = Failed"
  by (cases b; simp add: less_eq_job_status_def)+

text \<open>
  A job's row may move up; at the same status nothing of it changes, and what the client asked for
  never does.
\<close>

definition job_le :: "job_row \<Rightarrow> job_row \<Rightarrow> bool" where
  "job_le j j' \<longleftrightarrow> j_user j' = j_user j \<and> j_input j' = j_input j \<and> j_voice j' = j_voice j \<and>
     j_status j \<le> j_status j' \<and> (j_status j' = j_status j \<longrightarrow> j' = j)"

definition jobs_le :: "db \<Rightarrow> db \<Rightarrow> bool" where
  "jobs_le d d' \<longleftrightarrow> (\<forall>i j. tts_jobs d i = Some j \<longrightarrow> (\<exists>j'. tts_jobs d' i = Some j' \<and> job_le j j'))"

lemma job_le_refl [simp]: "job_le j j"
  by (simp add: job_le_def)

lemma job_le_trans: "job_le a b \<Longrightarrow> job_le b c \<Longrightarrow> job_le a c"
  unfolding job_le_def by (metis order.antisym order.trans)

lemma jobs_le_refl [simp]: "jobs_le d d"
  by (simp add: jobs_le_def)

lemma jobs_le_trans: "jobs_le a b \<Longrightarrow> jobs_le b c \<Longrightarrow> jobs_le a c"
  unfolding jobs_le_def by (meson job_le_trans)

lemma jobs_leI: "tts_jobs d' = tts_jobs d \<Longrightarrow> jobs_le d d'"
  by (simp add: jobs_le_def)

section \<open>What the goroutine writes\<close>

text \<open>The audio is that of the whole stream when the loop ends without an error.\<close>

lemma async_copy:
  fixes s :: "'v world"
  assumes r: "r = result (CopyAudioStream Background stream (async_chunk E snap start) (async_vars0 sv u job snap)) s"
    and "fst r = None"
  shows "v_pcm (snd r) = concat (map Pcm (chunks_of stream))"
proof -
  let ?I = "\<lambda>cs st (s :: 'v world). v_pcm (st :: async_vars) = concat (map Pcm cs)"
  have step: "case fst (result (async_chunk E snap start c st) t) of
      None \<Rightarrow> ?I (cs @ [c]) (snd (result (async_chunk E snap start c st) t)) (after (async_chunk E snap start c st) t)
    | Some e \<Rightarrow> True" if "?I cs st t" for cs c st and t :: "'v world"
    using that by (simp add: async_chunk_def Let_def bill_result)
  have "\<exists>cs. copied ?I (\<lambda>_ _ _ _ _. True) stream [] cs (fst r) (snd r)
      (after (CopyAudioStream Background stream (async_chunk E snap start) (async_vars0 sv u job snap)) s)"
    unfolding r by (rule CopyAudioStream_copied [where S = UNIV]) (use step in \<open>simp_all add: async_vars0_def\<close>)
  then show ?thesis using assms(2) by (auto simp: copied_def)
qed

lemma copy_errors:
  "fst (result (CopyAudioStream Background stream f st) s) = Some e \<Longrightarrow>
    Recv_error e \<in> set stream \<or> (\<exists>c st s. fst (result (f c st) s) = Some e)"
proof (induction stream arbitrary: st s)
  case Nil
  then show ?case by (simp add: ctx_done_def)
next
  case (Cons x stream)
  show ?case
  proof (cases x)
    case (Chunk c)
    then show ?thesis using Cons by (auto simp: ctx_done_def split_beta split: option.splits)
  qed (use Cons.prems in \<open>simp add: ctx_done_def\<close>)
qed

lemma async_chunk_errors: "fst (result (async_chunk E snap start c st) s) = Some e \<Longrightarrow> e = insufficient_balance"
  by (simp add: async_chunk_def Let_def split: if_splits)

text \<open>Why a job may fail, and the statement it ends with.\<close>

definition job_errors :: "recv list \<Rightarrow> error set" where
  "job_errors stream = insert insufficient_balance {e. Recv_error e \<in> set stream}"


definition final_write :: "'v env \<Rightarrow> uuid \<Rightarrow> AudioChunk list \<Rightarrow> error option \<Rightarrow> db \<Rightarrow> (pg_error + unit) \<times> db" where
  "final_write E job cs err =
     (case err of
        Some e \<Rightarrow> set_failed job (Error E e)
      | None \<Rightarrow> set_completed job (WrapWAV (concat (map Pcm cs)) Audio.SampleRate))"

lemma async_deliver_writes:
  fixes s :: "'v world"
  obtains err and t :: "'v world" where "w_db t = w_db s" and "calm s \<Longrightarrow> calm t"
    and "\<And>e. err = Some e \<Longrightarrow> e \<in> job_errors stream"
    and "w_db (after (async_deliver E sv job u snap stream) s) =
      w_db (after (pg (final_write E job (chunks_of stream) err)) t)"
proof -
  define copy :: "('v, error option \<times> async_vars) io" where "copy = CopyAudioStream Background stream (async_chunk E snap (w_clk s 0)) (async_vars0 sv u job snap)"
  define r where "r = result copy (after now s)"
  define rest :: "('v, Coalescer) io" where "rest = settle E sv ''http_async'' ''/v1/tts/async'' u (w_clk s 0) (snd r)"
  define t where "t = after rest (after copy (after now s))"
  have ctx: "keeps calm (ctx_done Background)" by (simp add: ctx_done_def)
  have k: "keeps (\<lambda>t. w_db t = w_db s) copy" "keeps (\<lambda>t. w_db t = w_db s) rest" "keeps calm copy" "keeps calm rest"
    unfolding copy_def rest_def async_chunk_def by (intro keeps_intros ctx)+
  have "w_db (after now s) = w_db s" by simp
  then have "w_db t = w_db s" unfolding t_def by (intro keepsD [OF k(2)] keepsD [OF k(1)])
  moreover have "calm t" if "calm s"
    unfolding t_def using that by (intro keepsD [OF k(4)] keepsD [OF k(3)] keepsD [OF keeps_calm_prims(1)])
  moreover have "(case fst r of Some e \<Rightarrow> set_failed job (Error E e)
      | None \<Rightarrow> set_completed job (WrapWAV (v_pcm (snd r)) Audio.SampleRate)) = final_write E job (chunks_of stream) (fst r)"
    using async_copy [OF r_def [unfolded copy_def]] by (simp add: final_write_def split: option.splits)
  moreover have "w_db (after (async_deliver E sv job u snap stream) s) = w_db (after (pg (case fst r of
      Some e \<Rightarrow> set_failed job (Error E e) | None \<Rightarrow> set_completed job (WrapWAV (v_pcm (snd r)) Audio.SampleRate))) t)"
    by (simp add: async_deliver_def t_def rest_def r_def copy_def split_beta split: option.splits)
  moreover have "e \<in> job_errors stream" if "fst r = Some e" for e
    using copy_errors [OF that [unfolded r_def copy_def]] async_chunk_errors by (auto simp: job_errors_def)
  ultimately show thesis by (intro that [of t "fst r"]) simp_all
qed

text \<open>The chunks inference answers a job with.\<close>

definition job_chunks :: "'v Server \<Rightarrow> uuid \<Rightarrow> string \<Rightarrow> string \<Rightarrow> AudioChunk list" where
  "job_chunks sv job msg voice =
     (case rpc_synthesize (Inference sv) job msg voice of Inl _ \<Rightarrow> [] | Inr stream \<Rightarrow> chunks_of stream)"

definition job_failures :: "'v Server \<Rightarrow> uuid \<Rightarrow> string \<Rightarrow> string \<Rightarrow> error set" where
  "job_failures sv job msg voice =
     (case rpc_synthesize (Inference sv) job msg voice of Inl e \<Rightarrow> {e} | Inr stream \<Rightarrow> job_errors stream)"

lemma runAsyncJob_writes:
  fixes s :: "'v world"
  obtains err and t :: "'v world" where "started job (w_db s) (w_db t)"
    and "calm s \<Longrightarrow> calm t \<and> w_db t = snd (set_running job (w_db s))"
    and "\<And>e. err = Some e \<Longrightarrow> e \<in> job_failures sv job msg voice"
    and "w_db (after (runAsyncJob E sv job u msg voice snap) s) =
      w_db (after (pg (final_write E job (job_chunks sv job msg voice) err)) t)"
proof -
  define s1 where "s1 = after (acquire_slot (Synth sv) Background) s"
  define s2 where "s2 = s1\<lparr>w_out := w_out s1 @ [Gauge_inc]\<rparr>"
  define s3 where "s3 = after (emit (Rpc_synth job msg voice)) (after (pg (set_running job)) s2)"
  have d: "started job (w_db s) (w_db s3)"
    by (simp add: s3_def s2_def s1_def acquire_background w_db_after_pg started_def)
  have c: "calm s3 \<and> w_db s3 = snd (set_running job (w_db s))" if "calm s"
  proof -
    have "calm s1" using that unfolding s1_def acquire_slot_def ctx_done_def by (auto simp: calm_def)
    then show ?thesis by (simp add: s3_def s2_def calm_def w_db_after_pg) (simp add: s1_def acquire_background)
  qed
  define body where "body = (case rpc_synthesize (Inference sv) job msg voice of
          Inl err \<Rightarrow> do { _ \<leftarrow> pg (set_failed job (Error E err)); ret () }
        | Inr stream \<Rightarrow> async_deliver E sv job u snap stream)"
  have "after (runAsyncJob E sv job u msg voice snap) s = after (release_slot (Synth sv)) (after (emit Gauge_dec) (after body s3))"
    by (simp add: runAsyncJob_def acquire_background s1_def [symmetric] s2_def [symmetric] Synthesize_def s3_def
        body_def split: sum.splits)
  then have db: "w_db (after (runAsyncJob E sv job u msg voice snap) s) = w_db (after body s3)"
    by (simp add: release_slot_def)
  show thesis
  proof (cases "rpc_synthesize (Inference sv) job msg voice")
    case (Inl e)
    then show thesis using that [of s3 "Some e"] d c db by (simp add: body_def final_write_def job_failures_def)
  next
    case (Inr stream)
    show thesis
    proof (rule async_deliver_writes [of s3 stream E sv job u snap])
      fix err and t :: "'v world"
      assume "w_db t = w_db s3" and "calm s3 \<Longrightarrow> calm t" and "\<And>e. err = Some e \<Longrightarrow> e \<in> job_errors stream"
        and "w_db (after (async_deliver E sv job u snap stream) s3) = w_db (after (pg (final_write E job (chunks_of stream) err)) t)"
      then show thesis using that [of t err] d c db Inr by (simp add: body_def job_chunks_def job_failures_def)
    qed
  qed
qed

text \<open>Whatever fails, a job's row becomes one of these; no other row changes.\<close>

lemma runAsyncJob_jobs:
  "jobs_after job (job_chunks sv job msg voice) (job_chunks sv job msg voice) (w_db s)
     (w_db (after (runAsyncJob E sv job u msg voice snap) s))"
  (is "jobs_after job ?cs ?cs _ _")
proof (rule runAsyncJob_writes [of job s sv msg voice E u snap])
  fix err t
  assume st: "started job (w_db s) (w_db t)"
    and db: "w_db (after (runAsyncJob E sv job u msg voice snap) s) = w_db (after (pg (final_write E job ?cs err)) t)"
  have "jobs_after job ?cs ?cs (w_db s) (snd (final_write E job ?cs err (w_db t)))"
    by (cases err) (simp_all add: final_write_def jobs_after_failed [OF st] jobs_after_completed [OF st])
  then show ?thesis using jobs_after_started [OF st] unfolding db by (simp add: w_db_after_pg)
qed

lemma job_after_le: "j_status row = Pending \<Longrightarrow> job_after cs cs' row row' \<Longrightarrow> job_le row row'"
  by (auto simp: job_after_def job_le_def)

lemma run_advances:
  assumes "tts_jobs (w_db s) job = Some row" and "j_status row = Pending"
  shows "jobs_le (w_db s) (w_db (after (runAsyncJob E sv job u msg voice snap) s))"
proof -
  let ?d = "w_db (after (runAsyncJob E sv job u msg voice snap) s)"
  have out: "\<And>i. i \<noteq> job \<Longrightarrow> tts_jobs ?d i = tts_jobs (w_db s) i"
    and row: "rel_option (job_after (job_chunks sv job msg voice) (job_chunks sv job msg voice)) (tts_jobs (w_db s) job) (tts_jobs ?d job)"
    using runAsyncJob_jobs [of job sv msg voice s E u snap] by (auto simp: jobs_after_def)
  show ?thesis unfolding jobs_le_def
  proof (intro allI impI)
    fix i j assume j: "tts_jobs (w_db s) i = Some j"
    show "\<exists>j'. tts_jobs ?d i = Some j' \<and> job_le j j'"
    proof (cases "i = job")
      case True
      then show ?thesis using j row assms job_after_le by (auto simp: option_rel_Some1)
    qed (use j out in simp)
  qed
qed

section \<open>What a request does to the jobs\<close>

fun spawn_id :: "effect \<Rightarrow> uuid" where
  "spawn_id (Go_async i u m v b p) = i"
| "spawn_id _ = []"

text \<open>
  Since a state with the jobs \<open>d0\<close> and the output \<open>old\<close>, rows were only added, and every goroutine that was
  started has a row of its own among them, which is pending.
\<close>

definition grown :: "db \<Rightarrow> effect list \<Rightarrow> 'v world \<Rightarrow> bool" where
  "grown d0 old s \<longleftrightarrow>
     (\<forall>i j. tts_jobs d0 i = Some j \<longrightarrow> tts_jobs (w_db s) i = Some j) \<and>
     (\<exists>es. w_out s = old @ es \<and> distinct (map spawn_id (filter is_spawn es)) \<and>
        (\<forall>e \<in> set es. is_spawn e \<longrightarrow> tts_jobs d0 (spawn_id e) = None \<and>
           (\<exists>j. tts_jobs (w_db s) (spawn_id e) = Some j \<and> j_status j = Pending)))"

lemma routine_keeps_jobs: "routine_write E d d' \<Longrightarrow> tts_jobs d' = tts_jobs d"
  by (induction rule: routine_write.induct)
    (simp_all add: insert_user_def insert_wallet_def insert_key_def update_revoked_def upsert_limits_def delete_limits_def
      split: option.splits)

lemma grown_says: "grown d0 old s \<Longrightarrow> \<not> is_spawn e \<Longrightarrow> grown d0 old (s\<lparr>w_out := w_out s @ [e]\<rparr>)"
  unfolding grown_def
proof (elim conjE exE, intro conjI exI)
  fix es assume "w_out s = old @ es" "distinct (map spawn_id (filter is_spawn es))" "\<not> is_spawn e"
  then show "w_out (s\<lparr>w_out := w_out s @ [e]\<rparr>) = old @ (es @ [e])"
    "distinct (map spawn_id (filter is_spawn (es @ [e])))" by simp_all
qed auto

interpretation spawning: api_contract E "grown d0 old" "\<lambda>d d'. tts_jobs d' = tts_jobs d" "\<lambda>e. \<not> is_spawn e"
  for E :: "'v env" and d0 old
proof unfold_locales
  show "grown d0 old s \<Longrightarrow> \<not> is_spawn e \<Longrightarrow> grown d0 old (s\<lparr>w_out := w_out s @ [e]\<rparr>)" for s e by (rule grown_says)
qed (auto simp: grown_def routine_keeps_jobs)

lemma grown_row:
  assumes g: "grown d0 old s" and free: "tts_jobs (w_db s) i = None"
    and t: "tts_jobs (w_db t) = (tts_jobs (w_db s))(i \<mapsto> r)" "j_status r = Pending"
    and out: "w_out t = w_out s \<or> w_out t = w_out s @ [Go_async i u m v b p]"
  shows "grown d0 old t"
proof -
  obtain es where es: "w_out s = old @ es" "distinct (map spawn_id (filter is_spawn es))"
    "\<forall>e \<in> set es. is_spawn e \<longrightarrow> tts_jobs d0 (spawn_id e) = None \<and>
       (\<exists>j. tts_jobs (w_db s) (spawn_id e) = Some j \<and> j_status j = Pending)"
    and old: "\<forall>i j. tts_jobs d0 i = Some j \<longrightarrow> tts_jobs (w_db s) i = Some j"
    using g unfolding grown_def by blast
  have "i \<noteq> spawn_id e" if "e \<in> set es" "is_spawn e" for e
    using es(3) that free by auto
  then have new: "i \<notin> spawn_id ` {e \<in> set es. is_spawn e}" by blast
  have d0: "tts_jobs d0 i = None"
  proof (cases "tts_jobs d0 i")
    case (Some j)
    then show ?thesis using old free by simp
  qed
  have keep: "\<forall>k j. tts_jobs d0 k = Some j \<longrightarrow> tts_jobs (w_db t) k = Some j"
    using old free t(1) by auto
  have pend: "\<forall>e \<in> set es. is_spawn e \<longrightarrow> tts_jobs d0 (spawn_id e) = None \<and>
      (\<exists>j. tts_jobs (w_db t) (spawn_id e) = Some j \<and> j_status j = Pending)"
    using es(3) t by simp
  from out show ?thesis
  proof
    assume "w_out t = w_out s"
    then show ?thesis unfolding grown_def using keep pend es(1,2) by auto
  next
    assume "w_out t = w_out s @ [Go_async i u m v b p]"
    then show ?thesis unfolding grown_def using keep pend es(1,2) new t d0
      by (intro conjI exI [of _ "es @ [Go_async i u m v b p]"]) auto
  qed
qed

text \<open>The row is written before the goroutine is started, under an identifier that was free.\<close>

lemma grown_create:
  assumes g: "grown d0 old s"
    and t: "t = after (do {
      i \<leftarrow> new_uuid;
      q \<leftarrow> pg (insert_job i u m v);
      case q of Inl err \<Rightarrow> ret (x err) | Inr jobID \<Rightarrow> do { _ \<leftarrow> emit (Go_async jobID u m v b p); ret (y jobID) }
    }) s"
  shows "grown d0 old t"
proof (cases "has_user (w_db s) u \<and> tts_jobs (w_db s) (w_ids s 0) = None \<and> pg_text m \<and> pg_text v \<and> w_orc s 0 \<noteq> 1")
  case True
  define row where "row = \<lparr>j_user = u, j_status = Pending, j_input = m, j_voice = v, j_audio = None, j_error = None\<rparr>"
  have ins: "insert_job (w_ids s 0) u m v (w_db s) =
      (Inr (w_ids s 0), w_db s\<lparr>tts_jobs := (tts_jobs (w_db s))(w_ids s 0 \<mapsto> row)\<rparr>)"
    using True by (simp add: insert_job_def row_def)
  have out: "w_out t = w_out s \<or> w_out t = w_out s @ [Go_async (w_ids s 0) u m v b p]"
    using True unfolding t by (cases "w_orc s 0 = 0") (simp_all add: result_pg ins)
  have "w_db t = snd (insert_job (w_ids s 0) u m v (w_db s))"
    using True unfolding t by (cases "w_orc s 0 = 0") (simp_all add: result_pg w_db_after_pg ins)
  then have "tts_jobs (w_db t) = (tts_jobs (w_db s))(w_ids s 0 \<mapsto> row)" by (simp add: ins)
  moreover have "tts_jobs (w_db s) (w_ids s 0) = None" "j_status row = Pending" using True by (simp_all add: row_def)
  ultimately show ?thesis using grown_row [OF g] out by metis
next
  case False
  then have "w_db t = w_db s" "w_out t = w_out s"
    unfolding t by (cases "w_orc s 0 = 0"; auto simp: result_pg w_db_after_pg insert_job_def)+
  then show ?thesis by (rule spawning.moves [OF g])
qed

lemma create_grown: "keeps (grown d0 old) (CreateAsyncTTS E sv r)"
proof -
  have new: "keeps (grown d0 old) (do {
      i \<leftarrow> new_uuid;
      q \<leftarrow> pg (insert_job i u m v);
      case q of Inl err \<Rightarrow> ret (x err) | Inr jobID \<Rightarrow> do { _ \<leftarrow> emit (Go_async jobID u m v b p); ret (y jobID) }
    })" for u m v b p and x y :: "_ \<Rightarrow> response"
    by (rule keepsI, erule grown_create, rule refl)
  show ?thesis unfolding CreateAsyncTTS_def
    by (intro spawning.with_user keeps_bind spawning.synthesis_calls keeps_case_sum keeps_case_option keeps_return new)
qed

section \<open>Any run of the platform\<close>

text \<open>Each waiting goroutine has a pending row of its own.\<close>

definition waiting :: "'v world \<times> effect list \<Rightarrow> bool" where
  "waiting x \<longleftrightarrow> distinct (map spawn_id (snd x)) \<and>
     (\<forall>e \<in> set (snd x). is_spawn e \<and> (\<exists>j. tts_jobs (w_db (fst x)) (spawn_id e) = Some j \<and> j_status j = Pending))"

lemma grown_start [simp]: "grown (w_db s) (w_out s) s"
  by (simp add: grown_def)

lemma request_grown:
  assumes "platform_of E st sv"
  shows "grown (w_db w) (w_out w) (after (router E bd chi st sv r) w)"
  by (rule keepsD [OF spawning.platform_request [OF assms create_grown] grown_start]) simp

lemma waiting_request:
  assumes w: "waiting (w, js)" and g: "grown (w_db w) (w_out w) w'" and es: "w_out w' = w_out w @ es"
  shows "waiting (w', js @ filter is_spawn es) \<and> jobs_le (w_db w) (w_db w')"
proof -
  have old: "\<forall>i j. tts_jobs (w_db w) i = Some j \<longrightarrow> tts_jobs (w_db w') i = Some j"
    and new: "distinct (map spawn_id (filter is_spawn es))"
      "\<forall>e \<in> set es. is_spawn e \<longrightarrow> tts_jobs (w_db w) (spawn_id e) = None \<and>
         (\<exists>j. tts_jobs (w_db w') (spawn_id e) = Some j \<and> j_status j = Pending)"
    using g es unfolding grown_def by auto
  have "spawn_id e \<noteq> spawn_id e'" if "e \<in> set js" "e' \<in> set es" "is_spawn e'" for e e'
    using that w new(2) unfolding waiting_def by fastforce
  then have "waiting (w', js @ filter is_spawn es)"
    using w old new unfolding waiting_def by fastforce
  then show ?thesis using old by (auto simp: jobs_le_def)
qed

lemma metering_keeps_jobs: "metering_writes_keep E (\<lambda>d. tts_jobs d = T)"
  by (auto simp: metering_writes_keep_def insert_usage_def update_wallet_def insert_txn_def split: option.splits)

lemma waiting_step:
  assumes "platform_of E st sv" and "plat_step E bd chi st sv x y" and "waiting x"
  shows "waiting y \<and> jobs_le (w_db (fst x)) (w_db (fst y))"
  using assms(2,3)
proof cases
  case (request r w es js)
  then show ?thesis using waiting_request [OF _ request_grown [OF assms(1)]] assms(3) by simp
next
  case (goroutine w xs i u m v b p ys)
  define w' where "w' = after (runAsyncJob E sv i u m v \<lparr>BalanceUSD = b, PricePerAudioMinuteUSD = p\<rparr>) w"
  obtain row where row: "tts_jobs (w_db w) i = Some row" "j_status row = Pending"
    using assms(3) goroutine by (auto simp: waiting_def)
  have x: "x = (w, xs @ Go_async i u m v b p # ys)" "y = (w', xs @ ys)" using goroutine by (simp_all add: w'_def)
  have "tts_jobs (w_db w') k = tts_jobs (w_db w) k" if "k \<noteq> i" for k
    using runAsyncJob_jobs [of i sv m v w E u "\<lparr>BalanceUSD = b, PricePerAudioMinuteUSD = p\<rparr>"] that
    unfolding w'_def by (simp add: jobs_after_def)
  moreover have "i \<notin> spawn_id ` set (xs @ ys)" using assms(3) goroutine by (auto simp: waiting_def)
  ultimately have "tts_jobs (w_db w') (spawn_id e) = tts_jobs (w_db w) (spawn_id e)" if "e \<in> set (xs @ ys)" for e
    using that by (metis image_eqI)
  then have "waiting y" using assms(3) x by (auto simp: waiting_def)
  moreover have "jobs_le (w_db w) (w_db w')" unfolding w'_def by (rule run_advances [OF row])
  ultimately show ?thesis by (simp add: x)
next
  case (metering w js ops c)
  have "tts_jobs (w_db (after (run_consumer E ops c) w)) = tts_jobs (w_db w)"
    by (rule keepsD [OF keeps_run_consumer [where I = "\<lambda>d. tts_jobs d = tts_jobs (w_db w)", OF metering_keeps_jobs] refl])
  then show ?thesis using assms(3) metering by (auto simp: waiting_def jobs_leI)
next
  case (drift w' w js)
  then show ?thesis using assms(3) by (auto simp: waiting_def)
qed

text \<open>
  C6: A job's status only advances, from pending over running to completed or failed.  In any run of the
  platform, with requests of any kind, the goroutines of jobs and the metering service in any order and
  whatever fails, no job disappears, a job that is completed or failed never
  changes again, and what the client asked for never changes; and every goroutine that was started
  and has not run has a pending job of its own.
\<close>

theorem jobs_only_advance:
  assumes "platform_of E st sv" and "waiting (w, js)" and "rtranclp (plat_step E bd chi st sv) (w, js) (w', js')"
  shows "jobs_le (w_db w) (w_db w') \<and> waiting (w', js')"
proof -
  have "waiting y \<and> jobs_le (w_db (fst x)) (w_db (fst y))"
    if "rtranclp (plat_step E bd chi st sv) x y" "waiting x" for x y
    using that
  proof (induction rule: rtranclp_induct)
    case base
    then show ?case by simp
  next
    case (step y z)
    then show ?case using waiting_step [OF assms(1) step(2)] jobs_le_trans by blast
  qed
  from this [OF assms(3,2)] show ?thesis by simp
qed

section \<open>From the request to the audio\<close>

lemma calm_runAsyncJob: "keeps calm (runAsyncJob E sv i u m v snap)"
proof -
  have ctx: "keeps calm (ctx_done Background)" by (simp add: ctx_done_def)
  have c: "keeps calm (async_chunk E snap start c st)" for start c st
    unfolding async_chunk_def by (intro keeps_intros)
  have d: "keeps calm (async_deliver E sv i u snap stream)" for stream
    unfolding async_deliver_def by (intro keeps_intros ctx c)
  have a: "keeps calm (acquire_slot b Background)" for b unfolding acquire_slot_def by (intro keeps_intros ctx)
  show ?thesis unfolding runAsyncJob_def track_bind Synthesize_def release_slot_def by (intro keeps_intros a d)
qed

lemma calm_create: "keeps calm (CreateAsyncTTS E sv r)"
  unfolding CreateAsyncTTS_def with_user_def by (intro keeps_intros)

lemma calm_now: "calm s \<Longrightarrow> w_orc s n = 0"
  by (simp add: calm_def)

text \<open>
  When no call fails, a job that has run is completed with the audio of the stream, or failed, or,
  when the audio is more than a column holds, left running: the error of the update is dropped.
\<close>

lemma calm_job_finishes:
  fixes s :: "'v world"
  assumes "calm s" and "\<And>e. e \<in> job_failures sv i m v \<Longrightarrow> pg_text (Error E e)" and row: "tts_jobs (w_db s) i = Some row"
  obtains e where "e \<in> job_failures sv i m v"
      and "tts_jobs (w_db (after (runAsyncJob E sv i u m v snap) s)) i = Some (row\<lparr>j_status := Failed, j_error := Some (Error E e)\<rparr>)"
  | "pg_bytea (WrapWAV (concat (map Pcm (job_chunks sv i m v))) Audio.SampleRate)"
      and "tts_jobs (w_db (after (runAsyncJob E sv i u m v snap) s)) i =
        Some (row\<lparr>j_status := Completed, j_audio := Some (WrapWAV (concat (map Pcm (job_chunks sv i m v))) Audio.SampleRate)\<rparr>)"
  | "\<not> pg_bytea (WrapWAV (concat (map Pcm (job_chunks sv i m v))) Audio.SampleRate)"
      and "tts_jobs (w_db (after (runAsyncJob E sv i u m v snap) s)) i = Some (row\<lparr>j_status := Running\<rparr>)"
proof (rule runAsyncJob_writes [of i s sv m v E u snap])
  fix err and t :: "'v world"
  assume "calm s \<Longrightarrow> calm t \<and> w_db t = snd (set_running i (w_db s))"
    and why: "\<And>e. err = Some e \<Longrightarrow> e \<in> job_failures sv i m v"
    and db: "w_db (after (runAsyncJob E sv i u m v snap) s) = w_db (after (pg (final_write E i (job_chunks sv i m v) err)) t)"
  then have c: "calm t" and ran: "w_db t = snd (set_running i (w_db s))" using assms(1) by simp_all
  have fin: "w_db (after (runAsyncJob E sv i u m v snap) s) = snd (final_write E i (job_chunks sv i m v) err (w_db t))"
    using calm_now [OF c] by (simp add: db w_db_after_pg)
  have t: "tts_jobs (w_db t) i = Some (row\<lparr>j_status := Running\<rparr>)"
    using row by (simp add: ran set_running_def update_job_def)
  show thesis
  proof (cases err)
    case None
    then show thesis using that(2,3) t
      by (cases "pg_bytea (WrapWAV (concat (map Pcm (job_chunks sv i m v))) Audio.SampleRate)")
        (simp_all add: fin final_write_def set_completed_def update_job_def)
  next
    case (Some e)
    then show thesis using that(1) [of e] why [OF Some] t assms(2) [OF why [OF Some]] by (simp add: fin final_write_def set_failed_def update_job_def)
  qed
qed

text \<open>What a request that was answered with a job's identifier has done.\<close>

lemma created_job:
  fixes w :: "'v world"
  assumes u: "rq_user r = Some u" and calm: "calm w"
    and created: "result (CreateAsyncTTS E sv r) w = writeJSON 202 (enc_AsyncJobResponse \<lparr>aj_JobId = Some i\<rparr>)"
  obtains req row and snap :: WalletSnapshot where "unmarshal TTSRequest_step TTSRequest0 (rq_body r) = Some req"
    and "last (w_out (after (CreateAsyncTTS E sv r) w)) =
      Go_async i (ID u) (tr_Text req) (voice_of req) (BalanceUSD snap) (PricePerAudioMinuteUSD snap)"
    and "tts_jobs (w_db (after (CreateAsyncTTS E sv r) w)) i = Some row"
    and "row = \<lparr>j_user = ID u, j_status = Pending, j_input = tr_Text req, j_voice = voice_of req, j_audio = None, j_error = None\<rparr>"
    and "calm (after (CreateAsyncTTS E sv r) w)"
proof -
  define s1 where "s1 = after (admit E sv (ID u)) w"
  have c1: "calm s1" unfolding s1_def by (rule keepsD [OF calm_kept(12) calm])
  have code: "rs_code (result (CreateAsyncTTS E sv r) w) = 202" by (simp add: created)
  note run = CreateAsyncTTS_def with_user_def UserFromContext_def u s1_def [symmetric]
  have "\<exists>snap. result (admit E sv (ID u)) w = Inr snap"
    using code admit_refuses by (cases "result (admit E sv (ID u)) w") (fastforce simp: run)+
  then obtain snap where snap: "result (admit E sv (ID u)) w = Inr snap" ..
  have "\<exists>req. unmarshal TTSRequest_step TTSRequest0 (rq_body r) = Some req"
    using code snap by (cases "unmarshal TTSRequest_step TTSRequest0 (rq_body r)") (simp_all add: run)
  then obtain req where req: "unmarshal TTSRequest_step TTSRequest0 (rq_body r) = Some req" ..
  define row where "row = \<lparr>j_user = ID u, j_status = Pending, j_input = tr_Text req, j_voice = voice_of req,
    j_audio = None, j_error = None\<rparr>"
  define k where "k = w_ids s1 0"
  define q where "q = insert_job k (ID u) (tr_Text req) (voice_of req) (w_db s1)"
  have ok: "fst q = Inr k \<and> snd q = w_db s1\<lparr>tts_jobs := (tts_jobs (w_db s1))(k \<mapsto> row)\<rparr>"
    using code snap req calm_now [OF c1, of 0]
    by (auto simp: run result_pg k_def [symmetric] q_def row_def insert_job_def split: if_splits)
  have res: "result (CreateAsyncTTS E sv r) w = writeJSON 202 (enc_AsyncJobResponse \<lparr>aj_JobId = Some k\<rparr>)"
    using snap req ok calm_now [OF c1, of 0] by (simp add: run result_pg k_def [symmetric] q_def [symmetric])
  have "k = i" using created unfolding res
    by (simp add: writeJSON_def enc_AsyncJobResponse_def obj_def omitempty_def always_def enc_str_def)
  moreover have "last (w_out (after (CreateAsyncTTS E sv r) w)) =
      Go_async k (ID u) (tr_Text req) (voice_of req) (BalanceUSD snap) (PricePerAudioMinuteUSD snap)"
    using snap req ok calm_now [OF c1, of 0] by (simp add: run result_pg k_def [symmetric] q_def [symmetric])
  moreover have "w_db (after (CreateAsyncTTS E sv r) w) = snd q"
    using snap req ok calm_now [OF c1, of 0] by (simp add: run result_pg w_db_after_pg k_def [symmetric] q_def [symmetric])
  moreover have "calm (after (CreateAsyncTTS E sv r) w)"
    by (rule keepsD [OF calm_create calm])
  ultimately show thesis using that [of req snap row] req ok row_def by simp
qed

text \<open>
  C5: An asynchronous synthesis comes back.  When no call fails and the errors of inference are texts the
  database takes, a request that is answered 202 with the
  identifier of a job has started a goroutine with the text and the voice of the request; once that
  has run, the same user is told that the job is completed and gets the WAV file of the whole stream
  inference answered the text with, or is told that it failed, and why: the error of inference or of
  its stream, or an exhausted balance; then there is no audio.  Only when that file is larger than the
  database takes does the job do neither: the failed update is ignored and the job is running for ever.
\<close>

theorem async_job_round_trip:
  assumes u: "rq_user r = Some u" and calm: "calm w" and texts: "\<forall>m v. \<forall>e \<in> job_failures sv i m v. pg_text (Error E e)"
    and created: "result (CreateAsyncTTS E sv r) w = writeJSON 202 (enc_AsyncJobResponse \<lparr>aj_JobId = Some i\<rparr>)"
    and reader: "rq_user r' = Some u'" "ID u' = ID u"
  shows "\<exists>req b p w'. unmarshal TTSRequest_step TTSRequest0 (rq_body r) = Some req \<and>
    last (w_out (after (CreateAsyncTTS E sv r) w)) = Go_async i (ID u) (tr_Text req) (voice_of req) b p \<and>
    w' = after (runAsyncJob E sv i (ID u) (tr_Text req) (voice_of req) \<lparr>BalanceUSD = b, PricePerAudioMinuteUSD = p\<rparr>)
           (after (CreateAsyncTTS E sv r) w) \<and>
    (pg_bytea (WrapWAV (concat (map Pcm (job_chunks sv i (tr_Text req) (voice_of req)))) Audio.SampleRate) \<and>
       result (GetAsyncJob i r') w' = writeJSON 200 (enc_AsyncJobStatusResponse
         \<lparr>js_Error = None, js_JobId = Some i, js_Status = Some ''completed''\<rparr>) \<and>
       rs_body (result (GetAsyncJobAudio i r') w') =
         Bytes (WrapWAV (concat (map Pcm (job_chunks sv i (tr_Text req) (voice_of req)))) Audio.SampleRate)
     \<or> (\<exists>e \<in> job_failures sv i (tr_Text req) (voice_of req).
          result (GetAsyncJob i r') w' = writeJSON 200 (enc_AsyncJobStatusResponse
            \<lparr>js_Error = Some (Error E e), js_JobId = Some i, js_Status = Some ''failed''\<rparr>)) \<and>
       result (GetAsyncJobAudio i r') w' = http_error ''not found'' 404
     \<or> \<not> pg_bytea (WrapWAV (concat (map Pcm (job_chunks sv i (tr_Text req) (voice_of req)))) Audio.SampleRate) \<and>
       result (GetAsyncJob i r') w' = writeJSON 200 (enc_AsyncJobStatusResponse
         \<lparr>js_Error = None, js_JobId = Some i, js_Status = Some ''running''\<rparr>) \<and>
       result (GetAsyncJobAudio i r') w' = http_error ''not found'' 404)"
proof (rule created_job [OF u calm created])
  fix req row and snap :: WalletSnapshot
  define w1 where "w1 = after (CreateAsyncTTS E sv r) w"
  define w' where "w' = after (runAsyncJob E sv i (ID u) (tr_Text req) (voice_of req) snap) w1"
  let ?audio = "WrapWAV (concat (map Pcm (job_chunks sv i (tr_Text req) (voice_of req)))) Audio.SampleRate"
  assume req: "unmarshal TTSRequest_step TTSRequest0 (rq_body r) = Some req"
    and go: "last (w_out (after (CreateAsyncTTS E sv r) w)) =
      Go_async i (ID u) (tr_Text req) (voice_of req) (BalanceUSD snap) (PricePerAudioMinuteUSD snap)"
    and at: "tts_jobs (w_db (after (CreateAsyncTTS E sv r) w)) i = Some row"
    and row: "row = \<lparr>j_user = ID u, j_status = Pending, j_input = tr_Text req, j_voice = voice_of req, j_audio = None, j_error = None\<rparr>"
    and c1: "calm (after (CreateAsyncTTS E sv r) w)"
  have "calm w'" unfolding w'_def w1_def by (rule keepsD [OF calm_runAsyncJob c1])
  then have reads: "w_orc w' 0 = 0" by (rule calm_now)
  have "\<lparr>BalanceUSD = BalanceUSD snap, PricePerAudioMinuteUSD = PricePerAudioMinuteUSD snap\<rparr> = snap" by simp
  moreover have "pg_bytea ?audio \<and> result (GetAsyncJob i r') w' = writeJSON 200 (enc_AsyncJobStatusResponse
         \<lparr>js_Error = None, js_JobId = Some i, js_Status = Some ''completed''\<rparr>) \<and>
       rs_body (result (GetAsyncJobAudio i r') w') = Bytes ?audio
     \<or> (\<exists>e \<in> job_failures sv i (tr_Text req) (voice_of req).
          result (GetAsyncJob i r') w' = writeJSON 200 (enc_AsyncJobStatusResponse
            \<lparr>js_Error = Some (Error E e), js_JobId = Some i, js_Status = Some ''failed''\<rparr>)) \<and>
       result (GetAsyncJobAudio i r') w' = http_error ''not found'' 404
     \<or> \<not> pg_bytea ?audio \<and> result (GetAsyncJob i r') w' = writeJSON 200 (enc_AsyncJobStatusResponse
         \<lparr>js_Error = None, js_JobId = Some i, js_Status = Some ''running''\<rparr>) \<and>
       result (GetAsyncJobAudio i r') w' = http_error ''not found'' 404"
  proof (rule calm_job_finishes [of w1 sv i "tr_Text req" "voice_of req" E row "ID u" snap])
    show "calm w1" "tts_jobs (w_db w1) i = Some row" using c1 at by (simp_all add: w1_def)
    fix e
    assume "e \<in> job_failures sv i (tr_Text req) (voice_of req)"
      and "tts_jobs (w_db (after (runAsyncJob E sv i (ID u) (tr_Text req) (voice_of req) snap) w1)) i =
        Some (row\<lparr>j_status := Failed, j_error := Some (Error E e)\<rparr>)"
    then show ?thesis using reader reads
      by (intro disjI2 disjI1) (auto simp: w'_def [symmetric] GetAsyncJob_def GetAsyncJobAudio_def with_user_def UserFromContext_def
          result_pg select_job_def row intro!: bexI [of _ e])
  next
    assume fits: "pg_bytea ?audio" and fin: "tts_jobs (w_db (after (runAsyncJob E sv i (ID u) (tr_Text req) (voice_of req) snap) w1)) i =
        Some (row\<lparr>j_status := Completed, j_audio := Some ?audio\<rparr>)"
    have "?audio \<noteq> []" by (metis length_WrapWAV list.size(3) add_is_0 zero_neq_numeral)
    then show ?thesis using reader reads fin fits
      by (intro disjI1) (simp add: w'_def [symmetric] GetAsyncJob_def GetAsyncJobAudio_def with_user_def UserFromContext_def
          result_pg select_job_def row Let_def)
  next
    assume "\<not> pg_bytea ?audio" and "tts_jobs (w_db (after (runAsyncJob E sv i (ID u) (tr_Text req) (voice_of req) snap) w1)) i =
        Some (row\<lparr>j_status := Running\<rparr>)"
    then show ?thesis using reader reads
      by (intro disjI2) (simp add: w'_def [symmetric] GetAsyncJob_def GetAsyncJobAudio_def with_user_def UserFromContext_def
          result_pg select_job_def row Let_def)
  qed (use texts in simp)
  ultimately show ?thesis using req go w'_def [unfolded w1_def] by metis
qed

section \<open>A concrete run\<close>

text \<open>A world in which a job waits for its goroutine; the goroutine runs, then a request comes.\<close>

definition world_job :: "mem world" where
  "world_job = world_u\<lparr>w_db := db_u\<lparr>tts_jobs := [''j'' \<mapsto>
     \<lparr>j_user = ''u'', j_status = Pending, j_input = ''hi'', j_voice = ''tara'', j_audio = None, j_error = None\<rparr>]\<rparr>\<rparr>"

definition go0 :: effect where
  "go0 = Go_async ''j'' ''u'' ''hi'' ''tara'' (Fin 20) (Fin 1)"

theorem jobs_only_advance_witness:
  "\<exists>(w' :: mem world) js'. jobs_le (w_db world_job) (w_db w') \<and> waiting (w', js') \<and>
     (\<exists>j. tts_jobs (w_db w') ''j'' = Some j \<and> j_user j = ''u'' \<and> j_input j = ''hi'')"
proof -
  let ?step = "plat_step mem_env bindings0 (chi_to 36) static0 server0"
  define w1 where "w1 = after (runAsyncJob mem_env server0 ''j'' ''u'' ''hi'' ''tara''
    \<lparr>BalanceUSD = Fin 20, PricePerAudioMinuteUSD = Fin 1\<rparr>) world_job"
  define w2 where "w2 = after (router mem_env bindings0 (chi_to 36) static0 server0 wallet_request) w1"
  have one: "?step (world_job, [go0]) (w1, [])"
    using plat_step.goroutine [of mem_env bindings0 "chi_to 36" static0 server0 world_job "[]" "''j''" "''u''" "''hi''"
        "''tara''" "Fin 20" "Fin 1" "[]"] by (simp add: go0_def w1_def)
  obtain es where "w_out w2 = w_out w1 @ es"
    using request_grown [OF platform0, of w1 bindings0 "chi_to 36" wallet_request] by (auto simp: grown_def w2_def)
  then have two: "?step (w1, []) (w2, [] @ filter is_spawn es)"
    unfolding w2_def by (rule plat_step.request)
  have wait: "waiting (world_job, [go0])" by (simp add: waiting_def world_job_def go0_def)
  have "rtranclp ?step (world_job, [go0]) (w2, [] @ filter is_spawn es)"
    by (rule converse_rtranclp_into_rtranclp, rule one, rule r_into_rtranclp, rule two)
  from jobs_only_advance [OF platform0 wait this]
  have r: "jobs_le (w_db world_job) (w_db w2)" "waiting (w2, [] @ filter is_spawn es)" by simp_all
  have "tts_jobs (w_db world_job) ''j'' = Some \<lparr>j_user = ''u'', j_status = Pending, j_input = ''hi'',
      j_voice = ''tara'', j_audio = None, j_error = None\<rparr>" by (simp add: world_job_def)
  then obtain j where "tts_jobs (w_db w2) ''j'' = Some j" "j_user j = ''u''" "j_input j = ''hi''"
    using r(1) unfolding jobs_le_def job_le_def by fastforce
  then show ?thesis using r by blast
qed

lemma tts_created:
  "\<exists>i. result (CreateAsyncTTS mem_env sv0 tts_request) world_u = writeJSON 202 (enc_AsyncJobResponse \<lparr>aj_JobId = Some i\<rparr>)"
proof -
  define s1 where "s1 = after (admit mem_env sv0 ''u'') world_u"
  have "calm s1" unfolding s1_def by (rule keepsD [OF calm_kept(12) calm_world_u])
  then have "w_orc s1 0 = 0" by (rule calm_now)
  moreover have "w_db s1 = w_db world_u" unfolding s1_def by (rule keepsD [OF db_kept(13) refl])
  ultimately have "result (pg (insert_job (w_ids s1 0) ''u'' ''hi'' ''tara'')) (after new_uuid s1) = Inr (w_ids s1 0)"
    by (simp add: result_pg insert_job_def has_user_def pg_text_def)
  moreover have "rq_user tts_request = Some \<lparr>ID = ''u'', Username = ''dev''\<rparr>" by (simp add: tts_request_def)
  ultimately have "result (CreateAsyncTTS mem_env sv0 tts_request) world_u =
      writeJSON 202 (enc_AsyncJobResponse \<lparr>aj_JobId = Some (w_ids s1 0)\<rparr>)"
    using admit_world_u tts_request_read
    by (simp add: CreateAsyncTTS_def with_user_def UserFromContext_def s1_def [symmetric] voice_of_def)
  then show ?thesis by blast
qed

theorem async_job_round_trip_witness:
  "\<exists>i. \<exists>w' :: mem world. result (GetAsyncJob i tts_request) w' = writeJSON 200 (enc_AsyncJobStatusResponse
         \<lparr>js_Error = None, js_JobId = Some i, js_Status = Some ''completed''\<rparr>) \<and>
       rs_body (result (GetAsyncJobAudio i tts_request) w') = Bytes (WrapWAV (Pcm chunk0) Audio.SampleRate)
     \<or> result (GetAsyncJob i tts_request) w' = writeJSON 200 (enc_AsyncJobStatusResponse
         \<lparr>js_Error = Some ''insufficient balance'', js_JobId = Some i, js_Status = Some ''failed''\<rparr>)"
proof -
  obtain i where i: "result (CreateAsyncTTS mem_env sv0 tts_request) world_u =
      writeJSON 202 (enc_AsyncJobResponse \<lparr>aj_JobId = Some i\<rparr>)" using tts_created by blast
  have fail: "job_failures sv0 k m v = {insufficient_balance}" and chunks: "job_chunks sv0 k m v = [chunk0]" for k m v
    by (simp_all add: job_failures_def job_errors_def job_chunks_def sv0_def inference0_def)
  have e: "Error mem_env insufficient_balance = ''insufficient balance''" by (simp add: insufficient_balance_def)
  have small: "pg_bytea (WrapWAV (concat (map Pcm [chunk0])) Audio.SampleRate)"
    by (simp add: pg_bytea_def length_WrapWAV chunk0_def)
  have texts: "\<forall>m v. \<forall>e \<in> job_failures sv0 i m v. pg_text (Error mem_env e)" by (simp add: fail e pg_text_def)
  have u: "rq_user tts_request = Some \<lparr>ID = ''u'', Username = ''dev''\<rparr>" by (simp add: tts_request_def)
  have "\<exists>w' :: mem world. pg_bytea (WrapWAV (concat (map Pcm [chunk0])) Audio.SampleRate) \<and>
       result (GetAsyncJob i tts_request) w' = writeJSON 200 (enc_AsyncJobStatusResponse
         \<lparr>js_Error = None, js_JobId = Some i, js_Status = Some ''completed''\<rparr>) \<and>
       rs_body (result (GetAsyncJobAudio i tts_request) w') = Bytes (WrapWAV (concat (map Pcm [chunk0])) Audio.SampleRate)
     \<or> (\<exists>e \<in> {insufficient_balance}. result (GetAsyncJob i tts_request) w' = writeJSON 200 (enc_AsyncJobStatusResponse
         \<lparr>js_Error = Some (Error mem_env e), js_JobId = Some i, js_Status = Some ''failed''\<rparr>)) \<and>
       result (GetAsyncJobAudio i tts_request) w' = http_error ''not found'' 404
     \<or> \<not> pg_bytea (WrapWAV (concat (map Pcm [chunk0])) Audio.SampleRate) \<and>
       result (GetAsyncJob i tts_request) w' = writeJSON 200 (enc_AsyncJobStatusResponse
         \<lparr>js_Error = None, js_JobId = Some i, js_Status = Some ''running''\<rparr>) \<and>
       result (GetAsyncJobAudio i tts_request) w' = http_error ''not found'' 404"
    using async_job_round_trip [OF u calm_world_u texts i u refl, unfolded fail chunks]
    by (elim exE conjE) (rule exI, assumption)
  then show ?thesis using small by (auto simp: e)
qed

end
